(* ===== verification/Shard_Prelude.thy ===== *)
theory Shard_Prelude
  imports Main "HOL-Library.Word" "HOL-Library.AList" "HOL-Library.Multiset"
begin

text \<open>
  Shared vocabulary of the development.

  \<^item> Machine data: bytes, \<open>uint64\<close>, \<open>uint256\<close> and the fixed-size byte arrays
    \<open>common.Address\<close> (20 bytes) and \<open>common.Hash\<close> (32 bytes), which are read big-endian
    as words, so that the last byte of the array is the low byte of the word.
    Go's \<open>*big.Int\<close> and its 64-bit \<open>int\<close> (used for shard numbers only) are \<open>int\<close>.
  \<^item> Go maps: the list of the entries of the map, without repeated keys, in the order in which a
    \<open>range\<close> statement visits them. Go leaves that order open, so statements about a \<open>range\<close>
    loop hold for every list.
    \<open>mget\<close>, \<open>mput\<close> and \<open>mdel\<close> are indexing, assignment and \<open>delete\<close>.
  \<^item> Go slices are lists. A nil slice is the empty list: the sources distinguish the two only
    when they print JSON.
  \<^item> A run-time panic is the value \<open>None\<close> of an option type.
\<close>

subsection \<open>Machine data\<close>

type_synonym byte = "8 word"
type_synonym u64 = "64 word"
type_synonym u256 = "256 word"
type_synonym address = "160 word"
type_synonym hash = "256 word"
type_synonym txid = string

definition last_byte :: "address \<Rightarrow> nat" where
  "last_byte a = unat (ucast a :: byte)"

lemma last_byte_mod: "last_byte a = unat a mod 256"
  by (simp add: last_byte_def unsigned_ucast_eq take_bit_eq_mod)

lemma last_byte_less: "last_byte a < 256"
  by (simp add: last_byte_mod)

subsection \<open>Go maps\<close>

type_synonym ('k, 'v) gomap = "('k \<times> 'v) list"

abbreviation mget :: "('k, 'v) gomap \<Rightarrow> 'k \<Rightarrow> 'v option" where
  "mget m k \<equiv> map_of m k"

abbreviation mput :: "'k \<Rightarrow> 'v \<Rightarrow> ('k, 'v) gomap \<Rightarrow> ('k, 'v) gomap" where
  "mput k v m \<equiv> AList.update k v m"

abbreviation mdel :: "'k \<Rightarrow> ('k, 'v) gomap \<Rightarrow> ('k, 'v) gomap" where
  "mdel k m \<equiv> AList.delete k m"

abbreviation mkeys :: "('k, 'v) gomap \<Rightarrow> 'k list" where
  "mkeys m \<equiv> map fst m"

text \<open>\<open>m[k]\<close> in a value position: the zero value of the type when the key is absent.\<close>

definition mgetd :: "'v \<Rightarrow> ('k, 'v) gomap \<Rightarrow> 'k \<Rightarrow> 'v" where
  "mgetd d m k = (case mget m k of None \<Rightarrow> d | Some v \<Rightarrow> v)"

definition wfmap :: "('k, 'v) gomap \<Rightarrow> bool" where
  "wfmap m \<longleftrightarrow> distinct (mkeys m)"

named_theorems gomap_simps \<open>lookups and well-formedness after map updates\<close>

lemma mget_mput [gomap_simps]: "mget (mput k v m) k' = (if k' = k then Some v else mget m k')"
  by (simp add: update_conv')

lemma mget_mdel [gomap_simps]: "mget (mdel k m) k' = (if k' = k then None else mget m k')"
  by (simp add: delete_conv')

lemma mgetd_mput [gomap_simps]: "mgetd d (mput k v m) k' = (if k' = k then v else mgetd d m k')"
  by (simp add: mgetd_def mget_mput)

lemma mgetd_mdel [gomap_simps]: "mgetd d (mdel k m) k' = (if k' = k then d else mgetd d m k')"
  by (simp add: mgetd_def mget_mdel)

lemma mgetd_Nil [simp]: "mgetd d [] k = d"
  by (simp add: mgetd_def)

lemma wfmap_Nil [simp, intro]: "wfmap []"
  by (simp add: wfmap_def)

lemma wfmap_mput [simp, intro]: "wfmap m \<Longrightarrow> wfmap (mput k v m)"
  by (simp add: wfmap_def distinct_update)

lemma wfmap_mdel [simp, intro]: "wfmap m \<Longrightarrow> wfmap (mdel k m)"
  by (simp add: wfmap_def distinct_delete)

lemma wfmap_filter [simp, intro]: "wfmap m \<Longrightarrow> wfmap (filter P m)"
  by (induction m) (auto simp: wfmap_def)

lemma wfmap_distinct: "wfmap m \<Longrightarrow> distinct m"
  by (simp add: wfmap_def distinct_map)

lemma wfmap_mget_iff: "wfmap m \<Longrightarrow> (k, v) \<in> set m \<longleftrightarrow> mget m k = Some v"
  by (auto simp: wfmap_def)

lemma mget_None_iff: "mget m k = None \<longleftrightarrow> k \<notin> set (mkeys m)"
  by (simp add: map_of_eq_None_iff)

lemma mget_in_keys: "mget m k \<noteq> None \<longleftrightarrow> k \<in> set (mkeys m)"
  by (simp add: map_of_eq_None_iff)

lemma mdel_absent [simp]: "mget m k = None \<Longrightarrow> mdel k m = m"
  by (simp add: delete_id map_of_eq_None_iff)

lemma in_set_mdel [simp]: "e \<in> set (mdel k m) \<longleftrightarrow> e \<in> set m \<and> fst e \<noteq> k"
  by (auto simp: AList.delete_eq)

lemma in_set_mputD: "e \<in> set (mput k v m) \<Longrightarrow> e = (k, v) \<or> e \<in> set m"
  by (induction m) (auto split: if_splits)

lemma length_mdel_le: "length (mdel k m) \<le> length m"
  by (rule length_delete_le)

lemma length_mdel_less: "mget m k \<noteq> None \<Longrightarrow> length (mdel k m) < length m"
  by (induction m) (auto split: if_splits simp: le_imp_less_Suc length_delete_le)

lemma length_mdel_present: "wfmap m \<Longrightarrow> mget m k \<noteq> None \<Longrightarrow> Suc (length (mdel k m)) = length m"
proof (induction m)
  case (Cons e m)
  then show ?case
    by (cases e) (force simp: wfmap_def map_of_eq_None_iff split: if_splits)
qed simp

lemma length_mput_absent: "mget m k = None \<Longrightarrow> length (mput k v m) = Suc (length m)"
  by (induction m) (auto split: if_splits)

lemma mput_mput [simp]: "mput k v (mput k w m) = mput k v m"
  by (induction m) auto

lemma mput_not_Nil [simp]: "mput k v m \<noteq> []"
  by (induction m) auto

lemma mput_same [simp]: "mget m k = Some v \<Longrightarrow> mput k v m = m"
  by (induction m) auto

lemma mdel_mput [simp]: "mdel k (mput k v m) = mdel k m"
  by (induction m) auto

lemma mset_mkeys_mput_absent: "mget m k = None \<Longrightarrow> mset (mkeys (mput k v m)) = add_mset k (mset (mkeys m))"
  by (induction m) (auto split: if_splits)

lemma mset_mkeys_mdel:
  "wfmap m \<Longrightarrow> mget m k \<noteq> None \<Longrightarrow> add_mset k (mset (mkeys (mdel k m))) = mset (mkeys m)"
proof (induction m)
  case (Cons e m)
  then show ?case
    by (cases e) (force simp: wfmap_def map_of_eq_None_iff)
qed simp

lemma mget_filter_key:
  "mget (filter (\<lambda>(k, v). P k) m) k = (if P k then mget m k else None)"
  by (induction m) auto

lemma mget_filter_val:
  "wfmap m \<Longrightarrow> mget (filter (\<lambda>(k, v). P v) m) k =
     (case mget m k of None \<Rightarrow> None | Some v \<Rightarrow> if P v then Some v else None)"
  by (induction m) (auto simp: wfmap_def map_of_eq_None_iff split: option.splits)

subsection \<open>Lists\<close>

text \<open>Remove the first element that satisfies a predicate (a \<open>for\<close> loop with \<open>break\<close>).\<close>

fun remove_first :: "('a \<Rightarrow> bool) \<Rightarrow> 'a list \<Rightarrow> 'a list" where
  "remove_first P [] = []"
| "remove_first P (x # xs) = (if P x then xs else x # remove_first P xs)"

lemma remove_first_split:
  "\<forall>y \<in> set xs. \<not> P y \<Longrightarrow> P x \<Longrightarrow> remove_first P (xs @ x # ys) = xs @ ys"
  by (induction xs) simp_all

lemma mset_remove_first:
  assumes "x \<in> set xs" and "P x"
  obtains y where "y \<in> set xs" and "P y" and "mset xs = add_mset y (mset (remove_first P xs))"
proof -
  have "\<exists>y \<in> set xs. P y"
    using assms by blast
  then obtain us y vs where "xs = us @ y # vs" "P y" "\<forall>z \<in> set us. \<not> P z"
    using split_list_first_prop [of xs P] by blast
  then show thesis
    using that by (simp add: remove_first_split)
qed

lemma distinct_append_left: "distinct (xs @ ys @ zs) \<Longrightarrow> distinct (xs @ ys)"
  by auto

lemma map_upt_add: "map f [0..<m + n] = map f [0..<m] @ map (\<lambda>i. f (m + i)) [0..<n]"
  by (induction n) simp_all

lemma remove_first_id [simp]: "\<forall>x \<in> set xs. \<not> P x \<Longrightarrow> remove_first P xs = xs"
  by (induction xs) auto

lemma set_remove_first_subset: "set (remove_first P xs) \<subseteq> set xs"
  by (induction xs) auto

subsection \<open>Machines driven by events\<close>

text \<open>
  A component as a machine: a step either panics or gives the next state. The locale is the
  contract of an invariant \<open>I\<close> that may speak about the events so far, for the histories that
  satisfy a prefix-closed side condition \<open>A\<close>; its lemmas carry the invariant to whole runs.
\<close>

fun run_machine :: "('s \<Rightarrow> 'e \<Rightarrow> 's option) \<Rightarrow> 's \<Rightarrow> 'e list \<Rightarrow> 's option" where
  "run_machine step s [] = Some s"
| "run_machine step s (e # es) = Option.bind (step s e) (\<lambda>s'. run_machine step s' es)"

lemma run_machine_append:
  "run_machine step s (es @ fs) = Option.bind (run_machine step s es) (\<lambda>s'. run_machine step s' fs)"
  by (induction es arbitrary: s) (auto split: Option.bind_splits)

locale machine_invariant =
  fixes init :: 's
    and step :: "'s \<Rightarrow> 'e \<Rightarrow> 's option"
    and A :: "'e list \<Rightarrow> bool"
    and I :: "'e list \<Rightarrow> 's \<Rightarrow> bool"
  assumes A_prefix: "A (h @ [e]) \<Longrightarrow> A h"
    and I_init: "I [] init"
    and I_step: "I h s \<Longrightarrow> A (h @ [e]) \<Longrightarrow> \<exists>s'. step s e = Some s' \<and> I (h @ [e]) s'"
begin

lemma run_invariant: "A h \<Longrightarrow> \<exists>s. run_machine step init h = Some s \<and> I h s"
proof (induction h rule: rev_induct)
  case Nil
  show ?case using I_init by simp
next
  case (snoc e h)
  then obtain s where s: "run_machine step init h = Some s" "I h s"
    using A_prefix by blast
  then obtain s' where "step s e = Some s'" "I (h @ [e]) s'"
    using I_step snoc.prems by blast
  with s show ?case
    by (simp add: run_machine_append)
qed

lemma run_reachable: "A h \<Longrightarrow> run_machine step init h = Some s \<Longrightarrow> I h s"
  using run_invariant by fastforce

end

end
