(* ===== verification/Protocol_Types.thy ===== *)
theory Protocol_Types
  imports Shard_Prelude
begin

text \<open>
  The messages of the protocol (\<open>internal/protocol/types.go\<close>, \<open>internal/protocol/block.go\<close>):
  the JSON wrappers \<open>BigInt\<close> and \<open>HexBytes\<close>, read and write sets, transaction types and
  their execution priority, transactions, cross-shard transactions with the shards they involve,
  and the two kinds of block. The lemmas show that the wrappers read back what they print, that
  the shard lists are duplicate free and complete, and that a deep copy keeps every field.

  A JSON document is given by the token the decoder of the standard library has found in it.
  A \<open>*BigInt\<close> is nil or holds a \<open>*big.Int\<close> that may itself be nil: two option layers.
\<close>

subsection \<open>Numbers and bytes as text (the parts of math/big and encoding/hex used here)\<close>

definition digit_char :: "nat \<Rightarrow> char" where
  "digit_char d = (if d < 10 then char_of (48 + d) else char_of (87 + d))"

definition digit_val :: "char \<Rightarrow> nat option" where
  "digit_val c = (let n = (of_char c :: nat) in
     if 48 \<le> n \<and> n \<le> 57 then Some (n - 48)
     else if 97 \<le> n \<and> n \<le> 122 then Some (n - 87)
     else if 65 \<le> n \<and> n \<le> 90 then Some (n - 55)
     else None)"

text \<open>Digits of a number, most significant first; no leading zero (\<open>nat.itoa\<close>).\<close>

fun show_nat :: "nat \<Rightarrow> string" where
  "show_nat n = (if n < 10 then [digit_char n] else show_nat (n div 10) @ [digit_char (n mod 10)])"

declare show_nat.simps [simp del]

definition show_int :: "int \<Rightarrow> string" where
  "show_int i = (if i < 0 then CHR ''-'' # show_nat (nat (- i)) else show_nat (nat i))"

text \<open>\<open>nat.scan\<close> on a whole string: every character is a digit below the base.\<close>

fun scan_digits :: "nat \<Rightarrow> nat \<Rightarrow> string \<Rightarrow> nat option" where
  "scan_digits b acc [] = Some acc"
| "scan_digits b acc (c # cs) =
     (case digit_val c of
        None \<Rightarrow> None
      | Some d \<Rightarrow> if d < b then scan_digits b (acc * b + d) cs else None)"

definition scan_nat :: "nat \<Rightarrow> string \<Rightarrow> nat option" where
  "scan_nat b s = (if s = [] then None else scan_digits b 0 s)"

definition set_string :: "string \<Rightarrow> nat \<Rightarrow> int option" where
  "set_string s b = (case s of
     [] \<Rightarrow> None
   | c # cs \<Rightarrow>
       if c = CHR ''-'' then map_option (\<lambda>n. - int n) (scan_nat b cs)
       else if c = CHR ''+'' then map_option int (scan_nat b cs)
       else map_option int (scan_nat b s))"

text \<open>The conversion of a string to a slice of bytes.\<close>

definition string_bytes :: "string \<Rightarrow> byte list" where
  "string_bytes = map of_char"

definition hex_encode :: "byte list \<Rightarrow> string" where
  "hex_encode bs = concat (map (\<lambda>b. [digit_char (unat b div 16), digit_char (unat b mod 16)]) bs)"

text \<open>\<open>hex.DecodeString\<close>: pairs of hexadecimal digits; an odd length is an error.\<close>

fun hex_decode :: "string \<Rightarrow> byte list option" where
  "hex_decode [] = Some []"
| "hex_decode [c] = None"
| "hex_decode (c # d # cs) =
     (case (digit_val c, digit_val d) of
        (Some h, Some l) \<Rightarrow>
          if h < 16 \<and> l < 16
          then map_option (\<lambda>bs. word_of_nat (h * 16 + l) # bs) (hex_decode cs)
          else None
      | _ \<Rightarrow> None)"

subsection \<open>BigInt and HexBytes\<close>

datatype json_token = JNull | JString string | JInteger int | JOther

type_synonym BigInt = "int option"

text \<open>\<open>json.Unmarshal(data, &s)\<close> for a string: \<open>null\<close> leaves the empty string.\<close>

fun json_string :: "json_token \<Rightarrow> string option" where
  "json_string JNull = Some []"
| "json_string (JString s) = Some s"
| "json_string (JInteger i) = None"
| "json_string JOther = None"

fun json_int64 :: "json_token \<Rightarrow> int option" where
  "json_int64 JNull = Some 0"
| "json_int64 (JInteger i) = (if - (2 ^ 63) \<le> i \<and> i < 2 ^ 63 then Some i else None)"
| "json_int64 (JString s) = None"
| "json_int64 JOther = None"

definition NewBigInt :: "int option \<Rightarrow> BigInt option" where
  "NewBigInt i = (case i of None \<Rightarrow> None | Some n \<Rightarrow> Some (Some n))"

definition BigInt_UnmarshalJSON :: "json_token \<Rightarrow> BigInt option" where
  "BigInt_UnmarshalJSON data =
     (case json_string data of
        None \<Rightarrow> map_option Some (json_int64 data)
      | Some s \<Rightarrow>
          if 2 \<le> length s \<and> take 2 s = ''0x''
          then map_option Some (set_string (drop 2 s) 16)
          else map_option Some (set_string s 10))"

definition BigInt_MarshalJSON :: "BigInt \<Rightarrow> json_token" where
  "BigInt_MarshalJSON b =
     (case b of None \<Rightarrow> JString ''0'' | Some i \<Rightarrow> JString (show_int i))"

definition ToBigInt :: "BigInt option \<Rightarrow> int" where
  "ToBigInt b = (case b of None \<Rightarrow> 0 | Some None \<Rightarrow> 0 | Some (Some i) \<Rightarrow> i)"

definition BigInt_DeepCopy :: "BigInt option \<Rightarrow> BigInt option" where
  "BigInt_DeepCopy b = (case b of None \<Rightarrow> None | Some None \<Rightarrow> None | Some (Some i) \<Rightarrow> Some (Some i))"

type_synonym HexBytes = "byte list"

definition HexBytes_UnmarshalJSON :: "json_token \<Rightarrow> HexBytes option" where
  "HexBytes_UnmarshalJSON data =
     (case json_string data of
        None \<Rightarrow> None
      | Some s \<Rightarrow>
          if s = [] \<or> s = ''0x'' then Some []
          else hex_decode (if 2 \<le> length s \<and> take 2 s = ''0x'' then drop 2 s else s))"

definition HexBytes_MarshalJSON :: "HexBytes \<Rightarrow> json_token" where
  "HexBytes_MarshalJSON h = JString (''0x'' @ hex_encode h)"

subsection \<open>Read and write sets, transactions\<close>

record Reference =
  ShardNum :: int
  BlockHash :: hash
  BlockHeight :: u64

record ReadSetItem =
  rs_Slot :: hash
  rs_Value :: "byte list"
  rs_Proof :: "byte list list"

record WriteSetItem =
  ws_Slot :: hash
  ws_OldValue :: "byte list"
  ws_NewValue :: "byte list"

record RwVariable =
  rw_Address :: address
  rw_ReferenceBlock :: Reference
  rw_ReadSet :: "ReadSetItem list"
  rw_WriteSet :: "WriteSetItem list"

text \<open>\<open>TxType\<close> is a string in the source; \<open>TxTypeOther\<close> is any string that is not a constant.\<close>

datatype TxType =
    TxTypeLocal | TxTypeCrossDebit | TxTypeCrossCredit | TxTypeCrossWriteSet | TxTypeCrossAbort
  | TxTypePrepareDebit | TxTypePrepareCredit | TxTypePrepareWriteSet
  | TxTypeLock | TxTypeUnlock | TxTypeSimError | TxTypeFinalize
  | TxTypeOther string

fun Priority :: "TxType \<Rightarrow> nat" where
  "Priority TxTypeCrossDebit = 1"
| "Priority TxTypeCrossCredit = 1"
| "Priority TxTypeCrossWriteSet = 1"
| "Priority TxTypeFinalize = 1"
| "Priority TxTypeUnlock = 2"
| "Priority TxTypeLock = 3"
| "Priority TxTypeSimError = 5"
| "Priority _ = 4"

record Transaction =
  tx_ID :: string
  tx_TxHash :: hash
  tx_From :: address
  tx_To :: address
  tx_Value :: "BigInt option"
  tx_Gas :: u64
  tx_Data :: HexBytes
  tx_IsCrossShard :: bool
  tx_TxType :: TxType
  tx_CrossShardTxID :: txid
  tx_RwSet :: "RwVariable list"
  tx_Error :: string

text \<open>The zero value of the struct: what a composite literal leaves unset.\<close>

definition Transaction_zero :: Transaction where
  "Transaction_zero = \<lparr>tx_ID = [], tx_TxHash = 0, tx_From = 0, tx_To = 0, tx_Value = None,
     tx_Gas = 0, tx_Data = [], tx_IsCrossShard = False, tx_TxType = TxTypeLocal,
     tx_CrossShardTxID = [], tx_RwSet = [], tx_Error = []\<rparr>"

datatype TxStatus = TxPending | TxPrepared | TxCommitted | TxAborted | TxStatusUnset
datatype SimulationStatus = SimPending | SimRunning | SimSuccess | SimFailed | SimUnset

record CrossShardTx =
  ct_ID :: txid
  ct_TxHash :: hash
  ct_FromShard :: int
  ct_From :: address
  ct_To :: address
  ct_Value :: "BigInt option"
  ct_Gas :: u64
  ct_Data :: HexBytes
  ct_RwSet :: "RwVariable list"
  ct_Status :: TxStatus
  ct_SimStatus :: SimulationStatus
  ct_SimError :: string

definition CrossShardTx_zero :: CrossShardTx where
  "CrossShardTx_zero = \<lparr>ct_ID = [], ct_TxHash = 0, ct_FromShard = 0, ct_From = 0, ct_To = 0,
     ct_Value = None, ct_Gas = 0, ct_Data = [], ct_RwSet = [], ct_Status = TxStatusUnset,
     ct_SimStatus = SimUnset, ct_SimError = []\<rparr>"

subsection \<open>Deep copies\<close>

definition ReadSetItem_DeepCopy :: "ReadSetItem \<Rightarrow> ReadSetItem" where
  "ReadSetItem_DeepCopy r =
     \<lparr>rs_Slot = rs_Slot r, rs_Value = rs_Value r, rs_Proof = map (\<lambda>p. p) (rs_Proof r)\<rparr>"

definition WriteSetItem_DeepCopy :: "WriteSetItem \<Rightarrow> WriteSetItem" where
  "WriteSetItem_DeepCopy w =
     \<lparr>ws_Slot = ws_Slot w, ws_OldValue = ws_OldValue w, ws_NewValue = ws_NewValue w\<rparr>"

definition RwVariable_DeepCopy :: "RwVariable \<Rightarrow> RwVariable" where
  "RwVariable_DeepCopy rw =
     \<lparr>rw_Address = rw_Address rw, rw_ReferenceBlock = rw_ReferenceBlock rw,
      rw_ReadSet = map ReadSetItem_DeepCopy (rw_ReadSet rw),
      rw_WriteSet = map WriteSetItem_DeepCopy (rw_WriteSet rw)\<rparr>"

definition Transaction_DeepCopy :: "Transaction \<Rightarrow> Transaction" where
  "Transaction_DeepCopy tx =
     \<lparr>tx_ID = tx_ID tx, tx_TxHash = tx_TxHash tx, tx_From = tx_From tx, tx_To = tx_To tx,
      tx_Value = BigInt_DeepCopy (tx_Value tx), tx_Gas = tx_Gas tx, tx_Data = tx_Data tx,
      tx_IsCrossShard = tx_IsCrossShard tx, tx_TxType = tx_TxType tx,
      tx_CrossShardTxID = tx_CrossShardTxID tx,
      tx_RwSet = map RwVariable_DeepCopy (tx_RwSet tx), tx_Error = tx_Error tx\<rparr>"

definition CrossShardTx_DeepCopy :: "CrossShardTx \<Rightarrow> CrossShardTx" where
  "CrossShardTx_DeepCopy tx =
     \<lparr>ct_ID = ct_ID tx, ct_TxHash = ct_TxHash tx, ct_FromShard = ct_FromShard tx,
      ct_From = ct_From tx, ct_To = ct_To tx, ct_Value = BigInt_DeepCopy (ct_Value tx),
      ct_Gas = ct_Gas tx, ct_Data = ct_Data tx, ct_RwSet = map RwVariable_DeepCopy (ct_RwSet tx),
      ct_Status = ct_Status tx, ct_SimStatus = ct_SimStatus tx, ct_SimError = ct_SimError tx\<rparr>"

subsection \<open>The shards a transaction involves\<close>

fun target_shards_loop :: "int list \<Rightarrow> int list \<Rightarrow> RwVariable list \<Rightarrow> int list" where
  "target_shards_loop seen shards [] = shards"
| "target_shards_loop seen shards (rw # rws) =
     (let s = ShardNum (rw_ReferenceBlock rw) in
      if s \<notin> set seen then target_shards_loop (s # seen) (shards @ [s]) rws
      else target_shards_loop seen shards rws)"

definition TargetShards :: "CrossShardTx \<Rightarrow> int list" where
  "TargetShards tx = target_shards_loop [] [] (ct_RwSet tx)"

definition InvolvedShards :: "CrossShardTx \<Rightarrow> int list" where
  "InvolvedShards tx =
     (let shards = TargetShards tx in
      if ct_FromShard tx \<in> set shards then shards else ct_FromShard tx # shards)"

subsection \<open>Blocks\<close>

text \<open>The hash of a block (SHA-256 of its JSON text) is a parameter of the definitions using it.\<close>

record OrchestratorShardBlock =
  ob_Height :: u64
  ob_PrevHash :: hash
  ob_Timestamp :: u64
  ob_TpcResult :: "(txid, bool) gomap"
  ob_CtToOrder :: "CrossShardTx list"

record StateShardBlock =
  sb_ShardID :: int
  sb_Height :: u64
  sb_PrevHash :: hash
  sb_Timestamp :: u64
  sb_StateRoot :: hash
  sb_TxOrdering :: "Transaction list"
  sb_PrepareTxs :: "Transaction list"
  sb_TpcPrepare :: "(txid, bool) gomap"

subsection \<open>Requests and replies\<close>

record PrepareRequest =
  pr_TxID :: txid
  pr_Address :: address
  pr_Amount :: "int option"

record PrepareResponse =
  ps_TxID :: txid
  ps_Success :: bool
  ps_Error :: string

record CommitRequest =
  cr_TxID :: txid

record RwSetRequest =
  rr_Address :: address
  rr_Data :: HexBytes
  rr_Value :: "BigInt option"
  rr_Caller :: address
  rr_ReferenceBlock :: Reference
  rr_TxID :: txid

record RwSetReply =
  ry_Success :: bool
  ry_RwSet :: "RwVariable list"
  ry_Error :: string
  ry_GasUsed :: u64

record NoStateError =
  ns_Address :: address
  ns_Caller :: address
  ns_Data :: "byte list"
  ns_Value :: "int option"
  ns_ShardID :: int

subsection \<open>Digits\<close>

lemma digit_val_char [simp]: "d < 16 \<Longrightarrow> digit_val (digit_char d) = Some d"
  by (auto simp: digit_val_def digit_char_def Let_def)

lemma digit_char_not_sign [simp]:
  "d < 16 \<Longrightarrow> digit_char d \<noteq> CHR ''-''" "d < 16 \<Longrightarrow> digit_char d \<noteq> CHR ''+''"
  "d < 16 \<Longrightarrow> digit_char d \<noteq> CHR ''x''"
  using digit_val_char [of d] by (auto simp: digit_val_def Let_def)

lemma scan_digits_append:
  "scan_digits b acc (s @ t) =
     (case scan_digits b acc s of None \<Rightarrow> None | Some n \<Rightarrow> scan_digits b n t)"
  by (induction b acc s rule: scan_digits.induct) (auto split: option.splits)

lemma scan_show_nat: "scan_digits 10 0 (show_nat n) = Some n"
proof (induction n rule: show_nat.induct)
  case (1 n)
  then show ?case
    by (subst show_nat.simps) (auto simp: scan_digits_append)
qed

lemma show_nat_nonempty [simp]: "show_nat n \<noteq> []"
  by (subst show_nat.simps) simp

lemma show_nat_chars: "c \<in> set (show_nat n) \<Longrightarrow> \<exists>d < 10. c = digit_char d"
proof (induction n rule: show_nat.induct)
  case (1 n)
  show ?case
  proof (cases "n < 10")
    case True
    with "1.prems" show ?thesis
      by (auto simp: show_nat.simps [of n])
  next
    case False
    with "1.prems" have "c \<in> set (show_nat (n div 10)) \<or> c = digit_char (n mod 10)"
      by (auto simp: show_nat.simps [of n])
    with False "1.IH" show ?thesis
      by (metis mod_less_divisor zero_less_numeral)
  qed
qed

lemma show_nat_head: "show_nat n = c # cs \<Longrightarrow> c \<noteq> CHR ''-'' \<and> c \<noteq> CHR ''+''"
  using show_nat_chars [of c n] by fastforce

lemma set_string_show_int: "set_string (show_int i) 10 = Some i"
proof (cases "i < 0")
  case True
  then show ?thesis
    by (simp add: set_string_def show_int_def scan_nat_def scan_show_nat)
next
  case False
  then obtain c cs where "show_nat (nat i) = c # cs" "c \<noteq> CHR ''-''" "c \<noteq> CHR ''+''"
    by (metis neq_Nil_conv show_nat_head show_nat_nonempty)
  with False scan_show_nat [of "nat i"] show ?thesis
    by (simp add: set_string_def show_int_def scan_nat_def)
qed

lemma show_int_not_hex: "take 2 (show_int i) \<noteq> ''0x''"
proof
  assume "take 2 (show_int i) = ''0x''"
  then have "CHR ''x'' \<in> set (show_int i)"
    by (metis in_set_takeD list.set_intros(1) list.set_intros(2))
  then obtain n where "CHR ''x'' \<in> set (show_nat n)"
    by (auto simp: show_int_def split: if_splits)
  then obtain d where "d < 10" "CHR ''x'' = digit_char d"
    using show_nat_chars by blast
  then show False
    using digit_char_not_sign(3) [of d] by simp
qed

lemma hex_decode_encode: "hex_decode (hex_encode bs) = Some bs"
proof (induction bs)
  case (Cons b bs)
  have "unat b < 2 ^ LENGTH(8)"
    by (rule unsigned_less)
  then have "unat b div 16 < 16"
    by simp
  with Cons show ?case
    by (simp add: hex_encode_def)
qed (simp add: hex_encode_def)

subsection \<open>Shard lists\<close>

lemma target_shards_loop_set:
  "set seen = set shards \<Longrightarrow>
   set (target_shards_loop seen shards rws) =
     set shards \<union> (\<lambda>rw. ShardNum (rw_ReferenceBlock rw)) ` set rws"
  by (induction seen shards rws rule: target_shards_loop.induct) (auto simp: Let_def)

lemma target_shards_loop_distinct:
  "set seen = set shards \<Longrightarrow> distinct shards \<Longrightarrow> distinct (target_shards_loop seen shards rws)"
  by (induction seen shards rws rule: target_shards_loop.induct) (auto simp: Let_def)

lemma set_TargetShards:
  "set (TargetShards tx) = (\<lambda>rw. ShardNum (rw_ReferenceBlock rw)) ` set (ct_RwSet tx)"
  by (simp add: TargetShards_def target_shards_loop_set)

lemma distinct_TargetShards: "distinct (TargetShards tx)"
  by (simp add: TargetShards_def target_shards_loop_distinct)

lemma set_InvolvedShards:
  "set (InvolvedShards tx) =
     insert (ct_FromShard tx) ((\<lambda>rw. ShardNum (rw_ReferenceBlock rw)) ` set (ct_RwSet tx))"
  by (auto simp: InvolvedShards_def Let_def set_TargetShards)

lemma distinct_InvolvedShards: "distinct (InvolvedShards tx)"
  by (auto simp: InvolvedShards_def Let_def distinct_TargetShards)

subsection \<open>Copies\<close>

lemma ReadSetItem_DeepCopy_id [simp]: "ReadSetItem_DeepCopy r = r"
  by (simp add: ReadSetItem_DeepCopy_def)

lemma WriteSetItem_DeepCopy_id [simp]: "WriteSetItem_DeepCopy w = w"
  by (simp add: WriteSetItem_DeepCopy_def)

lemma RwVariable_DeepCopy_id [simp]: "RwVariable_DeepCopy rw = rw"
  by (simp add: RwVariable_DeepCopy_def map_idI)

lemma map_RwVariable_DeepCopy [simp]: "map RwVariable_DeepCopy rws = rws"
  by (simp add: map_idI)

lemma ToBigInt_DeepCopy [simp]: "ToBigInt (BigInt_DeepCopy b) = ToBigInt b"
  by (simp add: ToBigInt_def BigInt_DeepCopy_def split: option.splits)

lemma ToBigInt_Some [simp]: "ToBigInt (Some (Some i)) = i"
  by (simp add: ToBigInt_def)

lemma ToBigInt_NewBigInt [simp]: "ToBigInt (NewBigInt (Some i)) = i"
  by (simp add: NewBigInt_def)

lemma Transaction_DeepCopy_eq:
  "Transaction_DeepCopy tx = tx\<lparr>tx_Value := BigInt_DeepCopy (tx_Value tx)\<rparr>"
  by (simp add: Transaction_DeepCopy_def)

lemma CrossShardTx_DeepCopy_eq:
  "CrossShardTx_DeepCopy tx = tx\<lparr>ct_Value := BigInt_DeepCopy (ct_Value tx)\<rparr>"
  by (simp add: CrossShardTx_DeepCopy_def)

subsection \<open>Properties\<close>

text \<open>C35. Amounts survive JSON: parsing the printed form of a \<open>BigInt\<close> gives back its value, for
  every integer, negative ones included; a nil value comes back as zero.\<close>

theorem BigInt_json_roundtrip:
  "BigInt_UnmarshalJSON (BigInt_MarshalJSON b) = Some (Some (ToBigInt (Some b)))"
proof (cases b)
  case None
  have "set_string ''0'' 10 = Some 0"
    by code_simp
  with None show ?thesis
    by (simp add: BigInt_UnmarshalJSON_def BigInt_MarshalJSON_def ToBigInt_def)
next
  case (Some i)
  then show ?thesis
    by (simp add: BigInt_UnmarshalJSON_def BigInt_MarshalJSON_def show_int_not_hex set_string_show_int)
qed

text \<open>Byte strings survive JSON: parsing the printed form of a \<open>HexBytes\<close> gives back its bytes.\<close>

lemma HexBytes_json_roundtrip:
  "HexBytes_UnmarshalJSON (HexBytes_MarshalJSON h) = Some h"
  using hex_decode_encode [of h]
  by (auto simp: HexBytes_UnmarshalJSON_def HexBytes_MarshalJSON_def)

text \<open>The voters of a transaction: \<open>InvolvedShards\<close> lists, without repetition, exactly the source
  shard and the shards its read-write set refers to.\<close>

lemma InvolvedShards_exact:
  "distinct (InvolvedShards tx) \<and> set (InvolvedShards tx) =
     insert (ct_FromShard tx) ((\<lambda>rw. ShardNum (rw_ReferenceBlock rw)) ` set (ct_RwSet tx))"
  by (simp add: distinct_InvolvedShards set_InvolvedShards)

end
