(* ===== verification/VM_Interface.thy ===== *)
theory VM_Interface
  imports Protocol_Types
begin

text \<open>
  The boundary to go-ethereum. The sources call its state database and its EVM; neither is part of
  the repository, so both are parameters.

  \<^item> \<open>vmcall\<close> lists the methods of \<open>vm.StateDB\<close> with their arguments (the reason codes used for
    tracing are left out), \<open>vmres\<close> their results. An implementation is a function on its own state
    type: geth's \<open>state.StateDB\<close> stays abstract, the \<open>TrackingStateDB\<close> of the shard is defined
    from the source in its own theory.
  \<^item> A run of the EVM is a tree (\<open>evm_prog\<close>): it ends, or it calls the state database or one of the
    two functions of the block context that the sources supply, and goes on with the result. So the
    same EVM run can be executed on every implementation (\<open>run_evm\<close>).
  \<^item> The locale \<open>state_db\<close> states what the sources rely on: balances, storage, and snapshots.
    \<open>geth\<close> bundles the remaining functions, and \<open>geth_state\<close> what is relied on there.
  \<^item> \<open>mem_call\<close> is a small in-memory database; it shows that the laws are satisfiable.
\<close>

datatype vmcall =
    CreateAccount address
  | CreateContract address
  | SubBalance address u256
  | AddBalance address u256
  | GetBalance address
  | GetNonce address
  | SetNonce address u64
  | GetCodeHash address
  | GetCode address
  | SetCode address "byte list"
  | GetCodeSize address
  | AddRefund u64
  | SubRefund u64
  | GetRefund
  | GetCommittedState address hash
  | GetState address hash
  | GetStateAndCommittedState address hash
  | SetState address hash hash
  | GetStorageRoot address
  | GetTransientState address hash
  | SetTransientState address hash hash
  | SelfDestruct address
  | HasSelfDestructed address
  | SelfDestruct6780 address
  | Exist address
  | Empty address
  | AddressInAccessList address
  | SlotInAccessList address hash
  | AddAddressToAccessList address
  | AddSlotToAccessList address hash
  | Prepare address address "address option" "address list" "(address \<times> hash list) list"
  | RevertToSnapshot int
  | Snapshot
  | AddLog "byte list"
  | AddPreimage hash "byte list"
  | Finalise bool

datatype vmres =
    RUnit
  | RBool bool
  | RBools bool bool
  | RU256 u256
  | RU256Bool u256 bool
  | RU64 u64
  | RInt int
  | RHash hash
  | RHashes hash hash
  | RBytes "byte list"

type_synonym 's vmdb = "vmcall \<Rightarrow> 's \<Rightarrow> vmres \<times> 's"

text \<open>The result of a method at its static type.\<close>

fun as_u256 :: "vmres \<Rightarrow> u256" where "as_u256 (RU256 v) = v" | "as_u256 _ = 0"
fun as_u64 :: "vmres \<Rightarrow> u64" where "as_u64 (RU64 v) = v" | "as_u64 _ = 0"
fun as_hash :: "vmres \<Rightarrow> hash" where "as_hash (RHash v) = v" | "as_hash _ = 0"
fun as_bytes :: "vmres \<Rightarrow> byte list" where "as_bytes (RBytes v) = v" | "as_bytes _ = []"
fun as_int :: "vmres \<Rightarrow> int" where "as_int (RInt v) = v" | "as_int _ = 0"

subsection \<open>The EVM\<close>

datatype evm_op =
    DB vmcall
  | CanTransfer address u256
  | Transfer address address u256

record evm_result =
  er_ret :: "byte list"
  er_addr :: address
  er_gasLeft :: u64
  er_err :: "string option"

datatype evm_prog = Done evm_result | Op evm_op "vmres \<Rightarrow> evm_prog"

text \<open>The two functions the sources put in the block context (\<open>newEVM\<close> in \<open>evm.go\<close>).\<close>

definition can_transfer :: "'s vmdb \<Rightarrow> address \<Rightarrow> u256 \<Rightarrow> 's \<Rightarrow> bool \<times> 's" where
  "can_transfer D addr amount s =
     (case D (GetBalance addr) s of (r, s1) \<Rightarrow> (amount \<le> as_u256 r, s1))"

definition transfer :: "'s vmdb \<Rightarrow> address \<Rightarrow> address \<Rightarrow> u256 \<Rightarrow> 's \<Rightarrow> 's" where
  "transfer D from to amount s =
     (let s1 = snd (D (SubBalance from amount) s) in snd (D (AddBalance to amount) s1))"

fun evm_op_run :: "'s vmdb \<Rightarrow> evm_op \<Rightarrow> 's \<Rightarrow> vmres \<times> 's" where
  "evm_op_run D (DB c) s = D c s"
| "evm_op_run D (CanTransfer addr amount) s = (case can_transfer D addr amount s of (b, s1) \<Rightarrow> (RBool b, s1))"
| "evm_op_run D (Transfer from to amount) s = (RUnit, transfer D from to amount s)"

primrec run_evm :: "evm_prog \<Rightarrow> 's vmdb \<Rightarrow> 's \<Rightarrow> evm_result \<times> 's" where
  "run_evm (Done r) D s = (r, s)"
| "run_evm (Op c k) D s = run_evm (k (fst (evm_op_run D c s))) D (snd (evm_op_run D c s))"

text \<open>
  The EVM reverts only to live snapshots it has taken itself, and does not end the transaction:
  \<open>own_snapshots\<close> are the live ones after an operation with a given result.
\<close>

definition own_snapshots :: "evm_op \<Rightarrow> vmres \<Rightarrow> int set \<Rightarrow> int set" where
  "own_snapshots c r S = (case c of
     DB Snapshot \<Rightarrow> insert (as_int r) S
   | DB (RevertToSnapshot n) \<Rightarrow> {m \<in> S. m < n}
   | _ \<Rightarrow> S)"

primrec bracketed :: "evm_prog \<Rightarrow> int set \<Rightarrow> bool" where
  "bracketed (Done r) S = True"
| "bracketed (Op c k) S \<longleftrightarrow> (\<forall>n. c = DB (RevertToSnapshot n) \<longrightarrow> n \<in> S) \<and> (\<forall>b. c \<noteq> DB (Finalise b))
     \<and> (\<forall>r. bracketed (k r) (own_snapshots c r S))"

subsection \<open>The laws of a state database\<close>

record ledger =
  bal :: "address \<Rightarrow> u256"
  sto :: "address \<Rightarrow> hash \<Rightarrow> hash"

definition reads_only :: "vmcall \<Rightarrow> bool" where
  "reads_only c = (case c of
     GetBalance _ \<Rightarrow> True | GetNonce _ \<Rightarrow> True | GetCodeHash _ \<Rightarrow> True | GetCode _ \<Rightarrow> True
   | GetCodeSize _ \<Rightarrow> True | GetRefund \<Rightarrow> True | GetCommittedState _ _ \<Rightarrow> True | GetState _ _ \<Rightarrow> True
   | GetStateAndCommittedState _ _ \<Rightarrow> True | GetStorageRoot _ \<Rightarrow> True | GetTransientState _ _ \<Rightarrow> True
   | HasSelfDestructed _ \<Rightarrow> True | Exist _ \<Rightarrow> True | Empty _ \<Rightarrow> True | AddressInAccessList _ \<Rightarrow> True
   | SlotInAccessList _ _ \<Rightarrow> True | Snapshot \<Rightarrow> True | _ \<Rightarrow> False)"

definition is_snapshot_call :: "vmcall \<Rightarrow> bool" where
  "is_snapshot_call c = (case c of Snapshot \<Rightarrow> True | RevertToSnapshot _ \<Rightarrow> True | Finalise _ \<Rightarrow> True | _ \<Rightarrow> False)"

definition storage_call :: "vmcall \<Rightarrow> bool" where
  "storage_call c = (case c of SetState _ _ _ \<Rightarrow> True | RevertToSnapshot _ \<Rightarrow> True | Finalise _ \<Rightarrow> True | _ \<Rightarrow> False)"

text \<open>
  \<open>view\<close> is what a database holds, \<open>saved\<close> what its live snapshots would restore. Getters may
  change the state (caches) but not the view. Reverting to a snapshot discards it and all later
  ones; snapshot numbers grow.
\<close>

locale state_db =
  fixes D :: "'s vmdb"
    and ok :: "'s \<Rightarrow> bool"
    and view :: "'s \<Rightarrow> ledger"
    and saved :: "'s \<Rightarrow> int \<Rightarrow> ledger option"
  assumes ok_call: "ok s \<Longrightarrow> (\<And>n. c = RevertToSnapshot n \<Longrightarrow> saved s n \<noteq> None) \<Longrightarrow> ok (snd (D c s))"
    and saved_call: "ok s \<Longrightarrow> \<not> is_snapshot_call c \<Longrightarrow> saved (snd (D c s)) = saved s"
    and read_call: "ok s \<Longrightarrow> reads_only c \<Longrightarrow> view (snd (D c s)) = view s"
    and other_call: "ok s \<Longrightarrow> \<not> storage_call c \<Longrightarrow> sto (view (snd (D c s))) = sto (view s)"
    and get_balance: "ok s \<Longrightarrow> fst (D (GetBalance a) s) = RU256 (bal (view s) a)"
    and get_state: "ok s \<Longrightarrow> fst (D (GetState a k) s) = RHash (sto (view s) a k)"
    and add_balance: "ok s \<Longrightarrow> view (snd (D (AddBalance a v) s)) = (view s)\<lparr>bal := (bal (view s))(a := bal (view s) a + v)\<rparr>"
    and sub_balance: "ok s \<Longrightarrow> view (snd (D (SubBalance a v) s)) = (view s)\<lparr>bal := (bal (view s))(a := bal (view s) a - v)\<rparr>"
    and set_state: "ok s \<Longrightarrow> view (snd (D (SetState a k h) s)) =
          (view s)\<lparr>sto := (sto (view s))(a := (sto (view s) a)(k := h))\<rparr>"
    and snapshot: "ok s \<Longrightarrow> saved (snd (D Snapshot s)) = (saved s)(as_int (fst (D Snapshot s)) \<mapsto> view s)
          \<and> (\<forall>m \<in> dom (saved s). m < as_int (fst (D Snapshot s)))"
    and revert: "ok s \<Longrightarrow> saved s n = Some w \<Longrightarrow> view (snd (D (RevertToSnapshot n) s)) = w
          \<and> saved (snd (D (RevertToSnapshot n) s)) = saved s |` {m. m < n}"
begin

lemma can_transfer_law:
  "ok s \<Longrightarrow> can_transfer D a v s = (b, s1) \<Longrightarrow>
     b = (v \<le> bal (view s) a) \<and> ok s1 \<and> view s1 = view s \<and> saved s1 = saved s"
  using ok_call [of s "GetBalance a"] read_call [of s "GetBalance a"] saved_call [of s "GetBalance a"] get_balance [of s a]
  by (auto simp: can_transfer_def reads_only_def is_snapshot_call_def split: prod.splits)

lemma transfer_law:
  assumes "ok s"
  shows "ok (transfer D a b v s) \<and> saved (transfer D a b v s) = saved s
    \<and> view (transfer D a b v s) =
       (view s)\<lparr>bal := (let m = (bal (view s))(a := bal (view s) a - v) in m(b := m b + v))\<rparr>"
proof -
  let ?s1 = "snd (D (SubBalance a v) s)"
  have s1: "ok ?s1" "saved ?s1 = saved s" "view ?s1 = (view s)\<lparr>bal := (bal (view s))(a := bal (view s) a - v)\<rparr>"
    using assms ok_call [of s "SubBalance a v"] saved_call [of s "SubBalance a v"]
    by (simp_all add: sub_balance is_snapshot_call_def)
  moreover have "ok (snd (D (AddBalance b v) ?s1))" "saved (snd (D (AddBalance b v) ?s1)) = saved ?s1"
    using s1(1) ok_call [of ?s1 "AddBalance b v"] saved_call [of ?s1 "AddBalance b v"]
    by (simp_all add: is_snapshot_call_def)
  ultimately show ?thesis
    by (simp add: transfer_def add_balance Let_def)
qed

text \<open>A run of the EVM keeps the snapshots that were live before it.\<close>

lemma op_keeps_snapshots:
  assumes "ok s" and "n0 \<in> dom (saved s)" and "S \<subseteq> dom (saved s)" and "\<forall>m \<in> S. n0 < m"
    and "\<forall>n. c = DB (RevertToSnapshot n) \<longrightarrow> n \<in> S" and "\<forall>b. c \<noteq> DB (Finalise b)"
    and "evm_op_run D c s = (r, s1)"
  shows "ok s1 \<and> own_snapshots c r S \<subseteq> dom (saved s1) \<and> (\<forall>m \<in> own_snapshots c r S. n0 < m)
    \<and> (\<forall>m \<le> n0. saved s1 m = saved s m)"
proof (cases c)
  case (DB d)
  have ok: "ok s1"
    using ok_call [OF assms(1), of d] assms(3,5,7) DB by auto
  show ?thesis
  proof (cases "is_snapshot_call d")
    case False
    then have "own_snapshots c r S = S" "saved s1 = saved s"
      using saved_call [OF assms(1) False] assms(7) DB
      by (auto simp: own_snapshots_def is_snapshot_call_def split: vmcall.splits)
    with assms ok show ?thesis by simp
  next
    case True
    then consider "d = Snapshot" | n where "d = RevertToSnapshot n"
      using assms(6) DB by (auto simp: is_snapshot_call_def split: vmcall.splits)
    then show ?thesis
    proof cases
      case 1
      have "saved s1 = (saved s)(as_int r \<mapsto> view s)" "n0 < as_int r"
        using snapshot [OF assms(1)] assms(2,7) DB 1 by auto
      with assms(3,4) ok DB 1 show ?thesis
        by (auto simp: own_snapshots_def)
    next
      case 2
      have n: "n \<in> S"
        using assms(5) DB 2 by simp
      then obtain w where w: "saved s n = Some w" and "n0 < n"
        using assms(3,4) by auto
      have "saved s1 = saved s |` {m. m < n}"
        using revert [OF assms(1) w] assms(7) DB 2 by auto
      with \<open>n0 < n\<close> assms(3,4) ok DB 2 show ?thesis
        by (auto simp: own_snapshots_def)
    qed
  qed
next
  case (CanTransfer a v)
  then show ?thesis
    using assms can_transfer_law [OF assms(1), of a v] by (auto simp: own_snapshots_def split: prod.splits)
next
  case (Transfer a b v)
  then show ?thesis
    using assms transfer_law [OF assms(1), of a b v] by (auto simp: own_snapshots_def)
qed

lemma run_keeps_snapshots:
  "ok s \<Longrightarrow> n0 \<in> dom (saved s) \<Longrightarrow> S \<subseteq> dom (saved s) \<Longrightarrow> \<forall>m \<in> S. n0 < m \<Longrightarrow> bracketed p S \<Longrightarrow>
     run_evm p D s = (r, s') \<Longrightarrow> ok s' \<and> (\<forall>m \<le> n0. saved s' m = saved s m)"
proof (induction p arbitrary: s S)
  case (Op c k)
  obtain r1 s1 where step: "evm_op_run D c s = (r1, s1)"
    by fastforce
  have s1: "ok s1" "own_snapshots c r1 S \<subseteq> dom (saved s1)" "\<forall>m \<in> own_snapshots c r1 S. n0 < m"
    "\<forall>m \<le> n0. saved s1 m = saved s m"
    using op_keeps_snapshots [OF Op.prems(1-4) _ _ step] Op.prems(5) by simp_all
  have "ok s' \<and> (\<forall>m \<le> n0. saved s' m = saved s1 m)"
  proof (rule Op.IH [OF _ s1(1) _ s1(2,3)])
    show "n0 \<in> dom (saved s1)"
      using s1(4) Op.prems(2) by auto
    show "bracketed (k r1) (own_snapshots c r1 S)"
      using Op.prems(5) by simp
    show "run_evm (k r1) D s1 = (r, s')"
      using Op.prems(6) step by simp
  qed simp
  with s1(4) show ?case by simp
qed simp

end

subsection \<open>The rest of go-ethereum\<close>

record evm_ctx =
  cx_Origin :: address
  cx_BlockNumber :: u64
  cx_Time :: u64
  cx_GasLimit :: u64

text \<open>
  Functions of go-ethereum and of \<open>holiman/uint256\<close>. \<open>g_New\<close> opens the database of a state at a
  root. \<open>g_MustFromBig\<close> panics (\<open>None\<close>) on numbers that do not fit 256 bits.
\<close>

record 's geth =
  g_db :: "'s vmdb"
  g_Commit :: "u64 \<Rightarrow> 's \<Rightarrow> (string + hash) \<times> 's"
  g_New :: "hash \<Rightarrow> 's \<Rightarrow> string + 's"
  g_IntermediateRoot :: "'s \<Rightarrow> hash \<times> 's"
  g_Logs :: "'s \<Rightarrow> byte list list"
  g_Call :: "evm_ctx \<Rightarrow> address \<Rightarrow> address \<Rightarrow> byte list \<Rightarrow> u64 \<Rightarrow> u256 \<Rightarrow> evm_prog"
  g_Create :: "evm_ctx \<Rightarrow> address \<Rightarrow> byte list \<Rightarrow> u64 \<Rightarrow> u256 \<Rightarrow> evm_prog"
  g_StaticCall :: "evm_ctx \<Rightarrow> address \<Rightarrow> address \<Rightarrow> byte list \<Rightarrow> u64 \<Rightarrow> evm_prog"
  g_MustFromBig :: "int \<Rightarrow> u256 option"
  g_BytesToHash :: "byte list \<Rightarrow> hash"
  g_HashBytes :: "hash \<Rightarrow> byte list"

locale geth_state = state_db "g_db G" ok view saved
  for G :: "'s geth" and ok :: "'s \<Rightarrow> bool" and view :: "'s \<Rightarrow> ledger" and saved :: "'s \<Rightarrow> int \<Rightarrow> ledger option" +
  assumes commit_new: "ok s \<Longrightarrow> g_Commit G n s = (Inr root, s1) \<Longrightarrow> g_New G root s1 = Inr s2 \<Longrightarrow> ok s2 \<and> view s2 = view s"
    and call_bracketed: "bracketed (g_Call G cx a b input gas v) {}"
    and create_bracketed: "bracketed (g_Create G cx a code gas v) {}"
    and from_big: "0 \<le> i \<Longrightarrow> i < 2 ^ 256 \<Longrightarrow> g_MustFromBig G i = Some (word_of_int i)"
    and from_big_overflow: "2 ^ 256 \<le> i \<Longrightarrow> g_MustFromBig G i = None"
    and bytes_hash: "g_BytesToHash G (g_HashBytes G x) = x"

subsection \<open>An in-memory database\<close>

record mem =
  m_bal :: "(address, u256) gomap"
  m_sto :: "(address \<times> hash, hash) gomap"
  m_snaps :: "((address, u256) gomap \<times> (address \<times> hash, hash) gomap) list"

fun mem_call :: "mem vmdb" where
  "mem_call (GetBalance a) m = (RU256 (mgetd 0 (m_bal m) a), m)"
| "mem_call (AddBalance a v) m = (RU256 (mgetd 0 (m_bal m) a), m\<lparr>m_bal := mput a (mgetd 0 (m_bal m) a + v) (m_bal m)\<rparr>)"
| "mem_call (SubBalance a v) m = (RU256 (mgetd 0 (m_bal m) a), m\<lparr>m_bal := mput a (mgetd 0 (m_bal m) a - v) (m_bal m)\<rparr>)"
| "mem_call (GetState a k) m = (RHash (mgetd 0 (m_sto m) (a, k)), m)"
| "mem_call (SetState a k v) m = (RHash (mgetd 0 (m_sto m) (a, k)), m\<lparr>m_sto := mput (a, k) v (m_sto m)\<rparr>)"
| "mem_call Snapshot m = (RInt (int (length (m_snaps m))), m\<lparr>m_snaps := m_snaps m @ [(m_bal m, m_sto m)]\<rparr>)"
| "mem_call (RevertToSnapshot n) m =
     (if 0 \<le> n \<and> nat n < length (m_snaps m)
      then (RUnit, \<lparr>m_bal = fst (m_snaps m ! nat n), m_sto = snd (m_snaps m ! nat n), m_snaps = take (nat n) (m_snaps m)\<rparr>)
      else (RUnit, m))"
| "mem_call _ m = (RUnit, m)"

definition mem_view :: "mem \<Rightarrow> ledger" where
  "mem_view m = \<lparr>bal = mgetd 0 (m_bal m), sto = (\<lambda>a k. mgetd 0 (m_sto m) (a, k))\<rparr>"

definition mem_saved :: "mem \<Rightarrow> int \<Rightarrow> ledger option" where
  "mem_saved m n = (if 0 \<le> n \<and> nat n < length (m_snaps m)
     then Some (mem_view \<lparr>m_bal = fst (m_snaps m ! nat n), m_sto = snd (m_snaps m ! nat n), m_snaps = []\<rparr>)
     else None)"

lemma mem_saved_cong: "m_snaps m' = m_snaps m \<Longrightarrow> mem_saved m' = mem_saved m"
  by (rule ext) (simp add: mem_saved_def)

interpretation mem: state_db mem_call "\<lambda>_. True" mem_view mem_saved
proof
  show "mem_saved (snd (mem_call c s)) = mem_saved s" if "\<not> is_snapshot_call c" for c s
    using that by (intro mem_saved_cong) (cases c; simp add: is_snapshot_call_def)
  show "mem_view (snd (mem_call c s)) = mem_view s" if "reads_only c" for c s
    using that by (cases c) (simp_all add: reads_only_def mem_view_def)
  show "sto (mem_view (snd (mem_call c s))) = sto (mem_view s)" if "\<not> storage_call c" for c s
    using that by (cases c) (simp_all add: storage_call_def mem_view_def)
  show "mem_saved (snd (mem_call Snapshot s)) = (mem_saved s)(as_int (fst (mem_call Snapshot s)) \<mapsto> mem_view s)
      \<and> (\<forall>m \<in> dom (mem_saved s). m < as_int (fst (mem_call Snapshot s)))" for s
    by (auto simp: fun_eq_iff mem_saved_def nth_append mem_view_def split: if_splits)
  show "mem_view (snd (mem_call (RevertToSnapshot n) s)) = w
      \<and> mem_saved (snd (mem_call (RevertToSnapshot n) s)) = mem_saved s |` {m. m < n}"
    if "mem_saved s n = Some w" for s n w
    using that by (auto simp: fun_eq_iff mem_saved_def restrict_map_def mem_view_def split: if_splits)
qed (auto simp: mem_view_def fun_eq_iff gomap_simps)

text \<open>A complete instance on it, with a contract call that stores the length of its input in slot 0.\<close>

fun nat_bytes :: "nat \<Rightarrow> byte list" where
  "nat_bytes n = (if n = 0 then [] else nat_bytes (n div 256) @ [of_nat (n mod 256)])"

declare nat_bytes.simps [simp del]

definition bytes_nat :: "byte list \<Rightarrow> nat" where
  "bytes_nat bs = fold (\<lambda>b n. n * 256 + unat b) bs 0"

lemma bytes_nat_bytes: "bytes_nat (nat_bytes n) = n"
proof (induction n rule: nat_bytes.induct)
  case (1 n)
  show ?case
  proof (cases "n = 0")
    case False
    have "unat (of_nat (n mod 256) :: byte) = n mod 256"
      by (simp add: unsigned_of_nat take_bit_eq_mod)
    with False 1 show ?thesis
      by (subst nat_bytes.simps) (simp add: bytes_nat_def)
  qed (simp add: nat_bytes.simps bytes_nat_def)
qed

definition mem_contract :: "evm_ctx \<Rightarrow> address \<Rightarrow> address \<Rightarrow> byte list \<Rightarrow> u64 \<Rightarrow> u256 \<Rightarrow> evm_prog" where
  "mem_contract cx a b input gas v =
     Op (CanTransfer a v) (\<lambda>r. if r = RBool True
       then Op (Transfer a b v) (\<lambda>_. Op (DB (GetState b 0)) (\<lambda>_.
         Op (DB (SetState b 0 (of_nat (length input)))) (\<lambda>_. Done \<lparr>er_ret = [], er_addr = b, er_gasLeft = gas, er_err = None\<rparr>)))
       else Done \<lparr>er_ret = [], er_addr = 0, er_gasLeft = 0, er_err = Some ''insufficient balance for transfer''\<rparr>)"

definition mem_geth :: "mem geth" where
  "mem_geth = \<lparr>g_db = mem_call,
     g_Commit = (\<lambda>n m. (Inr 0, m)), g_New = (\<lambda>root m. Inr (m\<lparr>m_snaps := []\<rparr>)),
     g_IntermediateRoot = (\<lambda>m. (0, m)), g_Logs = (\<lambda>m. []),
     g_Call = mem_contract,
     g_Create = (\<lambda>cx a code gas v. Done \<lparr>er_ret = code, er_addr = a + 1, er_gasLeft = gas, er_err = None\<rparr>),
     g_StaticCall = (\<lambda>cx a b input gas. Done \<lparr>er_ret = [], er_addr = b, er_gasLeft = gas, er_err = None\<rparr>),
     g_MustFromBig = (\<lambda>i. if i < 2 ^ 256 then Some (word_of_int i) else None),
     g_BytesToHash = (\<lambda>bs. of_nat (bytes_nat bs)), g_HashBytes = (\<lambda>h. nat_bytes (unat h))\<rparr>"

interpretation mg: geth_state mem_geth "\<lambda>_. True" mem_view mem_saved
proof (intro geth_state.intro geth_state_axioms.intro)
  show "state_db (g_db mem_geth) (\<lambda>_. True) mem_view mem_saved"
    using mem.state_db_axioms by (simp add: mem_geth_def)
qed (auto simp: mem_geth_def mem_view_def bytes_nat_bytes mem_contract_def own_snapshots_def)

end
