(* ===== verification/Tracking_StateDB.thy ===== *)
theory Tracking_StateDB
  imports VM_Interface
begin

text \<open>
  The tracking wrapper around geth's state database (\<open>internal/shard/tracking_statedb.go\<close>): it
  forwards every method, notes the addresses accessed, the first value seen of every storage slot
  and the last value written to it, and turns them into a read-write set.

  The wrapper satisfies the laws of a state database if the wrapped one does (\<open>tracked_db\<close> is a
  sublocale of \<open>state_db\<close>), and for every EVM run the recorded reads are the values the slots had
  when tracking began.
\<close>

type_synonym slot_values = "(address, (hash, hash) gomap) gomap"

record 's TrackingStateDB =
  td_inner :: 's
  td_accessedAddrs :: "(address, bool) gomap"
  td_storageReads :: slot_values
  td_storageWrites :: slot_values
  td_numShards :: int
  td_localShardID :: int

definition NewTrackingStateDB :: "'s \<Rightarrow> int \<Rightarrow> int \<Rightarrow> 's TrackingStateDB" where
  "NewTrackingStateDB inner localShardID numShards =
     \<lparr>td_inner = inner, td_accessedAddrs = [], td_storageReads = [], td_storageWrites = [],
      td_numShards = numShards, td_localShardID = localShardID\<rparr>"

definition recordAccess :: "address \<Rightarrow> 's TrackingStateDB \<Rightarrow> 's TrackingStateDB" where
  "recordAccess addr t = t\<lparr>td_accessedAddrs := mput addr True (td_accessedAddrs t)\<rparr>"

definition GetAccessedAddresses :: "'s TrackingStateDB \<Rightarrow> address list" where
  "GetAccessedAddresses t = mkeys (td_accessedAddrs t)"

text \<open>\<open>int(addr[len(addr)-1]) % n\<close>: a division by zero panics; the sign of \<open>n\<close> does not matter.\<close>

definition addr_shard :: "int \<Rightarrow> address \<Rightarrow> int option" where
  "addr_shard n addr = (if n = 0 then None else Some (int (last_byte addr) mod \<bar>n\<bar>))"

fun cross_shard_loop :: "int \<Rightarrow> int \<Rightarrow> address list \<Rightarrow> bool option" where
  "cross_shard_loop n me [] = Some False"
| "cross_shard_loop n me (addr # addrs) =
     (case addr_shard n addr of
        None \<Rightarrow> None
      | Some shardID \<Rightarrow> if shardID \<noteq> me then Some True else cross_shard_loop n me addrs)"

definition HasCrossShardAccess :: "'s TrackingStateDB \<Rightarrow> bool option" where
  "HasCrossShardAccess t = cross_shard_loop (td_numShards t) (td_localShardID t) (mkeys (td_accessedAddrs t))"

fun cross_shard_addrs :: "int \<Rightarrow> int \<Rightarrow> address list \<Rightarrow> (address, int) gomap \<Rightarrow> (address, int) gomap option" where
  "cross_shard_addrs n me [] result = Some result"
| "cross_shard_addrs n me (addr # addrs) result =
     (case addr_shard n addr of
        None \<Rightarrow> None
      | Some shardID \<Rightarrow> cross_shard_addrs n me addrs (if shardID \<noteq> me then mput addr shardID result else result))"

definition GetCrossShardAddresses :: "'s TrackingStateDB \<Rightarrow> (address, int) gomap option" where
  "GetCrossShardAddresses t =
     cross_shard_addrs (td_numShards t) (td_localShardID t) (mkeys (td_accessedAddrs t)) []"

text \<open>Noting the first value seen of a slot, as three methods do.\<close>

definition note_read :: "address \<Rightarrow> hash \<Rightarrow> hash \<Rightarrow> slot_values \<Rightarrow> slot_values" where
  "note_read addr slot value reads =
     (let r1 = (if mget reads addr = None then mput addr [] reads else reads);
          slots = mgetd [] r1 addr
      in if mget slots slot = None then mput addr (mput slot value slots) r1 else r1)"

definition tracking_GetState :: "'s vmdb \<Rightarrow> address \<Rightarrow> hash \<Rightarrow> 's TrackingStateDB \<Rightarrow> vmres \<times> 's TrackingStateDB" where
  "tracking_GetState D addr slot t0 =
     (let t = recordAccess addr t0;
          (r, inner) = D (GetState addr slot) (td_inner t);
          value = as_hash r
      in (RHash value, t\<lparr>td_inner := inner, td_storageReads := note_read addr slot value (td_storageReads t)\<rparr>))"

definition tracking_GetStateAndCommittedState :: "'s vmdb \<Rightarrow> address \<Rightarrow> hash \<Rightarrow> 's TrackingStateDB \<Rightarrow> vmres \<times> 's TrackingStateDB" where
  "tracking_GetStateAndCommittedState D addr slot t0 =
     (let t = recordAccess addr t0;
          (r, inner) = D (GetState addr slot) (td_inner t);
          (rc, inner2) = D (GetCommittedState addr slot) inner;
          value = as_hash r
      in (RHashes value (as_hash rc),
          t\<lparr>td_inner := inner2, td_storageReads := note_read addr slot value (td_storageReads t)\<rparr>))"

definition note_write :: "address \<Rightarrow> hash \<Rightarrow> hash \<Rightarrow> slot_values \<Rightarrow> slot_values" where
  "note_write addr slot value writes =
     (let w1 = (if mget writes addr = None then mput addr [] writes else writes)
      in mput addr (mput slot value (mgetd [] w1 addr)) w1)"

text \<open>The inner database is asked for the old value only when the slot has not been seen.\<close>

definition tracking_SetState :: "'s vmdb \<Rightarrow> address \<Rightarrow> hash \<Rightarrow> hash \<Rightarrow> 's TrackingStateDB \<Rightarrow> vmres \<times> 's TrackingStateDB" where
  "tracking_SetState D addr key value t0 =
     (let t = recordAccess addr t0;
          seen = mget (mgetd [] (td_storageReads t) addr) key \<noteq> None;
          (r, inner) = (if seen then (RHash 0, td_inner t) else D (GetState addr key) (td_inner t));
          t1 = t\<lparr>td_inner := inner,
                 td_storageReads := (if seen then td_storageReads t else note_read addr key (as_hash r) (td_storageReads t)),
                 td_storageWrites := note_write addr key value (td_storageWrites t)\<rparr>;
          (r2, inner2) = D (SetState addr key value) (td_inner t1)
      in (r2, t1\<lparr>td_inner := inner2\<rparr>))"

text \<open>The address a forwarded method notes as accessed.\<close>

fun accessed_addr :: "vmcall \<Rightarrow> address option" where
  "accessed_addr (CreateAccount a) = Some a"
| "accessed_addr (CreateContract a) = Some a"
| "accessed_addr (SubBalance a _) = Some a"
| "accessed_addr (AddBalance a _) = Some a"
| "accessed_addr (GetBalance a) = Some a"
| "accessed_addr (GetNonce a) = Some a"
| "accessed_addr (SetNonce a _) = Some a"
| "accessed_addr (GetCodeHash a) = Some a"
| "accessed_addr (GetCode a) = Some a"
| "accessed_addr (SetCode a _) = Some a"
| "accessed_addr (GetCodeSize a) = Some a"
| "accessed_addr (GetCommittedState a _) = Some a"
| "accessed_addr (GetStorageRoot a) = Some a"
| "accessed_addr (GetTransientState a _) = Some a"
| "accessed_addr (SetTransientState a _ _) = Some a"
| "accessed_addr (SelfDestruct a) = Some a"
| "accessed_addr (HasSelfDestructed a) = Some a"
| "accessed_addr (SelfDestruct6780 a) = Some a"
| "accessed_addr (Exist a) = Some a"
| "accessed_addr (Empty a) = Some a"
| "accessed_addr _ = None"

definition forward :: "'s vmdb \<Rightarrow> vmcall \<Rightarrow> 's TrackingStateDB \<Rightarrow> vmres \<times> 's TrackingStateDB" where
  "forward D c t0 =
     (let t = (case accessed_addr c of None \<Rightarrow> t0 | Some addr \<Rightarrow> recordAccess addr t0);
          (r, inner) = D c (td_inner t)
      in (r, t\<lparr>td_inner := inner\<rparr>))"

definition tracking_call :: "'s vmdb \<Rightarrow> 's TrackingStateDB vmdb" where
  "tracking_call D c t =
     (case c of
        GetState addr slot \<Rightarrow> tracking_GetState D addr slot t
      | GetStateAndCommittedState addr slot \<Rightarrow> tracking_GetStateAndCommittedState D addr slot t
      | SetState addr key value \<Rightarrow> tracking_SetState D addr key value t
      | _ \<Rightarrow> forward D c t)"

definition GetStorageWrites :: "'s TrackingStateDB \<Rightarrow> slot_values" where
  "GetStorageWrites t = td_storageWrites t"

definition GetStorageWritesForAddress :: "'s TrackingStateDB \<Rightarrow> address \<Rightarrow> (hash, hash) gomap" where
  "GetStorageWritesForAddress t addr = mgetd [] (td_storageWrites t) addr"

definition GetStorageReads :: "'s TrackingStateDB \<Rightarrow> slot_values" where
  "GetStorageReads t = td_storageReads t"

definition tracking_addrs :: "'s TrackingStateDB \<Rightarrow> address list" where
  "tracking_addrs t = mkeys (fold (\<lambda>addr m. mput addr True m)
     (mkeys (td_storageReads t) @ mkeys (td_storageWrites t)) ([] :: (address, bool) gomap))"

definition tracking_BuildRwSet :: "(hash \<Rightarrow> byte list) \<Rightarrow> 's TrackingStateDB \<Rightarrow> Reference \<Rightarrow> RwVariable list" where
  "tracking_BuildRwSet hashBytes t refBlock =
     map (\<lambda>addr.
       \<lparr>rw_Address = addr, rw_ReferenceBlock = refBlock,
        rw_ReadSet = map (\<lambda>(slot, value). \<lparr>rs_Slot = slot, rs_Value = hashBytes value, rs_Proof = []\<rparr>)
          (mgetd [] (td_storageReads t) addr),
        rw_WriteSet = map (\<lambda>(slot, newValue).
            \<lparr>ws_Slot = slot, ws_OldValue = hashBytes (mgetd 0 (mgetd [] (td_storageReads t) addr) slot),
             ws_NewValue = hashBytes newValue\<rparr>)
          (mgetd [] (td_storageWrites t) addr)\<rparr>)
     (tracking_addrs t)"

subsection \<open>The wrapper as a state database\<close>

definition first_seen :: "slot_values \<Rightarrow> address \<Rightarrow> hash \<Rightarrow> hash option" where
  "first_seen m addr slot = mget (mgetd [] m addr) slot"

lemma first_seen_note_read:
  "first_seen (note_read a k v m) = (if first_seen m a k = None then (first_seen m)(a := (first_seen m a)(k \<mapsto> v)) else first_seen m)"
  by (auto simp: first_seen_def note_read_def Let_def gomap_simps fun_eq_iff mgetd_def split: option.splits)

lemma note_read_seen: "first_seen m a k \<noteq> None \<Longrightarrow> note_read a k v m = m"
  by (auto simp: first_seen_def note_read_def Let_def mgetd_def split: option.splits)

lemma wfmap_note_read: "(\<And>a. wfmap (mgetd [] m a)) \<Longrightarrow> wfmap (mgetd [] (note_read a k v m) b)"
  by (auto simp: note_read_def Let_def mgetd_mput)

lemma first_seen_note_write:
  "first_seen (note_write a k v m) = (first_seen m)(a := (first_seen m a)(k \<mapsto> v))"
  by (auto simp: first_seen_def note_write_def Let_def gomap_simps fun_eq_iff mgetd_def split: option.splits)

text \<open>What a call does to the wrapped database and to the recorded reads.\<close>

lemma tracking_forward:
  assumes "\<nexists>a k. c = GetState a k \<or> c = GetStateAndCommittedState a k" and "\<nexists>a k v. c = SetState a k v"
  shows "tracking_call D c t = forward D c t"
  using assms by (cases c) (simp_all add: tracking_call_def)

lemma forward_inner:
  "fst (forward D c t) = fst (D c (td_inner t))" "td_inner (snd (forward D c t)) = snd (D c (td_inner t))"
  "td_storageReads (snd (forward D c t)) = td_storageReads t"
  "td_storageWrites (snd (forward D c t)) = td_storageWrites t"
  by (simp_all add: forward_def recordAccess_def split: option.splits prod.splits)

lemma tracking_GetState_inner:
  "fst (tracking_GetState D a k t) = RHash (as_hash (fst (D (GetState a k) (td_inner t))))"
  "td_inner (snd (tracking_GetState D a k t)) = snd (D (GetState a k) (td_inner t))"
  "td_storageReads (snd (tracking_GetState D a k t)) =
     note_read a k (as_hash (fst (D (GetState a k) (td_inner t)))) (td_storageReads t)"
  by (simp_all add: tracking_GetState_def recordAccess_def Let_def split: prod.splits)

lemma tracking_GSACS_inner:
  "td_inner (snd (tracking_GetStateAndCommittedState D a k t)) =
     snd (D (GetCommittedState a k) (snd (D (GetState a k) (td_inner t))))"
  "td_storageReads (snd (tracking_GetStateAndCommittedState D a k t)) =
     note_read a k (as_hash (fst (D (GetState a k) (td_inner t)))) (td_storageReads t)"
  by (simp_all add: tracking_GetStateAndCommittedState_def recordAccess_def Let_def split: prod.splits)

lemma tracking_SetState_inner:
  "td_inner (snd (tracking_SetState D a k v t)) = snd (D (SetState a k v)
     (if first_seen (td_storageReads t) a k = None then snd (D (GetState a k) (td_inner t)) else td_inner t))"
  "td_storageReads (snd (tracking_SetState D a k v t)) =
     note_read a k (as_hash (fst (D (GetState a k) (td_inner t)))) (td_storageReads t)"
  by (auto simp: tracking_SetState_def recordAccess_def Let_def first_seen_def note_read_seen split: prod.splits)

locale tracked_db = state_db D ok view saved
  for D :: "'s vmdb" and ok :: "'s \<Rightarrow> bool" and view :: "'s \<Rightarrow> ledger" and saved :: "'s \<Rightarrow> int \<Rightarrow> ledger option"
begin

abbreviation t_ok :: "'s TrackingStateDB \<Rightarrow> bool" where "t_ok t \<equiv> ok (td_inner t)"
abbreviation t_view :: "'s TrackingStateDB \<Rightarrow> ledger" where "t_view t \<equiv> view (td_inner t)"
abbreviation t_saved :: "'s TrackingStateDB \<Rightarrow> int \<Rightarrow> ledger option" where "t_saved t \<equiv> saved (td_inner t)"

lemma get_state_pure:
  assumes "ok s"
  shows "ok (snd (D (GetState a k) s))" "view (snd (D (GetState a k) s)) = view s"
    "saved (snd (D (GetState a k) s)) = saved s" "as_hash (fst (D (GetState a k) s)) = sto (view s) a k"
  using assms ok_call [of s "GetState a k"] read_call [of s "GetState a k"] saved_call [of s "GetState a k"]
  by (simp_all add: reads_only_def is_snapshot_call_def get_state)

lemma tracking_GSACS_pure:
  assumes "t_ok t"
  shows "t_ok (snd (tracking_GetStateAndCommittedState D a k t))"
    "t_view (snd (tracking_GetStateAndCommittedState D a k t)) = t_view t"
    "t_saved (snd (tracking_GetStateAndCommittedState D a k t)) = t_saved t"
proof -
  let ?s = "snd (D (GetState a k) (td_inner t))"
  note s = get_state_pure [OF assms, of a k]
  show "t_ok (snd (tracking_GetStateAndCommittedState D a k t))"
    "t_view (snd (tracking_GetStateAndCommittedState D a k t)) = t_view t"
    "t_saved (snd (tracking_GetStateAndCommittedState D a k t)) = t_saved t"
    using s ok_call [of ?s "GetCommittedState a k"] read_call [of ?s "GetCommittedState a k"]
      saved_call [of ?s "GetCommittedState a k"]
    by (simp_all add: tracking_GSACS_inner reads_only_def is_snapshot_call_def)
qed

lemma tracking_SetState_law:
  assumes "t_ok t"
  shows "t_ok (snd (tracking_SetState D a k v t))"
    "t_view (snd (tracking_SetState D a k v t)) = (t_view t)\<lparr>sto := (sto (t_view t))(a := (sto (t_view t) a)(k := v))\<rparr>"
    "t_saved (snd (tracking_SetState D a k v t)) = t_saved t"
proof -
  let ?s = "if first_seen (td_storageReads t) a k = None then snd (D (GetState a k) (td_inner t)) else td_inner t"
  have s: "ok ?s" "view ?s = t_view t" "saved ?s = t_saved t"
    using get_state_pure [OF assms, of a k] assms by simp_all
  show "t_ok (snd (tracking_SetState D a k v t))"
    "t_view (snd (tracking_SetState D a k v t)) = (t_view t)\<lparr>sto := (sto (t_view t))(a := (sto (t_view t) a)(k := v))\<rparr>"
    "t_saved (snd (tracking_SetState D a k v t)) = t_saved t"
    unfolding tracking_SetState_inner
    using s ok_call [of ?s "SetState a k v"] set_state [of ?s a k v] saved_call [of ?s "SetState a k v"]
    by (simp_all add: is_snapshot_call_def)
qed

end

sublocale tracked_db \<subseteq> tr: state_db "tracking_call D" "\<lambda>t. ok (td_inner t)" "\<lambda>t. view (td_inner t)" "\<lambda>t. saved (td_inner t)"
proof
  show "t_ok (snd (tracking_call D c t))" if "t_ok t" "\<And>n. c = RevertToSnapshot n \<Longrightarrow> t_saved t n \<noteq> None" for t c
    using that ok_call [of "td_inner t" c]
    by (cases c) (simp_all add: tracking_call_def forward_inner tracking_GetState_inner tracking_GSACS_pure tracking_SetState_law)
  show "t_saved (snd (tracking_call D c t)) = t_saved t" if "t_ok t" "\<not> is_snapshot_call c" for t c
    using that saved_call [of "td_inner t" c]
    by (cases c) (simp_all add: tracking_call_def forward_inner tracking_GetState_inner tracking_GSACS_pure tracking_SetState_law)
  show "t_view (snd (tracking_call D c t)) = t_view t" if "t_ok t" "reads_only c" for t c
    using that read_call [of "td_inner t" c]
    by (cases c) (simp_all add: tracking_call_def forward_inner tracking_GetState_inner tracking_GSACS_pure reads_only_def)
  show "sto (t_view (snd (tracking_call D c t))) = sto (t_view t)" if "t_ok t" "\<not> storage_call c" for t c
    using that other_call [of "td_inner t" c]
    by (cases c) (simp_all add: tracking_call_def forward_inner tracking_GetState_inner tracking_GSACS_pure storage_call_def)
qed (simp_all add: tracking_call_def forward_inner tracking_GetState_inner tracking_SetState_law
      get_balance get_state add_balance sub_balance snapshot revert)


context tracked_db
begin

text \<open>
  The reads recorded so far are values of the initial storage \<open>w\<close>, and a slot that has not been
  seen still has its initial value, now and in every snapshot of the run.
\<close>

definition tracks :: "ledger \<Rightarrow> int set \<Rightarrow> 's TrackingStateDB \<Rightarrow> bool" where
  "tracks w S t \<longleftrightarrow> t_ok t \<and> S \<subseteq> dom (t_saved t) \<and> (\<forall>a. wfmap (mgetd [] (td_storageReads t) a))
     \<and> (\<forall>a k v. first_seen (td_storageReads t) a k = Some v \<longrightarrow> v = sto w a k)
     \<and> (\<forall>a k. first_seen (td_storageReads t) a k = None \<longrightarrow> sto (t_view t) a k = sto w a k
          \<and> (\<forall>n \<in> S. sto (the (t_saved t n)) a k = sto w a k))"

lemma tracksI:
  assumes "t_ok t" and "S \<subseteq> dom (t_saved t)" and "\<And>a. wfmap (mgetd [] (td_storageReads t) a)"
    and "\<And>a k v. first_seen (td_storageReads t) a k = Some v \<Longrightarrow> v = sto w a k"
    and "\<And>a k. first_seen (td_storageReads t) a k = None \<Longrightarrow> sto (t_view t) a k = sto w a k"
    and "\<And>a k n. first_seen (td_storageReads t) a k = None \<Longrightarrow> n \<in> S \<Longrightarrow> sto (the (t_saved t n)) a k = sto w a k"
  shows "tracks w S t"
  using assms unfolding tracks_def by blast

lemma tracksD:
  assumes "tracks w S t"
  shows "t_ok t" and "S \<subseteq> dom (t_saved t)" and "wfmap (mgetd [] (td_storageReads t) a)"
    and "first_seen (td_storageReads t) a k = Some v \<Longrightarrow> v = sto w a k"
    and "first_seen (td_storageReads t) a k = None \<Longrightarrow> sto (t_view t) a k = sto w a k"
    and "first_seen (td_storageReads t) a k = None \<Longrightarrow> n \<in> S \<Longrightarrow> sto (the (t_saved t n)) a k = sto w a k"
  using assms unfolding tracks_def by blast+

text \<open>Reading or writing a slot: it becomes seen, with its initial value.\<close>

lemma tracks_touch:
  assumes "tracks w S t" and "t_ok t'" and "t_saved t' = t_saved t"
    and "td_storageReads t' = note_read a k (sto (t_view t) a k) (td_storageReads t)"
    and "\<And>b j. (b, j) \<noteq> (a, k) \<Longrightarrow> sto (t_view t') b j = sto (t_view t) b j"
  shows "tracks w S t'"
proof (rule tracksI)
  have seen: "first_seen (td_storageReads t') b j =
      (if (b, j) = (a, k) \<and> first_seen (td_storageReads t) a k = None then Some (sto (t_view t) a k)
       else first_seen (td_storageReads t) b j)" for b j
    by (auto simp: assms(4) first_seen_note_read)
  show "v = sto w b j" if "first_seen (td_storageReads t') b j = Some v" for b j v
    using that tracksD(4) [OF assms(1), of b j v] tracksD(5) [OF assms(1), of a k] by (auto simp: seen split: if_splits)
  show "sto (t_view t') b j = sto w b j" if "first_seen (td_storageReads t') b j = None" for b j
    using that tracksD(5) [OF assms(1), of b j] assms(5) [of b j]
    by (cases "(b, j) = (a, k)") (auto simp: seen split: if_splits)
  show "sto (the (t_saved t' n)) b j = sto w b j" if "first_seen (td_storageReads t') b j = None" "n \<in> S" for b j n
    using that tracksD(6) [OF assms(1), of b j n] by (auto simp: seen assms(3) split: if_splits)
  show "S \<subseteq> dom (t_saved t')"
    using tracksD(2) [OF assms(1)] by (simp add: assms(3))
  show "wfmap (mgetd [] (td_storageReads t') b)" for b
    using tracksD(3) [OF assms(1)] by (simp add: assms(4) wfmap_note_read)
qed (rule assms(2))

lemma tracks_same:
  assumes "tracks w S t" and "t_ok t'" and "t_saved t' = t_saved t" and "td_storageReads t' = td_storageReads t"
    and "sto (t_view t') = sto (t_view t)"
  shows "tracks w S t'"
  using assms unfolding tracks_def by simp

lemma tracks_snapshot:
  assumes "tracks w S t"
  shows "tracks w (insert (as_int (fst (tracking_call D Snapshot t))) S) (snd (tracking_call D Snapshot t))"
proof -
  note ok = tracksD(1) [OF assms]
  have "t_ok (snd (tracking_call D Snapshot t))"
    using tr.ok_call [OF ok, of Snapshot] by simp
  moreover have "td_storageReads (snd (tracking_call D Snapshot t)) = td_storageReads t"
    by (simp add: tracking_call_def forward_inner)
  moreover have "t_view (snd (tracking_call D Snapshot t)) = t_view t"
    using tr.read_call [OF ok, of Snapshot] by (simp add: reads_only_def)
  ultimately show ?thesis
    using tracksD [OF assms] tr.snapshot [OF ok] by (intro tracksI) (auto split: if_splits)
qed

lemma tracks_revert:
  assumes "tracks w S t" and "n \<in> S"
  shows "tracks w {m \<in> S. m < n} (snd (tracking_call D (RevertToSnapshot n) t))"
proof -
  let ?t' = "snd (tracking_call D (RevertToSnapshot n) t)"
  note ok = tracksD(1) [OF assms(1)]
  obtain u where u: "t_saved t n = Some u"
    using tracksD(2) [OF assms(1)] assms(2) by auto
  have "t_ok ?t'"
    using tr.ok_call [OF ok, of "RevertToSnapshot n"] u by fastforce
  moreover have "td_storageReads ?t' = td_storageReads t"
    by (simp add: tracking_call_def forward_inner)
  moreover have "t_view ?t' = u" "t_saved ?t' = t_saved t |` {m. m < n}"
    using tr.revert [OF ok u] by simp_all
  ultimately show ?thesis
    using tracksD [OF assms(1)] assms(2) u by (intro tracksI) (auto, metis option.sel)
qed

lemma tracks_call:
  assumes "tracks w S t" and "\<And>n. c = RevertToSnapshot n \<Longrightarrow> n \<in> S" and "\<And>b. c \<noteq> Finalise b"
  shows "tracks w (own_snapshots (DB c) (fst (tracking_call D c t)) S) (snd (tracking_call D c t))"
proof -
  let ?t' = "snd (tracking_call D c t)" and ?S' = "own_snapshots (DB c) (fst (tracking_call D c t)) S"
  note ok = tracksD(1) [OF assms(1)]
  have ok': "t_ok ?t'"
    using tr.ok_call [OF ok, of c] assms(2) tracksD(2) [OF assms(1)] by fastforce
  consider (touch) a k where "c = GetState a k \<or> c = GetStateAndCommittedState a k \<or> (\<exists>v. c = SetState a k v)"
    | (snap) "c = Snapshot" | (rev) n where "c = RevertToSnapshot n"
    | (plain) "\<not> is_snapshot_call c" "\<not> storage_call c" "td_storageReads ?t' = td_storageReads t"
    using assms(3) by (cases c) (auto simp: is_snapshot_call_def storage_call_def tracking_call_def forward_inner)
  then show ?thesis
  proof cases
    case touch
    then have "tracks w S ?t'"
      using get_state_pure [OF ok, of a k]
      by (intro tracks_touch [OF assms(1) ok', of a k])
        (auto simp: tracking_call_def tracking_GetState_inner tracking_GSACS_pure ok tracking_GSACS_inner(2)
          tracking_SetState_law tracking_SetState_inner(2))
    moreover have "?S' = S"
      using touch by (auto simp: own_snapshots_def)
    ultimately show ?thesis by simp
  next
    case snap
    then show ?thesis
      using tracks_snapshot [OF assms(1)] by (simp add: own_snapshots_def)
  next
    case rev
    then show ?thesis
      using tracks_revert [OF assms(1), of n] assms(2) by (simp add: own_snapshots_def)
  next
    case plain
    then have "tracks w S ?t'"
      using tr.saved_call [OF ok, of c] tr.other_call [OF ok, of c] by (intro tracks_same [OF assms(1) ok']) simp_all
    moreover have "?S' = S"
      using plain(1) by (simp add: own_snapshots_def is_snapshot_call_def split: vmcall.splits)
    ultimately show ?thesis by simp
  qed
qed

lemma tracks_op:
  assumes "tracks w S t" and "\<And>n. c = DB (RevertToSnapshot n) \<Longrightarrow> n \<in> S" and "\<And>b. c \<noteq> DB (Finalise b)"
  shows "tracks w (own_snapshots c (fst (evm_op_run (tracking_call D) c t)) S) (snd (evm_op_run (tracking_call D) c t))"
proof (cases c)
  case (DB d)
  then show ?thesis
    using tracks_call [OF assms(1), of d] assms(2,3) by auto
next
  case (CanTransfer a v)
  have "tracks w S (snd (tracking_call D (GetBalance a) t))"
    using tracks_call [OF assms(1), of "GetBalance a"] by (simp add: own_snapshots_def)
  then show ?thesis
    by (auto simp: CanTransfer own_snapshots_def can_transfer_def split: prod.splits)
next
  case (Transfer a b v)
  have "tracks w S (snd (tracking_call D (SubBalance a v) t))"
    using tracks_call [OF assms(1), of "SubBalance a v"] by (simp add: own_snapshots_def)
  from tracks_call [OF this, of "AddBalance b v"] show ?thesis
    by (simp add: Transfer own_snapshots_def transfer_def)
qed

lemma tracks_run:
  "tracks w S t \<Longrightarrow> bracketed p S \<Longrightarrow> run_evm p (tracking_call D) t = (r, t') \<Longrightarrow> \<exists>S'. tracks w S' t'"
proof (induction p arbitrary: S t)
  case (Op c k)
  let ?r = "fst (evm_op_run (tracking_call D) c t)"
  have "tracks w (own_snapshots c ?r S) (snd (evm_op_run (tracking_call D) c t))"
    by (rule tracks_op [OF Op.prems(1)]) (use Op.prems(2) in auto)
  moreover have "bracketed (k ?r) (own_snapshots c ?r S)"
    using Op.prems(2) by simp
  ultimately show ?case
    using Op.IH [of "k ?r"] Op.prems(3) by simp
qed auto

lemma tracks_new: "ok s \<Longrightarrow> tracks (view s) {} (NewTrackingStateDB s me n)"
  by (simp add: tracks_def NewTrackingStateDB_def first_seen_def)

text \<open>So after a run that started with a new wrapper the recorded reads are the initial values.\<close>

lemma run_reads_initial:
  assumes "ok s" and "bracketed p {}" and "run_evm p (tracking_call D) (NewTrackingStateDB s me n) = (r, t)"
    and "(k, v) \<in> set (mgetd [] (td_storageReads t) a)"
  shows "v = sto (view s) a k"
proof -
  obtain S where S: "tracks (view s) S t"
    using tracks_run [OF tracks_new [OF assms(1)] assms(2,3)] by blast
  have "first_seen (td_storageReads t) a k = Some v"
    using assms(4) tracksD(3) [OF S, of a] by (simp add: first_seen_def wfmap_mget_iff)
  then show ?thesis
    by (rule tracksD(4) [OF S])
qed

end

interpretation mt: tracked_db mem_call "\<lambda>_. True" mem_view mem_saved ..


subsection \<open>Properties\<close>

text \<open>The write set keeps reverted writes: when a call writes a slot and then reverts to a snapshot
  taken before, the storage is as before but the wrapper still reports the write.\<close>

lemma tracking_keeps_reverted_write:
  assumes "state_db D ok view saved" and "ok s"
    and "run_evm (Op (DB Snapshot) (\<lambda>n. Op (DB (SetState a k v)) (\<lambda>_. Op (DB (RevertToSnapshot (as_int n))) (\<lambda>_. Done res))))
      (tracking_call D) (NewTrackingStateDB s me num) = (r, t)"
  shows "view (td_inner t) = view s \<and> mget (GetStorageWritesForAddress t a) k = Some v"
proof -
  have laws: "tracked_db D ok view saved"
    using assms(1) by (simp add: tracked_db_def)
  let ?t0 = "NewTrackingStateDB s me num" and ?D = "tracking_call D"
  let ?t1 = "snd (?D Snapshot ?t0)" and ?n = "as_int (fst (?D Snapshot ?t0))"
  let ?t2 = "snd (?D (SetState a k v) ?t1)"
  have t: "t = snd (?D (RevertToSnapshot ?n) ?t2)"
    using assms(3) by auto
  have t1: "ok (td_inner ?t1)" "saved (td_inner ?t1) ?n = Some (view s)"
    using state_db.ok_call [OF assms(1,2), of Snapshot] state_db.snapshot [OF assms(1,2)]
    by (simp_all add: tracking_call_def forward_inner NewTrackingStateDB_def)
  have t2: "ok (td_inner ?t2)" "saved (td_inner ?t2) = saved (td_inner ?t1)"
    using tracked_db.tracking_SetState_law [OF laws t1(1)] by (simp_all add: tracking_call_def)
  have "view (td_inner t) = view s"
    unfolding t using state_db.revert [OF assms(1) t2(1), of ?n] t1(2) t2(2)
    by (simp add: tracking_call_def forward_inner)
  moreover have "td_storageWrites (snd (tracking_SetState D a k v t')) = note_write a k v (td_storageWrites t')" for t'
    by (simp add: tracking_SetState_def Let_def recordAccess_def split: prod.splits)
  then have "first_seen (td_storageWrites t) a k = Some v"
    by (simp add: t tracking_call_def forward_inner first_seen_note_write)
  ultimately show ?thesis
    by (simp add: first_seen_def GetStorageWritesForAddress_def)
qed

end
