(* ===== verification/Bytecode_Store.thy ===== *)
theory Bytecode_Store
  imports VM_Interface
begin

text \<open>
  The store of contract bytecode of the orchestrator (\<open>internal/orchestrator/bytecode_store.go\<close>). The
  key-value database below it belongs to go-ethereum: \<open>ethdb\<close> lists the methods the store calls,
  \<open>kv_db\<close> what it relies on. What the store has handed to the database under an address is read back
  under that address and no other.
\<close>

record 'd ethdb =
  kv_Get :: "byte list \<Rightarrow> 'd \<Rightarrow> string + byte list"
  kv_Put :: "byte list \<Rightarrow> byte list \<Rightarrow> 'd \<Rightarrow> string option \<times> 'd"
  kv_Has :: "byte list \<Rightarrow> 'd \<Rightarrow> bool"
  kv_Close :: "'d \<Rightarrow> string option \<times> 'd"

record 'd BytecodeStore =
  bs_db :: 'd
  bs_closed :: bool

text \<open>
  \<open>mkErr\<close> and \<open>ldb\<close> are the outcomes of creating the directory and of opening LevelDB in it,
  \<open>memory\<close> is a fresh in-memory database.
\<close>

definition NewBytecodeStore :: "string \<Rightarrow> string option \<Rightarrow> string + 'd \<Rightarrow> 'd \<Rightarrow> 'd BytecodeStore" where
  "NewBytecodeStore path mkErr ldb memory =
     (let db = (if path \<noteq> []
                then (case mkErr of
                        Some _ \<Rightarrow> memory
                      | None \<Rightarrow> (case ldb of Inl _ \<Rightarrow> memory | Inr d \<Rightarrow> d))
                else memory)
      in \<lparr>bs_db = db, bs_closed = False\<rparr>)"

definition codeKey :: "(address \<Rightarrow> byte list) \<Rightarrow> address \<Rightarrow> byte list" where
  "codeKey addrBytes addr = string_bytes ''code:'' @ addrBytes addr"

text \<open>\<open>None\<close> is the nil slice.\<close>

definition BytecodeStore_Get :: "'d ethdb \<Rightarrow> (address \<Rightarrow> byte list) \<Rightarrow> address \<Rightarrow> 'd BytecodeStore \<Rightarrow> byte list option" where
  "BytecodeStore_Get K ab addr bs =
     (if bs_closed bs then None
      else case kv_Get K (codeKey ab addr) (bs_db bs) of
             Inl err \<Rightarrow> None
           | Inr data \<Rightarrow> if length data = 0 then None else Some data)"

definition BytecodeStore_Put :: "'d ethdb \<Rightarrow> (address \<Rightarrow> byte list) \<Rightarrow> address \<Rightarrow> byte list \<Rightarrow> 'd BytecodeStore
    \<Rightarrow> string option \<times> 'd BytecodeStore" where
  "BytecodeStore_Put K ab addr code bs =
     (if bs_closed bs then (Some ''bytecode store is closed'', bs)
      else if length code = 0 then (None, bs)
      else case kv_Put K (codeKey ab addr) code (bs_db bs) of (err, db) \<Rightarrow> (err, bs\<lparr>bs_db := db\<rparr>))"

definition BytecodeStore_Has :: "'d ethdb \<Rightarrow> (address \<Rightarrow> byte list) \<Rightarrow> address \<Rightarrow> 'd BytecodeStore \<Rightarrow> bool" where
  "BytecodeStore_Has K ab addr bs = (if bs_closed bs then False else kv_Has K (codeKey ab addr) (bs_db bs))"

definition BytecodeStore_Close :: "'d ethdb \<Rightarrow> 'd BytecodeStore \<Rightarrow> string option \<times> 'd BytecodeStore" where
  "BytecodeStore_Close K bs =
     (if bs_closed bs then (None, bs)
      else case kv_Close K (bs_db bs) of (err, db) \<Rightarrow> (err, \<lparr>bs_db = db, bs_closed = True\<rparr>))"

subsection \<open>The laws of the database\<close>

text \<open>
  \<open>cells\<close> is what a database holds. A write that reports no error is in it; a failed one has left it
  alone. Addresses have different bytes.
\<close>

locale kv_db =
  fixes K :: "'d ethdb" and ab :: "address \<Rightarrow> byte list" and cells :: "'d \<Rightarrow> byte list \<rightharpoonup> byte list"
  assumes db_get: "kv_Get K k d = Inr v \<longleftrightarrow> cells d k = Some v"
    and db_has: "kv_Has K k d \<longleftrightarrow> cells d k \<noteq> None"
    and db_put: "kv_Put K k v d = (err, d1) \<Longrightarrow> cells d1 = (if err = None then (cells d)(k \<mapsto> v) else cells d)"
    and addr_bytes: "ab a = ab b \<Longrightarrow> a = b"
begin

text \<open>The code of an address as the store gives it.\<close>

lemma store_Get: "BytecodeStore_Get K ab a bs =
    (if bs_closed bs then None else case cells (bs_db bs) (codeKey ab a) of None \<Rightarrow> None | Some v \<Rightarrow> if v = [] then None else Some v)"
proof (cases "kv_Get K (codeKey ab a) (bs_db bs)")
  case (Inl err)
  then have "cells (bs_db bs) (codeKey ab a) = None"
    using db_get [of "codeKey ab a" "bs_db bs"] by (cases "cells (bs_db bs) (codeKey ab a)") auto
  with Inl show ?thesis by (simp add: BytecodeStore_Get_def)
next
  case (Inr v)
  then have "cells (bs_db bs) (codeKey ab a) = Some v"
    using db_get by blast
  with Inr show ?thesis by (simp add: BytecodeStore_Get_def)
qed

lemma codeKey_eq: "codeKey ab a = codeKey ab b \<longleftrightarrow> a = b"
  using addr_bytes by (auto simp: codeKey_def)

lemma store_Put_Get:
  assumes "BytecodeStore_Put K ab a code bs = (err, bs1)"
  shows "BytecodeStore_Get K ab b bs1 =
    (if b = a \<and> err = None \<and> code \<noteq> [] then Some code else BytecodeStore_Get K ab b bs) \<and> bs_closed bs1 = bs_closed bs"
proof (cases "bs_closed bs \<or> code = []")
  case True
  with assms show ?thesis by (auto simp: BytecodeStore_Put_def split: if_splits)
next
  case False
  obtain e db where put: "kv_Put K (codeKey ab a) code (bs_db bs) = (e, db)"
    by fastforce
  with assms False have "err = e" "bs1 = bs\<lparr>bs_db := db\<rparr>"
    by (simp_all add: BytecodeStore_Put_def)
  with db_put [OF put] False show ?thesis
    by (auto simp: store_Get codeKey_eq)
qed

end

subsection \<open>A database in memory\<close>

definition mem_kv :: "(byte list, byte list) gomap ethdb" where
  "mem_kv = \<lparr>kv_Get = (\<lambda>k d. case mget d k of None \<Rightarrow> Inl ''not found'' | Some v \<Rightarrow> Inr v),
     kv_Put = (\<lambda>k v d. (None, mput k v d)), kv_Has = (\<lambda>k d. mget d k \<noteq> None), kv_Close = (\<lambda>d. (None, d))\<rparr>"

definition addr_bytes :: "address \<Rightarrow> byte list" where
  "addr_bytes a = nat_bytes (unat a)"

lemma addr_bytes_inj: "addr_bytes a = addr_bytes b \<Longrightarrow> a = b"
  by (metis addr_bytes_def bytes_nat_bytes unsigned_word_eqI)

interpretation mkv: kv_db mem_kv addr_bytes map_of
  by unfold_locales (auto simp: mem_kv_def gomap_simps fun_eq_iff dest: addr_bytes_inj split: option.splits)

text \<open>Round trip of the bytecode store. Code put for an address, when the database accepts it, is
  what the store gives back for that address and is there according to \<open>Has\<close>, and the code of every
  other address is what it was; after \<open>Close\<close> the store gives nothing and refuses every \<open>Put\<close>.\<close>

lemma bytecode_roundtrip:
  assumes "kv_db K ab cells" and "\<not> bs_closed bs" and "code \<noteq> []"
    and "BytecodeStore_Put K ab a code bs = (None, bs1)"
  shows "BytecodeStore_Get K ab a bs1 = Some code \<and> BytecodeStore_Has K ab a bs1
    \<and> (b \<noteq> a \<longrightarrow> BytecodeStore_Get K ab b bs1 = BytecodeStore_Get K ab b bs)
    \<and> BytecodeStore_Get K ab b (snd (BytecodeStore_Close K bs1)) = None
    \<and> fst (BytecodeStore_Put K ab b code (snd (BytecodeStore_Close K bs1))) = Some ''bytecode store is closed''"
proof -
  note put = kv_db.store_Put_Get [OF assms(1,4)]
  have got: "BytecodeStore_Get K ab a bs1 = Some code"
    using put [of a] assms(3) by simp
  then have "BytecodeStore_Has K ab a bs1"
    using kv_db.store_Get [OF assms(1)] kv_db.db_has [OF assms(1)]
    by (auto simp: BytecodeStore_Has_def split: if_splits option.splits)
  moreover have "BytecodeStore_Get K ab b bs1 = BytecodeStore_Get K ab b bs" if "b \<noteq> a"
    using put [of b] that by simp
  moreover have "bs_closed (snd (BytecodeStore_Close K bs1))"
    by (simp add: BytecodeStore_Close_def split: prod.splits)
  then have "BytecodeStore_Get K ab b (snd (BytecodeStore_Close K bs1)) = None"
    "fst (BytecodeStore_Put K ab b code (snd (BytecodeStore_Close K bs1))) = Some ''bytecode store is closed''"
    by (simp_all add: BytecodeStore_Get_def BytecodeStore_Put_def)
  ultimately show ?thesis
    using got by blast
qed

end
