(* ===== verification/State_Fetcher.thy ===== *)
theory State_Fetcher
  imports Bytecode_Store
begin

text \<open>
  Fetching state from the shards (\<open>internal/orchestrator/statefetcher.go\<close>): the fetcher with its
  per-transaction cache, and the check of a Merkle proof. A request carries the host, the segments of
  its path, the query and the body before it is encoded; a response carries the status, the error of
  reading its body, and what decoding the body gives at each type the code decodes it to. The network
  is the function \<open>oe_http\<close> of the environment, which is asked with the number of the request.
  Hexadecimal conversions, Keccak hashes, RLP and \<open>trie.VerifyProof\<close> belong to go-ethereum and are
  parameters. The texts of errors that the code wraps keep the code's prefix.
\<close>

record FetchStateResponse =
  fs_Success :: bool
  fs_Error :: string
  fs_Balance :: "int option"
  fs_Nonce :: u64
  fs_Code :: "byte list"
  fs_CodeHash :: hash

record ProofFields =
  pf_Value :: string
  pf_StateRoot :: string
  pf_AccountProof :: "string list"
  pf_StorageProof :: "string list"

datatype orch_payload = NoPayload | FetchPayload address | BlockPayload OrchestratorShardBlock

record orch_request =
  oq_method :: string
  oq_host :: string
  oq_path :: "string list"
  oq_query :: string
  oq_body :: orch_payload

record orch_response =
  op_status :: nat
  op_readErr :: "string option"
  op_fetch :: "string + FetchStateResponse"
  op_value :: "string + string"
  op_proof :: "string + ProofFields"

text \<open>A reader of proof nodes, and the functions of go-ethereum that check proofs.\<close>

record kv_reader =
  kr_Has :: "byte list \<Rightarrow> bool"
  kr_Get :: "byte list \<Rightarrow> string + byte list"

record verifier =
  vf_Keccak :: "byte list \<Rightarrow> byte list"
  vf_KeccakHash :: "byte list \<Rightarrow> hash"
  vf_EmptyRoot :: hash
  vf_VerifyProof :: "hash \<Rightarrow> byte list \<Rightarrow> kv_reader \<Rightarrow> string + byte list"
  vf_AccountRoot :: "byte list \<Rightarrow> string + hash"
  vf_DecodeBytes :: "byte list \<Rightarrow> string + byte list"
  vf_BytesToHash :: "byte list \<Rightarrow> hash"
  vf_AddrBytes :: "address \<Rightarrow> byte list"
  vf_HashBytes :: "hash \<Rightarrow> byte list"
  vf_HashHex :: "hash \<Rightarrow> string"

record 'd orch_env =
  oe_db :: "'d ethdb"
  oe_verifier :: verifier
  oe_http :: "nat \<Rightarrow> orch_request \<Rightarrow> string + orch_response"
  oe_HexToHash :: "string \<Rightarrow> hash"
  oe_addrHex :: "address \<Rightarrow> string"
  oe_MustFromBig :: "int \<Rightarrow> u256 option"
  oe_FromBig :: "int \<Rightarrow> u256"
  oe_Call :: "evm_ctx \<Rightarrow> address \<Rightarrow> address \<Rightarrow> byte list \<Rightarrow> u64 \<Rightarrow> u256 \<Rightarrow> evm_prog"
  oe_uuid :: "nat \<Rightarrow> string"
  oe_blockHash :: "OrchestratorShardBlock \<Rightarrow> hash"

subsection \<open>Checking a proof\<close>

type_synonym proofDB = "(hash, byte list) gomap"

definition newProofDB :: "verifier \<Rightarrow> byte list list \<Rightarrow> proofDB" where
  "newProofDB V proof = fold (\<lambda>node db. mput (vf_KeccakHash V node) node db) proof []"

definition proofDB_Has :: "verifier \<Rightarrow> proofDB \<Rightarrow> byte list \<Rightarrow> bool" where
  "proofDB_Has V db key = (if length key \<noteq> 32 then False else mget db (vf_BytesToHash V key) \<noteq> None)"

definition proofDB_Get :: "verifier \<Rightarrow> proofDB \<Rightarrow> byte list \<Rightarrow> string + byte list" where
  "proofDB_Get V db key =
     (if length key \<noteq> 32 then Inl ''invalid key length''
      else case mget db (vf_BytesToHash V key) of Some node \<Rightarrow> Inr node | None \<Rightarrow> Inl ''node not found'')"

definition proof_reader :: "verifier \<Rightarrow> byte list list \<Rightarrow> kv_reader" where
  "proof_reader V proof = \<lparr>kr_Has = proofDB_Has V (newProofDB V proof), kr_Get = proofDB_Get V (newProofDB V proof)\<rparr>"

fun parse_proof_from :: "nat \<Rightarrow> string list \<Rightarrow> string + byte list list" where
  "parse_proof_from i [] = Inr []"
| "parse_proof_from i (h # hs) =
     (case hex_decode (if take 2 h = ''0x'' then drop 2 h else h) of
        None \<Rightarrow> Inl (''invalid hex at index '' @ show_nat i)
      | Some bs \<Rightarrow> (case parse_proof_from (Suc i) hs of Inl err \<Rightarrow> Inl err | Inr rest \<Rightarrow> Inr (bs # rest)))"

definition parseProof :: "string list \<Rightarrow> string + byte list list" where
  "parseProof hexProof = parse_proof_from 0 hexProof"

definition maxProofNodes :: nat where
  "maxProofNodes = 128"

text \<open>The storage root of the proved account: that of the empty trie when there is no account.\<close>

definition proved_storage_root :: "verifier \<Rightarrow> hash \<Rightarrow> address \<Rightarrow> byte list list \<Rightarrow> string + hash" where
  "proved_storage_root V stateRoot addr accountProof =
     (case vf_VerifyProof V stateRoot (vf_Keccak V (vf_AddrBytes V addr)) (proof_reader V accountProof) of
        Inl err \<Rightarrow> Inl (''account proof verification failed: '' @ err)
      | Inr accountRLP \<Rightarrow>
          if 0 < length accountRLP
          then (case vf_AccountRoot V accountRLP of Inl err \<Rightarrow> Inl (''failed to decode account: '' @ err) | Inr root \<Rightarrow> Inr root)
          else Inr (vf_EmptyRoot V))"

text \<open>The value a storage proof shows for a slot.\<close>

definition proved_value :: "verifier \<Rightarrow> hash \<Rightarrow> hash \<Rightarrow> byte list list \<Rightarrow> string + hash" where
  "proved_value V storageRoot slot storageProof =
     (case vf_VerifyProof V storageRoot (vf_Keccak V (vf_HashBytes V slot)) (proof_reader V storageProof) of
        Inl err \<Rightarrow> Inl (''storage proof verification failed: '' @ err)
      | Inr valueRLP \<Rightarrow>
          if 0 < length valueRLP
          then (case vf_DecodeBytes V valueRLP of
                  Inl err \<Rightarrow> Inl (''failed to decode storage value: '' @ err)
                | Inr raw \<Rightarrow> Inr (if 0 < length raw then vf_BytesToHash V raw else 0))
          else Inr 0)"

text \<open>\<open>None\<close> is the nil error.\<close>

definition VerifyStorageProof :: "verifier \<Rightarrow> hash \<Rightarrow> address \<Rightarrow> hash \<Rightarrow> hash \<Rightarrow> string list \<Rightarrow> string list \<Rightarrow> string option" where
  "VerifyStorageProof V stateRoot addr slot v accountProof storageProof =
     (if maxProofNodes < length accountProof
      then Some (''account proof too large: '' @ show_nat (length accountProof) @ '' nodes (max '' @ show_nat maxProofNodes @ '')'')
      else if maxProofNodes < length storageProof
      then Some (''storage proof too large: '' @ show_nat (length storageProof) @ '' nodes (max '' @ show_nat maxProofNodes @ '')'')
      else if stateRoot = vf_EmptyRoot V \<or> stateRoot = 0
      then (if v \<noteq> 0 then Some ''empty state root cannot have non-zero storage value'' else None)
      else case parseProof accountProof of
        Inl err \<Rightarrow> Some (''invalid account proof format: '' @ err)
      | Inr accountProofBytes \<Rightarrow>
      case parseProof storageProof of
        Inl err \<Rightarrow> Some (''invalid storage proof format: '' @ err)
      | Inr storageProofBytes \<Rightarrow>
      if length accountProofBytes = 0
      then (if v \<noteq> 0 then Some ''empty account proof cannot verify non-zero value'' else None)
      else case proved_storage_root V stateRoot addr accountProofBytes of
        Inl err \<Rightarrow> Some err
      | Inr storageRoot \<Rightarrow>
      if storageRoot = vf_EmptyRoot V \<or> storageRoot = 0
      then (if v \<noteq> 0 then Some ''storage proof invalid: non-zero value for empty storage root'' else None)
      else case proved_value V storageRoot slot storageProofBytes of
        Inl err \<Rightarrow> Some err
      | Inr storedValue \<Rightarrow>
      if storedValue \<noteq> v
      then Some (''storage value mismatch: proof shows '' @ vf_HashHex V storedValue @ '', claimed '' @ vf_HashHex V v)
      else None)"

subsection \<open>The fetcher\<close>

record cachedState =
  cd_ShardID :: int
  cd_Balance :: "int option"
  cd_Nonce :: u64
  cd_Code :: "byte list"
  cd_CodeHash :: hash

record 'd StateFetcher =
  sf_numShards :: int
  sf_bytecodeStore :: "'d BytecodeStore"
  sf_stateCache :: "(txid, (address, cachedState) gomap) gomap"
  sf_sent :: "orch_request list"

definition NewStateFetcher :: "int \<Rightarrow> 'd BytecodeStore \<Rightarrow> 'd StateFetcher" where
  "NewStateFetcher numShards bytecodeStore =
     \<lparr>sf_numShards = numShards, sf_bytecodeStore = bytecodeStore, sf_stateCache = [], sf_sent = []\<rparr>"

definition StateFetcher_Close :: "'d orch_env \<Rightarrow> 'd StateFetcher \<Rightarrow> string option \<times> 'd StateFetcher" where
  "StateFetcher_Close E sf =
     (case BytecodeStore_Close (oe_db E) (sf_bytecodeStore sf) of (err, bs) \<Rightarrow> (err, sf\<lparr>sf_bytecodeStore := bs\<rparr>))"

definition shardURL :: "int \<Rightarrow> string" where
  "shardURL shardID = ''http://shard-'' @ show_int shardID @ '':8545''"

definition url_text :: "orch_request \<Rightarrow> string" where
  "url_text rq = oq_host rq @ concat (map (\<lambda>p. ''/'' @ p) (oq_path rq)) @ oq_query rq"

definition fetch_request :: "int \<Rightarrow> address \<Rightarrow> orch_request" where
  "fetch_request shardID addr = \<lparr>oq_method = ''POST'', oq_host = shardURL shardID, oq_path = [''state'', ''fetch''],
     oq_query = [], oq_body = FetchPayload addr\<rparr>"

definition storage_request :: "'d orch_env \<Rightarrow> int \<Rightarrow> address \<Rightarrow> hash \<Rightarrow> bool \<Rightarrow> orch_request" where
  "storage_request E shardID addr slot verifyProof = \<lparr>oq_method = ''GET'', oq_host = shardURL shardID,
     oq_path = [''evm'', ''storage'', oe_addrHex E addr, vf_HashHex (oe_verifier E) slot],
     oq_query = (if verifyProof then ''?proof=true'' else []), oq_body = NoPayload\<rparr>"

definition fetch_do :: "'d orch_env \<Rightarrow> orch_request \<Rightarrow> 'd StateFetcher \<Rightarrow> (string + orch_response) \<times> 'd StateFetcher" where
  "fetch_do E rq sf = (oe_http E (length (sf_sent sf)) rq, sf\<lparr>sf_sent := sf_sent sf @ [rq]\<rparr>)"

definition cache_state :: "txid \<Rightarrow> address \<Rightarrow> cachedState \<Rightarrow> 'd StateFetcher \<Rightarrow> 'd StateFetcher" where
  "cache_state txID addr st sf =
     sf\<lparr>sf_stateCache := mput txID (mput addr st (mgetd [] (sf_stateCache sf) txID)) (sf_stateCache sf)\<rparr>"

definition persist_code :: "'d orch_env \<Rightarrow> address \<Rightarrow> byte list \<Rightarrow> 'd StateFetcher \<Rightarrow> 'd StateFetcher" where
  "persist_code E addr code sf =
     (if 0 < length code
      then sf\<lparr>sf_bytecodeStore := snd (BytecodeStore_Put (oe_db E) (vf_AddrBytes (oe_verifier E)) addr code (sf_bytecodeStore sf))\<rparr>
      else sf)"

text \<open>The response is returned next to the error when a shard reports a failure.\<close>

definition FetchState :: "'d orch_env \<Rightarrow> txid \<Rightarrow> int \<Rightarrow> address \<Rightarrow> 'd StateFetcher
    \<Rightarrow> (FetchStateResponse option \<times> string option) \<times> 'd StateFetcher" where
  "FetchState E txID shardID addr sf =
     (if shardID < 0 \<or> sf_numShards sf \<le> shardID then ((None, Some (''invalid shard ID: '' @ show_int shardID)), sf)
      else let rq = fetch_request shardID addr in
        case fetch_do E rq sf of
          (Inl err, sf1) \<Rightarrow> ((None, Some (''POST '' @ url_text rq @ '': '' @ err)), sf1)
        | (Inr resp, sf1) \<Rightarrow>
            (case op_readErr resp of
               Some err \<Rightarrow> ((None, Some (''read response: '' @ err)), sf1)
             | None \<Rightarrow>
            (case op_fetch resp of
               Inl err \<Rightarrow> ((None, Some (''unmarshal fetch response: '' @ err)), sf1)
             | Inr r \<Rightarrow>
                 if \<not> fs_Success r then ((Some r, Some (''fetch failed: '' @ fs_Error r)), sf1)
                 else let sf2 = cache_state txID addr \<lparr>cd_ShardID = shardID, cd_Balance = fs_Balance r, cd_Nonce = fs_Nonce r,
                                  cd_Code = fs_Code r, cd_CodeHash = fs_CodeHash r\<rparr> sf1
                      in ((Some r, None), persist_code E addr (fs_Code r) sf2))))"

definition cached :: "txid \<Rightarrow> address \<Rightarrow> 'd StateFetcher \<Rightarrow> cachedState option" where
  "cached txID addr sf = (case mget (sf_stateCache sf) txID of None \<Rightarrow> None | Some m \<Rightarrow> mget m addr)"

text \<open>\<open>Inr None\<close> would be a nil pointer without an error.\<close>

definition getState :: "'d orch_env \<Rightarrow> txid \<Rightarrow> int \<Rightarrow> address \<Rightarrow> 'd StateFetcher \<Rightarrow> (string + cachedState option) \<times> 'd StateFetcher" where
  "getState E txID shardID addr sf =
     (case cached txID addr sf of
        Some st \<Rightarrow> (Inr (Some st), sf)
      | None \<Rightarrow>
          (case FetchState E txID shardID addr sf of
             ((_, Some err), sf1) \<Rightarrow> (Inl err, sf1)
           | ((_, None), sf1) \<Rightarrow> (Inr (cached txID addr sf1), sf1)))"

definition ClearCache :: "txid \<Rightarrow> 'd StateFetcher \<Rightarrow> 'd StateFetcher" where
  "ClearCache txID sf = sf\<lparr>sf_stateCache := mdel txID (sf_stateCache sf)\<rparr>"

definition getStorageAtWithProof :: "'d orch_env \<Rightarrow> txid \<Rightarrow> int \<Rightarrow> address \<Rightarrow> hash \<Rightarrow> bool \<Rightarrow> 'd StateFetcher
    \<Rightarrow> (string + hash) \<times> 'd StateFetcher" where
  "getStorageAtWithProof E txID shardID addr slot verifyProof sf =
     (case getState E txID shardID addr sf of
        (Inl err, sf1) \<Rightarrow> (Inl (''failed to fetch address state: '' @ err), sf1)
      | (Inr _, sf1) \<Rightarrow>
          let rq = storage_request E shardID addr slot verifyProof in
          (case fetch_do E rq sf1 of
             (Inl err, sf2) \<Rightarrow> (Inl (''GET '' @ url_text rq @ '': '' @ err), sf2)
           | (Inr resp, sf2) \<Rightarrow>
               (if op_status resp \<noteq> 200
                then Inl (''GET '' @ url_text rq @ '' returned status '' @ show_nat (op_status resp))
                else if verifyProof
                then (case op_proof resp of
                        Inl err \<Rightarrow> Inl (''decode storage proof response: '' @ err)
                      | Inr p \<Rightarrow>
                          let stateRoot = oe_HexToHash E (pf_StateRoot p);
                              v = oe_HexToHash E (pf_Value p)
                          in (case VerifyStorageProof (oe_verifier E) stateRoot addr slot v (pf_AccountProof p) (pf_StorageProof p) of
                                Some err \<Rightarrow> Inl (''proof verification failed: '' @ err)
                              | None \<Rightarrow> Inr v))
                else (case op_value resp of
                        Inl err \<Rightarrow> Inl (''decode storage response: '' @ err)
                      | Inr v \<Rightarrow> Inr (oe_HexToHash E v)), sf2)))"

definition fetcher_GetStorageAt :: "'d orch_env \<Rightarrow> txid \<Rightarrow> int \<Rightarrow> address \<Rightarrow> hash \<Rightarrow> 'd StateFetcher \<Rightarrow> (string + hash) \<times> 'd StateFetcher" where
  "fetcher_GetStorageAt E txID shardID addr slot = getStorageAtWithProof E txID shardID addr slot False"

definition fetcher_GetStorageAtWithProof :: "'d orch_env \<Rightarrow> txid \<Rightarrow> int \<Rightarrow> address \<Rightarrow> hash \<Rightarrow> bool \<Rightarrow> 'd StateFetcher
    \<Rightarrow> (string + hash) \<times> 'd StateFetcher" where
  "fetcher_GetStorageAtWithProof E txID shardID addr slot verifyProof = getStorageAtWithProof E txID shardID addr slot verifyProof"

text \<open>The getters read through the state that \<open>getState\<close> returned: \<open>None\<close> is a nil pointer panic.\<close>

definition fetcher_GetBalance :: "'d orch_env \<Rightarrow> txid \<Rightarrow> int \<Rightarrow> address \<Rightarrow> 'd StateFetcher
    \<Rightarrow> ((string + int option) \<times> 'd StateFetcher) option" where
  "fetcher_GetBalance E txID shardID addr sf =
     (case getState E txID shardID addr sf of
        (Inl err, sf1) \<Rightarrow> Some (Inl err, sf1)
      | (Inr None, sf1) \<Rightarrow> None
      | (Inr (Some st), sf1) \<Rightarrow> Some (Inr (cd_Balance st), sf1))"

definition fetcher_GetNonce :: "'d orch_env \<Rightarrow> txid \<Rightarrow> int \<Rightarrow> address \<Rightarrow> 'd StateFetcher
    \<Rightarrow> ((string + u64) \<times> 'd StateFetcher) option" where
  "fetcher_GetNonce E txID shardID addr sf =
     (case getState E txID shardID addr sf of
        (Inl err, sf1) \<Rightarrow> Some (Inl err, sf1)
      | (Inr None, sf1) \<Rightarrow> None
      | (Inr (Some st), sf1) \<Rightarrow> Some (Inr (cd_Nonce st), sf1))"

definition fetcher_GetCode :: "'d orch_env \<Rightarrow> txid \<Rightarrow> int \<Rightarrow> address \<Rightarrow> 'd StateFetcher
    \<Rightarrow> ((string + byte list) \<times> 'd StateFetcher) option" where
  "fetcher_GetCode E txID shardID addr sf =
     (case BytecodeStore_Get (oe_db E) (vf_AddrBytes (oe_verifier E)) addr (sf_bytecodeStore sf) of
        Some code \<Rightarrow> Some (Inr code, sf)
      | None \<Rightarrow>
          (case getState E txID shardID addr sf of
             (Inl err, sf1) \<Rightarrow> Some (Inl err, sf1)
           | (Inr None, sf1) \<Rightarrow> None
           | (Inr (Some st), sf1) \<Rightarrow> Some (Inr (cd_Code st), sf1)))"

text \<open>The last byte of the address modulo the number of shards; a division by zero panics.\<close>

definition AddressToShard :: "int \<Rightarrow> address \<Rightarrow> int option" where
  "AddressToShard numShards addr = (if numShards = 0 then None else Some (int (last_byte addr) mod \<bar>numShards\<bar>))"

subsection \<open>What an accepted proof shows\<close>

text \<open>
  The law of Merkle proofs: a proof that \<open>trie.VerifyProof\<close> accepts against a root shows what the trie
  with that root holds under the key (empty for nothing).
\<close>

locale merkle =
  fixes V :: verifier and trie :: "hash \<Rightarrow> byte list \<Rightarrow> byte list"
  assumes verify: "vf_VerifyProof V root key rd = Inr x \<Longrightarrow> x = trie root key"

text \<open>The value of a slot in the state with a given root; \<open>None\<close> if the tries hold data that do not decode.\<close>

definition trie_account_root :: "verifier \<Rightarrow> (hash \<Rightarrow> byte list \<Rightarrow> byte list) \<Rightarrow> hash \<Rightarrow> address \<Rightarrow> hash option" where
  "trie_account_root V trie root a =
     (let acc = trie root (vf_Keccak V (vf_AddrBytes V a))
      in if acc = [] then Some (vf_EmptyRoot V) else case vf_AccountRoot V acc of Inl _ \<Rightarrow> None | Inr r \<Rightarrow> Some r)"

definition trie_slot :: "verifier \<Rightarrow> (hash \<Rightarrow> byte list \<Rightarrow> byte list) \<Rightarrow> hash \<Rightarrow> hash \<Rightarrow> hash option" where
  "trie_slot V trie root k =
     (let x = trie root (vf_Keccak V (vf_HashBytes V k))
      in if x = [] then Some 0
         else case vf_DecodeBytes V x of Inl _ \<Rightarrow> None | Inr raw \<Rightarrow> Some (if raw = [] then 0 else vf_BytesToHash V raw))"

definition trie_storage :: "verifier \<Rightarrow> (hash \<Rightarrow> byte list \<Rightarrow> byte list) \<Rightarrow> hash \<Rightarrow> address \<Rightarrow> hash \<Rightarrow> hash option" where
  "trie_storage V trie root a k =
     (if root = vf_EmptyRoot V \<or> root = 0 then Some 0
      else case trie_account_root V trie root a of
        None \<Rightarrow> None
      | Some r \<Rightarrow> if r = vf_EmptyRoot V \<or> r = 0 then Some 0 else trie_slot V trie r k)"

context merkle
begin

lemma account_root: "proved_storage_root V root a ap = Inr r \<Longrightarrow> trie_account_root V trie root a = Some r"
  by (auto simp: proved_storage_root_def trie_account_root_def Let_def dest!: verify split: sum.splits if_splits)

lemma slot_value: "proved_value V root k sp = Inr v \<Longrightarrow> trie_slot V trie root k = Some v"
  by (auto simp: proved_value_def trie_slot_def Let_def dest!: verify split: sum.splits if_splits)

lemma accepted:
  assumes "VerifyStorageProof V root a k v ap sp = None"
  shows "trie_storage V trie root a k = Some v \<or> v = 0 \<and> ap = []"
    and "length ap \<le> maxProofNodes \<and> length sp \<le> maxProofNodes"
proof -
  show len: "length ap \<le> maxProofNodes \<and> length sp \<le> maxProofNodes"
    using assms by (simp add: VerifyStorageProof_def split: if_splits)
  have empty: "ap = []" if "parseProof ap = Inr []"
    using that by (cases ap) (auto simp: parseProof_def split: option.splits sum.splits)
  show "trie_storage V trie root a k = Some v \<or> v = 0 \<and> ap = []"
    using assms len empty
    by (auto simp: VerifyStorageProof_def trie_storage_def dest!: account_root slot_value split: if_splits sum.splits)
qed

end

text \<open>A state with one account, whose only storage value is 5; the trie of a root is one node.\<close>

definition demo_trie :: "hash \<Rightarrow> byte list \<Rightarrow> byte list" where
  "demo_trie root key = (if root = 7 then [9] else if root = 9 then [5] else [])"

definition demo_verifier :: verifier where
  "demo_verifier = \<lparr>vf_Keccak = (\<lambda>bs. bs), vf_KeccakHash = (\<lambda>bs. of_nat (bytes_nat bs)), vf_EmptyRoot = 1,
     vf_VerifyProof = (\<lambda>root key rd. case kr_Get rd (replicate 31 0 @ [ucast root]) of
          Inl err \<Rightarrow> Inl err | Inr node \<Rightarrow> if node = [ucast root] then Inr (demo_trie root key) else Inl ''bad node''),
     vf_AccountRoot = (\<lambda>acc. Inr (of_nat (bytes_nat acc))), vf_DecodeBytes = Inr,
     vf_BytesToHash = (\<lambda>bs. of_nat (bytes_nat bs)), vf_AddrBytes = addr_bytes, vf_HashBytes = (\<lambda>h. nat_bytes (unat h)),
     vf_HashHex = (\<lambda>h. show_nat (unat h))\<rparr>"

interpretation demo: merkle demo_verifier demo_trie
  by unfold_locales (simp add: demo_verifier_def split: sum.splits if_splits)

lemma demo_storage: "trie_storage demo_verifier demo_trie 7 a k = Some 5"
proof -
  have "bytes_nat [9] = 9" "bytes_nat [5] = 5"
    by (simp_all add: bytes_nat_def)
  then show ?thesis
    by (simp add: trie_storage_def trie_account_root_def trie_slot_def demo_trie_def demo_verifier_def)
qed



text \<open>C40. A zero without a proof is accepted. When a shard answers a request for a proved storage value with
  the value zero and no proof nodes, the fetcher returns zero as a verified value, whatever state root
  the answer names and whatever that state holds in the slot.\<close>

theorem unproved_zero_accepted:
  assumes "cached txID a sf = Some st"
    and "oe_http E (length (sf_sent sf)) (storage_request E i a k True) = Inr resp" and "op_status resp = 200"
    and "op_proof resp = Inr p" and "oe_HexToHash E (pf_Value p) = 0" and "pf_AccountProof p = []" and "pf_StorageProof p = []"
  shows "fst (fetcher_GetStorageAtWithProof E txID i a k True sf) = Inr 0"
  using assms
  by (simp add: fetcher_GetStorageAtWithProof_def getStorageAtWithProof_def getState_def fetch_do_def Let_def VerifyStorageProof_def
      parseProof_def maxProofNodes_def)

text \<open>A shard that names the root above and claims zero without a proof.\<close>

definition lying_proof :: ProofFields where
  "lying_proof = \<lparr>pf_Value = [], pf_StateRoot = ''1234567'', pf_AccountProof = [], pf_StorageProof = []\<rparr>"

definition lying_response :: orch_response where
  "lying_response = \<lparr>op_status = 200, op_readErr = None, op_fetch = Inl ''none'', op_value = Inl ''none'', op_proof = Inr lying_proof\<rparr>"

definition lying_env :: "(byte list, byte list) gomap orch_env" where
  "lying_env = \<lparr>oe_db = mem_kv, oe_verifier = demo_verifier,
     oe_http = (\<lambda>n rq. Inr lying_response), oe_HexToHash = (\<lambda>s. of_nat (length s)), oe_addrHex = (\<lambda>a. show_nat (unat a)), oe_MustFromBig = (\<lambda>i. None), oe_FromBig = word_of_int,
     oe_Call = mem_contract, oe_uuid = show_nat, oe_blockHash = (\<lambda>_. 0)\<rparr>"

definition lying_fetcher :: "(byte list, byte list) gomap StateFetcher" where
  "lying_fetcher = \<lparr>sf_numShards = 8, sf_bytecodeStore = \<lparr>bs_db = [], bs_closed = False\<rparr>,
     sf_stateCache = [(''t'', [(3, \<lparr>cd_ShardID = 3, cd_Balance = Some 0, cd_Nonce = 0, cd_Code = [], cd_CodeHash = 0\<rparr>)])], sf_sent = []\<rparr>"

theorem unproved_zero_accepted_witness:
  "fst (fetcher_GetStorageAtWithProof lying_env ''t'' 3 3 2 True lying_fetcher) = Inr 0
    \<and> oe_HexToHash lying_env ''1234567'' = 7 \<and> trie_storage (oe_verifier lying_env) demo_trie 7 3 2 = Some 5"
proof -
  have "fst (fetcher_GetStorageAtWithProof lying_env ''t'' 3 3 2 True lying_fetcher) = Inr 0"
    by (rule unproved_zero_accepted [where resp = lying_response and p = lying_proof])
      (simp_all add: lying_env_def lying_fetcher_def cached_def lying_response_def lying_proof_def)
  then show ?thesis
    by (simp add: demo_storage) (simp add: lying_env_def demo_storage)
qed

end
