(* ===== verification/Simulation_StateDB.thy ===== *)
theory Simulation_StateDB
  imports Tracking_StateDB State_Fetcher
begin

text \<open>
  The state database of a simulation (\<open>internal/orchestrator/statedb.go\<close>): it fetches accounts and
  storage slots from the shards on first access, keeps the changes of the run to itself, and turns what
  the run has read and written into a read-write set. A method that panics gives \<open>None\<close>; \<open>sim_db\<close> is
  the database as the EVM sees it, on a state that is \<open>None\<close> once a method has panicked. The
  fetcher is shared by pointer and travels with the database. The fields \<open>OriginalBalance\<close> and
  \<open>Balance\<close> of an account are never nil. \<open>GetCommittedState\<close> is not a method of this database.
\<close>

definition Sim_NumShards :: int where
  "Sim_NumShards = 8"

record accountState =
  ac_Balance :: u256
  ac_OriginalBalance :: u256
  ac_Nonce :: u64
  ac_Code :: "byte list"
  ac_CodeHash :: hash
  ac_ShardID :: int
  ac_Destructed :: bool
  ac_Created :: bool

record sim_snapshot =
  sn_accounts :: "(address, accountState) gomap"
  sn_reads :: slot_values
  sn_writes :: slot_values
  sn_refund :: u64
  sn_logsLen :: nat

subsection \<open>Access lists\<close>

text \<open>The index \<open>-1\<close> marks an address without slots. An index out of range panics.\<close>

record accessList =
  al_addresses :: "(address, int) gomap"
  al_slots :: "(hash, unit) gomap list"

definition newAccessList :: accessList where
  "newAccessList = \<lparr>al_addresses = [], al_slots = []\<rparr>"

definition AddAddress :: "address \<Rightarrow> accessList \<Rightarrow> bool \<times> accessList" where
  "AddAddress addr al =
     (if mget (al_addresses al) addr \<noteq> None then (False, al)
      else (True, al\<lparr>al_addresses := mput addr (-1) (al_addresses al)\<rparr>))"

definition new_slot_map :: "address \<Rightarrow> hash \<Rightarrow> accessList \<Rightarrow> accessList" where
  "new_slot_map addr slot al =
     \<lparr>al_addresses = mput addr (int (length (al_slots al))) (al_addresses al), al_slots = al_slots al @ [[(slot, ())]]\<rparr>"

definition AddSlot :: "address \<Rightarrow> hash \<Rightarrow> accessList \<Rightarrow> ((bool \<times> bool) \<times> accessList) option" where
  "AddSlot addr slot al =
     (case mget (al_addresses al) addr of
        None \<Rightarrow> Some ((True, True), new_slot_map addr slot al)
      | Some idx \<Rightarrow>
          if idx = -1 then Some ((False, True), new_slot_map addr slot al)
          else if idx < 0 \<or> int (length (al_slots al)) \<le> idx then None
          else if mget (al_slots al ! nat idx) slot \<noteq> None then Some ((False, False), al)
          else Some ((False, True), al\<lparr>al_slots := (al_slots al)[nat idx := mput slot () (al_slots al ! nat idx)]\<rparr>))"

definition ContainsAddress :: "address \<Rightarrow> accessList \<Rightarrow> bool" where
  "ContainsAddress addr al = (mget (al_addresses al) addr \<noteq> None)"

definition Contains :: "address \<Rightarrow> hash \<Rightarrow> accessList \<Rightarrow> (bool \<times> bool) option" where
  "Contains addr slot al =
     (case mget (al_addresses al) addr of
        None \<Rightarrow> Some (False, False)
      | Some idx \<Rightarrow>
          if idx = -1 then Some (True, False)
          else if idx < 0 \<or> int (length (al_slots al)) \<le> idx then None
          else Some (True, mget (al_slots al ! nat idx) slot \<noteq> None))"

subsection \<open>The database\<close>

record 'd SimulationStateDB =
  sd_txID :: txid
  sd_fetcher :: "'d StateFetcher"
  sd_accounts :: "(address, accountState) gomap"
  sd_reads :: slot_values
  sd_writes :: slot_values
  sd_writeOlds :: slot_values
  sd_accessList :: accessList
  sd_logs :: "byte list list"
  sd_refund :: u64
  sd_snapshots :: "sim_snapshot list"
  sd_transient :: slot_values
  sd_fetchErrors :: "string list"

definition NewSimulationStateDB :: "txid \<Rightarrow> 'd StateFetcher \<Rightarrow> 'd SimulationStateDB" where
  "NewSimulationStateDB txID fetcher =
     \<lparr>sd_txID = txID, sd_fetcher = fetcher, sd_accounts = [], sd_reads = [], sd_writes = [], sd_writeOlds = [],
      sd_accessList = newAccessList, sd_logs = [], sd_refund = 0, sd_snapshots = [], sd_transient = [], sd_fetchErrors = []\<rparr>"

definition empty_account :: "int \<Rightarrow> accountState" where
  "empty_account shardID = \<lparr>ac_Balance = 0, ac_OriginalBalance = 0, ac_Nonce = 0, ac_Code = [], ac_CodeHash = 0,
     ac_ShardID = shardID, ac_Destructed = False, ac_Created = False\<rparr>"

definition owner_shard :: "address \<Rightarrow> 'd SimulationStateDB \<Rightarrow> int option" where
  "owner_shard addr s = AddressToShard (sf_numShards (sd_fetcher s)) addr"

definition fetched_account :: "'d orch_env \<Rightarrow> int \<Rightarrow> FetchStateResponse \<Rightarrow> accountState option" where
  "fetched_account E shardID r =
     (case (case fs_Balance r of None \<Rightarrow> Some 0 | Some b \<Rightarrow> oe_MustFromBig E b) of
        None \<Rightarrow> None
      | Some balance \<Rightarrow>
          let codeHash = (if length (fs_Code r) = 0 then 0
                          else if fs_CodeHash r = 0 then vf_KeccakHash (oe_verifier E) (fs_Code r)
                          else fs_CodeHash r)
          in Some \<lparr>ac_Balance = balance, ac_OriginalBalance = balance, ac_Nonce = fs_Nonce r, ac_Code = fs_Code r,
                   ac_CodeHash = codeHash, ac_ShardID = shardID, ac_Destructed = False, ac_Created = False\<rparr>)"

text \<open>
  The account and the error. With an error the account is an empty one that the map of accounts does
  not hold. The case of a missing response without an error does not arise (it would be a nil pointer).
\<close>

definition getOrFetchAccount :: "'d orch_env \<Rightarrow> address \<Rightarrow> 'd SimulationStateDB
    \<Rightarrow> ((accountState \<times> string option) \<times> 'd SimulationStateDB) option" where
  "getOrFetchAccount E addr s =
     (case mget (sd_accounts s) addr of
        Some acct \<Rightarrow> Some ((acct, None), s)
      | None \<Rightarrow>
     (case owner_shard addr s of
        None \<Rightarrow> None
      | Some shardID \<Rightarrow>
     (case FetchState E (sd_txID s) shardID addr (sd_fetcher s) of
        ((_, Some err), sf) \<Rightarrow>
          Some ((empty_account shardID, Some err), s\<lparr>sd_fetcher := sf, sd_fetchErrors := sd_fetchErrors s @ [err]\<rparr>)
      | ((None, None), sf) \<Rightarrow> None
      | ((Some r, None), sf) \<Rightarrow>
          (case fetched_account E shardID r of
             None \<Rightarrow> None
           | Some acct \<Rightarrow> Some ((acct, None), s\<lparr>sd_fetcher := sf, sd_accounts := mput addr acct (sd_accounts s)\<rparr>)))))"

text \<open>A getter reads through the account; a setter also changes it in place.\<close>

definition read_account :: "'d orch_env \<Rightarrow> address \<Rightarrow> (accountState \<Rightarrow> 'r) \<Rightarrow> 'd SimulationStateDB
    \<Rightarrow> ('r \<times> 'd SimulationStateDB) option" where
  "read_account E addr f s =
     (case getOrFetchAccount E addr s of None \<Rightarrow> None | Some ((acct, err), s1) \<Rightarrow> Some (f acct, s1))"

definition update_account :: "'d orch_env \<Rightarrow> address \<Rightarrow> (accountState \<Rightarrow> 'r) \<Rightarrow> (accountState \<Rightarrow> accountState) \<Rightarrow> 'd SimulationStateDB
    \<Rightarrow> ('r \<times> 'd SimulationStateDB) option" where
  "update_account E addr f g s =
     (case getOrFetchAccount E addr s of
        None \<Rightarrow> None
      | Some ((acct, err), s1) \<Rightarrow>
          Some (f acct, if err = None then s1\<lparr>sd_accounts := mput addr (g acct) (sd_accounts s1)\<rparr> else s1))"

definition Sim_CreateAccount :: "address \<Rightarrow> 'd SimulationStateDB \<Rightarrow> 'd SimulationStateDB option" where
  "Sim_CreateAccount addr s =
     (case owner_shard addr s of
        None \<Rightarrow> None
      | Some shardID \<Rightarrow> Some (s\<lparr>sd_accounts := mput addr ((empty_account shardID)\<lparr>ac_Created := True\<rparr>) (sd_accounts s)\<rparr>))"

definition Sim_CreateContract :: "address \<Rightarrow> 'd SimulationStateDB \<Rightarrow> 'd SimulationStateDB option" where
  "Sim_CreateContract addr s = Sim_CreateAccount addr s"

definition Sim_GetBalance :: "'d orch_env \<Rightarrow> address \<Rightarrow> 'd SimulationStateDB \<Rightarrow> (u256 \<times> 'd SimulationStateDB) option" where
  "Sim_GetBalance E addr s = read_account E addr ac_Balance s"

definition Sim_SubBalance :: "'d orch_env \<Rightarrow> address \<Rightarrow> u256 \<Rightarrow> 'd SimulationStateDB \<Rightarrow> (u256 \<times> 'd SimulationStateDB) option" where
  "Sim_SubBalance E addr amount s =
     update_account E addr ac_Balance (\<lambda>acct. acct\<lparr>ac_Balance := ac_Balance acct - amount\<rparr>) s"

definition Sim_AddBalance :: "'d orch_env \<Rightarrow> address \<Rightarrow> u256 \<Rightarrow> 'd SimulationStateDB \<Rightarrow> (u256 \<times> 'd SimulationStateDB) option" where
  "Sim_AddBalance E addr amount s =
     update_account E addr ac_Balance (\<lambda>acct. acct\<lparr>ac_Balance := ac_Balance acct + amount\<rparr>) s"

definition Sim_GetNonce :: "'d orch_env \<Rightarrow> address \<Rightarrow> 'd SimulationStateDB \<Rightarrow> (u64 \<times> 'd SimulationStateDB) option" where
  "Sim_GetNonce E addr s = read_account E addr ac_Nonce s"

definition Sim_SetNonce :: "'d orch_env \<Rightarrow> address \<Rightarrow> u64 \<Rightarrow> 'd SimulationStateDB \<Rightarrow> 'd SimulationStateDB option" where
  "Sim_SetNonce E addr nonce s = map_option snd (update_account E addr (\<lambda>_. ()) (\<lambda>acct. acct\<lparr>ac_Nonce := nonce\<rparr>) s)"

definition Sim_GetCodeHash :: "'d orch_env \<Rightarrow> address \<Rightarrow> 'd SimulationStateDB \<Rightarrow> (hash \<times> 'd SimulationStateDB) option" where
  "Sim_GetCodeHash E addr s = read_account E addr (\<lambda>acct. if length (ac_Code acct) = 0 then 0 else ac_CodeHash acct) s"

definition Sim_GetCode :: "'d orch_env \<Rightarrow> address \<Rightarrow> 'd SimulationStateDB \<Rightarrow> (byte list \<times> 'd SimulationStateDB) option" where
  "Sim_GetCode E addr s = read_account E addr ac_Code s"

definition Sim_SetCode :: "'d orch_env \<Rightarrow> address \<Rightarrow> byte list \<Rightarrow> 'd SimulationStateDB \<Rightarrow> (byte list \<times> 'd SimulationStateDB) option" where
  "Sim_SetCode E addr code s =
     update_account E addr ac_Code (\<lambda>acct. acct\<lparr>ac_Code := code,
       ac_CodeHash := (if 0 < length code then vf_KeccakHash (oe_verifier E) code else 0)\<rparr>) s"

definition Sim_GetCodeSize :: "'d orch_env \<Rightarrow> address \<Rightarrow> 'd SimulationStateDB \<Rightarrow> (int \<times> 'd SimulationStateDB) option" where
  "Sim_GetCodeSize E addr s = map_option (\<lambda>(code, s1). (int (length code), s1)) (Sim_GetCode E addr s)"

definition Sim_AddRefund :: "u64 \<Rightarrow> 'd SimulationStateDB \<Rightarrow> 'd SimulationStateDB" where
  "Sim_AddRefund gas s = s\<lparr>sd_refund := sd_refund s + gas\<rparr>"

definition Sim_SubRefund :: "u64 \<Rightarrow> 'd SimulationStateDB \<Rightarrow> 'd SimulationStateDB" where
  "Sim_SubRefund gas s = (if sd_refund s < gas then s\<lparr>sd_refund := 0\<rparr> else s\<lparr>sd_refund := sd_refund s - gas\<rparr>)"

definition Sim_GetState :: "'d orch_env \<Rightarrow> address \<Rightarrow> hash \<Rightarrow> 'd SimulationStateDB \<Rightarrow> (hash \<times> 'd SimulationStateDB) option" where
  "Sim_GetState E addr slot s =
     (case first_seen (sd_writes s) addr slot of
        Some val \<Rightarrow> Some (val, s)
      | None \<Rightarrow>
     (case first_seen (sd_reads s) addr slot of
        Some val \<Rightarrow> Some (val, s)
      | None \<Rightarrow>
     (case getOrFetchAccount E addr s of
        None \<Rightarrow> None
      | Some ((acct, _), s1) \<Rightarrow>
          let (res, sf) = fetcher_GetStorageAt E (sd_txID s1) (ac_ShardID acct) addr slot (sd_fetcher s1);
              val = (case res of Inl err \<Rightarrow> 0 | Inr v \<Rightarrow> v)
          in Some (val, s1\<lparr>sd_fetcher := sf, sd_reads := note_write addr slot val (sd_reads s1)\<rparr>))))"

definition Sim_GetStateAndCommittedState :: "'d orch_env \<Rightarrow> address \<Rightarrow> hash \<Rightarrow> 'd SimulationStateDB
    \<Rightarrow> ((hash \<times> hash) \<times> 'd SimulationStateDB) option" where
  "Sim_GetStateAndCommittedState E addr slot s =
     (case Sim_GetState E addr slot s of
        None \<Rightarrow> None
      | Some (current, s1) \<Rightarrow>
          Some ((current, case first_seen (sd_reads s1) addr slot of Some committed \<Rightarrow> committed | None \<Rightarrow> current), s1))"

definition Sim_SetState :: "'d orch_env \<Rightarrow> address \<Rightarrow> hash \<Rightarrow> hash \<Rightarrow> 'd SimulationStateDB \<Rightarrow> (hash \<times> 'd SimulationStateDB) option" where
  "Sim_SetState E addr slot v s =
     (case Sim_GetState E addr slot s of
        None \<Rightarrow> None
      | Some (prev, s1) \<Rightarrow>
          Some (prev, s1\<lparr>sd_writeOlds := note_read addr slot prev (sd_writeOlds s1),
                         sd_writes := note_write addr slot v (sd_writes s1)\<rparr>))"

definition Sim_GetTransientState :: "address \<Rightarrow> hash \<Rightarrow> 'd SimulationStateDB \<Rightarrow> hash" where
  "Sim_GetTransientState addr key s = mgetd 0 (mgetd [] (sd_transient s) addr) key"

definition Sim_SetTransientState :: "address \<Rightarrow> hash \<Rightarrow> hash \<Rightarrow> 'd SimulationStateDB \<Rightarrow> 'd SimulationStateDB" where
  "Sim_SetTransientState addr key v s = s\<lparr>sd_transient := note_write addr key v (sd_transient s)\<rparr>"

definition Sim_SelfDestruct :: "'d orch_env \<Rightarrow> address \<Rightarrow> 'd SimulationStateDB \<Rightarrow> (u256 \<times> 'd SimulationStateDB) option" where
  "Sim_SelfDestruct E addr s = update_account E addr ac_Balance (\<lambda>acct. acct\<lparr>ac_Destructed := True, ac_Balance := 0\<rparr>) s"

definition Sim_HasSelfDestructed :: "address \<Rightarrow> 'd SimulationStateDB \<Rightarrow> bool" where
  "Sim_HasSelfDestructed addr s = (case mget (sd_accounts s) addr of Some acct \<Rightarrow> ac_Destructed acct | None \<Rightarrow> False)"

definition Sim_SelfDestruct6780 :: "'d orch_env \<Rightarrow> address \<Rightarrow> 'd SimulationStateDB
    \<Rightarrow> ((u256 \<times> bool) \<times> 'd SimulationStateDB) option" where
  "Sim_SelfDestruct6780 E addr s =
     update_account E addr (\<lambda>acct. (ac_Balance acct, ac_Created acct))
       (\<lambda>acct. if ac_Created acct then acct\<lparr>ac_Destructed := True, ac_Balance := 0\<rparr> else acct) s"

text \<open>\<open>uint256.Int.Sign\<close> reads the number as a signed one.\<close>

definition Sim_Exist :: "'d orch_env \<Rightarrow> address \<Rightarrow> 'd SimulationStateDB \<Rightarrow> (bool \<times> 'd SimulationStateDB) option" where
  "Sim_Exist E addr s =
     read_account E addr (\<lambda>acct. 0 < ac_Nonce acct \<or> ac_Balance acct \<noteq> 0 \<and> \<not> bit (ac_Balance acct) 255 \<or> 0 < length (ac_Code acct)) s"

definition Sim_Empty :: "'d orch_env \<Rightarrow> address \<Rightarrow> 'd SimulationStateDB \<Rightarrow> (bool \<times> 'd SimulationStateDB) option" where
  "Sim_Empty E addr s = read_account E addr (\<lambda>acct. ac_Nonce acct = 0 \<and> ac_Balance acct = 0 \<and> length (ac_Code acct) = 0) s"

fun add_all :: "(accessList \<Rightarrow> accessList option) list \<Rightarrow> accessList \<Rightarrow> accessList option" where
  "add_all [] al = Some al"
| "add_all (f # fs) al = (case f al of None \<Rightarrow> None | Some al1 \<Rightarrow> add_all fs al1)"

definition Sim_Prepare :: "address \<Rightarrow> address \<Rightarrow> address option \<Rightarrow> address list \<Rightarrow> (address \<times> hash list) list
    \<Rightarrow> 'd SimulationStateDB \<Rightarrow> 'd SimulationStateDB option" where
  "Sim_Prepare sender coinbase dest precompiles txAccesses s =
     (let add = (\<lambda>addr al. Some (snd (AddAddress addr al)));
          add_slot = (\<lambda>addr key al. map_option snd (AddSlot addr key al));
          al = add_all ([add sender] @ (case dest of None \<Rightarrow> [] | Some d \<Rightarrow> [add d]) @ [add coinbase] @ map add precompiles
                  @ concat (map (\<lambda>(addr, keys). add addr # map (add_slot addr) keys) txAccesses)) newAccessList
      in map_option (\<lambda>al. s\<lparr>sd_accessList := al\<rparr>) al)"

text \<open>
  A negative snapshot number panics. Slicing the logs beyond their length is taken as a panic; the
  invariant below shows that it does not happen.
\<close>

definition Sim_RevertToSnapshot :: "int \<Rightarrow> 'd SimulationStateDB \<Rightarrow> 'd SimulationStateDB option" where
  "Sim_RevertToSnapshot revid s =
     (if int (length (sd_snapshots s)) \<le> revid then Some s
      else if revid < 0 then None
      else let snap = sd_snapshots s ! nat revid
           in if length (sd_logs s) < sn_logsLen snap then None
              else Some (s\<lparr>sd_accounts := sn_accounts snap, sd_reads := sn_reads snap, sd_writes := sn_writes snap,
                     sd_refund := sn_refund snap, sd_logs := take (sn_logsLen snap) (sd_logs s),
                     sd_snapshots := take (nat revid) (sd_snapshots s)\<rparr>))"

definition Sim_Snapshot :: "'d SimulationStateDB \<Rightarrow> int \<times> 'd SimulationStateDB" where
  "Sim_Snapshot s =
     (int (length (sd_snapshots s)),
      s\<lparr>sd_snapshots := sd_snapshots s @ [\<lparr>sn_accounts = sd_accounts s, sn_reads = sd_reads s, sn_writes = sd_writes s,
           sn_refund = sd_refund s, sn_logsLen = length (sd_logs s)\<rparr>]\<rparr>)"

definition Sim_AddLog :: "byte list \<Rightarrow> 'd SimulationStateDB \<Rightarrow> 'd SimulationStateDB" where
  "Sim_AddLog log s = s\<lparr>sd_logs := sd_logs s @ [log]\<rparr>"

definition Sim_GetLogs :: "'d SimulationStateDB \<Rightarrow> byte list list" where
  "Sim_GetLogs s = sd_logs s"

definition HasFetchErrors :: "'d SimulationStateDB \<Rightarrow> bool" where
  "HasFetchErrors s = (0 < length (sd_fetchErrors s))"

definition GetFetchErrors :: "'d SimulationStateDB \<Rightarrow> string list" where
  "GetFetchErrors s = sd_fetchErrors s"

subsection \<open>The read-write set\<close>

definition rw_addrs :: "'d SimulationStateDB \<Rightarrow> address list" where
  "rw_addrs s = mkeys (fold (\<lambda>addr m. mput addr True m)
     (mkeys (sd_reads s) @ mkeys (sd_writes s) @
      mkeys (filter (\<lambda>(addr, acct). ac_Balance acct \<noteq> ac_OriginalBalance acct) (sd_accounts s))) ([] :: (address, bool) gomap))"

definition rw_variable :: "(hash \<Rightarrow> byte list) \<Rightarrow> address \<Rightarrow> int \<Rightarrow> 'd SimulationStateDB \<Rightarrow> RwVariable" where
  "rw_variable hashBytes addr shardID s =
     \<lparr>rw_Address = addr,
      rw_ReferenceBlock = \<lparr>ShardNum = shardID, BlockHash = 0, BlockHeight = 0\<rparr>,
      rw_ReadSet = map (\<lambda>(slot, v). \<lparr>rs_Slot = slot, rs_Value = hashBytes v, rs_Proof = []\<rparr>) (mgetd [] (sd_reads s) addr),
      rw_WriteSet = map (\<lambda>(slot, newVal). \<lparr>ws_Slot = slot,
          ws_OldValue = hashBytes (case first_seen (sd_writeOlds s) addr slot of Some v \<Rightarrow> v | None \<Rightarrow> 0),
          ws_NewValue = hashBytes newVal\<rparr>) (mgetd [] (sd_writes s) addr)\<rparr>"

fun build_loop :: "(hash \<Rightarrow> byte list) \<Rightarrow> address list \<Rightarrow> 'd SimulationStateDB \<Rightarrow> RwVariable list option" where
  "build_loop hashBytes [] s = Some []"
| "build_loop hashBytes (addr # addrs) s =
     (case (case mget (sd_accounts s) addr of Some acct \<Rightarrow> Some (ac_ShardID acct) | None \<Rightarrow> owner_shard addr s) of
        None \<Rightarrow> None
      | Some shardID \<Rightarrow>
          (case build_loop hashBytes addrs s of
             None \<Rightarrow> None
           | Some rest \<Rightarrow> Some (rw_variable hashBytes addr shardID s # rest)))"

definition BuildRwSet :: "(hash \<Rightarrow> byte list) \<Rightarrow> 'd SimulationStateDB \<Rightarrow> RwVariable list option" where
  "BuildRwSet hashBytes s = build_loop hashBytes (rw_addrs s) s"

subsection \<open>The database for the EVM\<close>

definition ret :: "('r \<Rightarrow> vmres) \<Rightarrow> ('r \<times> 's) option \<Rightarrow> (vmres \<times> 's) option" where
  "ret f x = map_option (\<lambda>(r, s). (f r, s)) x"

fun sim_step :: "'d orch_env \<Rightarrow> vmcall \<Rightarrow> 'd SimulationStateDB \<Rightarrow> (vmres \<times> 'd SimulationStateDB) option" where
  "sim_step E (CreateAccount a) s = map_option (Pair RUnit) (Sim_CreateAccount a s)"
| "sim_step E (CreateContract a) s = map_option (Pair RUnit) (Sim_CreateContract a s)"
| "sim_step E (SubBalance a v) s = ret RU256 (Sim_SubBalance E a v s)"
| "sim_step E (AddBalance a v) s = ret RU256 (Sim_AddBalance E a v s)"
| "sim_step E (GetBalance a) s = ret RU256 (Sim_GetBalance E a s)"
| "sim_step E (GetNonce a) s = ret RU64 (Sim_GetNonce E a s)"
| "sim_step E (SetNonce a n) s = map_option (Pair RUnit) (Sim_SetNonce E a n s)"
| "sim_step E (GetCodeHash a) s = ret RHash (Sim_GetCodeHash E a s)"
| "sim_step E (GetCode a) s = ret RBytes (Sim_GetCode E a s)"
| "sim_step E (SetCode a code) s = ret RBytes (Sim_SetCode E a code s)"
| "sim_step E (GetCodeSize a) s = ret RInt (Sim_GetCodeSize E a s)"
| "sim_step E (AddRefund g) s = Some (RUnit, Sim_AddRefund g s)"
| "sim_step E (SubRefund g) s = Some (RUnit, Sim_SubRefund g s)"
| "sim_step E GetRefund s = Some (RU64 (sd_refund s), s)"
| "sim_step E (GetCommittedState a k) s = Some (RUnit, s)"
| "sim_step E (GetState a k) s = ret RHash (Sim_GetState E a k s)"
| "sim_step E (GetStateAndCommittedState a k) s = ret (\<lambda>(cur, com). RHashes cur com) (Sim_GetStateAndCommittedState E a k s)"
| "sim_step E (SetState a k v) s = ret RHash (Sim_SetState E a k v s)"
| "sim_step E (GetStorageRoot a) s = Some (RHash 0, s)"
| "sim_step E (GetTransientState a k) s = Some (RHash (Sim_GetTransientState a k s), s)"
| "sim_step E (SetTransientState a k v) s = Some (RUnit, Sim_SetTransientState a k v s)"
| "sim_step E (SelfDestruct a) s = ret RU256 (Sim_SelfDestruct E a s)"
| "sim_step E (HasSelfDestructed a) s = Some (RBool (Sim_HasSelfDestructed a s), s)"
| "sim_step E (SelfDestruct6780 a) s = ret (\<lambda>(v, b). RU256Bool v b) (Sim_SelfDestruct6780 E a s)"
| "sim_step E (Exist a) s = ret RBool (Sim_Exist E a s)"
| "sim_step E (Empty a) s = ret RBool (Sim_Empty E a s)"
| "sim_step E (AddressInAccessList a) s = Some (RBool (ContainsAddress a (sd_accessList s)), s)"
| "sim_step E (SlotInAccessList a k) s = map_option (\<lambda>(x, y). (RBools x y, s)) (Contains a k (sd_accessList s))"
| "sim_step E (AddAddressToAccessList a) s = Some (RUnit, s\<lparr>sd_accessList := snd (AddAddress a (sd_accessList s))\<rparr>)"
| "sim_step E (AddSlotToAccessList a k) s =
     map_option (\<lambda>(_, al). (RUnit, s\<lparr>sd_accessList := al\<rparr>)) (AddSlot a k (sd_accessList s))"
| "sim_step E (Prepare sender coinbase dest precompiles txAccesses) s =
     map_option (Pair RUnit) (Sim_Prepare sender coinbase dest precompiles txAccesses s)"
| "sim_step E (RevertToSnapshot n) s = map_option (Pair RUnit) (Sim_RevertToSnapshot n s)"
| "sim_step E Snapshot s = (case Sim_Snapshot s of (n, s1) \<Rightarrow> Some (RInt n, s1))"
| "sim_step E (AddLog l) s = Some (RUnit, Sim_AddLog l s)"
| "sim_step E (AddPreimage h b) s = Some (RUnit, s)"
| "sim_step E (Finalise b) s = Some (RUnit, s)"

definition sim_db :: "'d orch_env \<Rightarrow> 'd SimulationStateDB option vmdb" where
  "sim_db E c so =
     (case so of
        None \<Rightarrow> (RUnit, None)
      | Some s \<Rightarrow> (case sim_step E c s of None \<Rightarrow> (RUnit, None) | Some (r, s1) \<Rightarrow> (r, Some s1)))"

subsection \<open>Access lists as sets\<close>

text \<open>
  The specification of an access list is a set of addresses and a set of slots. The indices are in
  range, and no two addresses share one.
\<close>

definition al_wf :: "accessList \<Rightarrow> bool" where
  "al_wf al \<longleftrightarrow> (\<forall>a i. mget (al_addresses al) a = Some i \<longrightarrow> i = -1 \<or> 0 \<le> i \<and> nat i < length (al_slots al))
     \<and> (\<forall>a b i. mget (al_addresses al) a = Some i \<longrightarrow> mget (al_addresses al) b = Some i \<longrightarrow> i \<noteq> -1 \<longrightarrow> a = b)"

definition al_addrs :: "accessList \<Rightarrow> address set" where
  "al_addrs al = {a. mget (al_addresses al) a \<noteq> None}"

definition al_pairs :: "accessList \<Rightarrow> (address \<times> hash) set" where
  "al_pairs al = {(a, k). \<exists>i. mget (al_addresses al) a = Some (int i) \<and> i < length (al_slots al) \<and> mget (al_slots al ! i) k \<noteq> None}"

lemma al_wfI:
  assumes "\<And>a i. mget (al_addresses al) a = Some i \<Longrightarrow> i = -1 \<or> 0 \<le> i \<and> nat i < length (al_slots al)"
    and "\<And>a b i. mget (al_addresses al) a = Some i \<Longrightarrow> mget (al_addresses al) b = Some i \<Longrightarrow> i \<noteq> -1 \<Longrightarrow> a = b"
  shows "al_wf al"
  using assms unfolding al_wf_def by blast

lemma al_wfD:
  assumes "al_wf al" and "mget (al_addresses al) a = Some i"
  shows "i = -1 \<or> 0 \<le> i \<and> nat i < length (al_slots al)"
    and "mget (al_addresses al) b = Some i \<Longrightarrow> i \<noteq> -1 \<Longrightarrow> a = b"
  using assms unfolding al_wf_def by blast+

lemma newAccessList_spec: "al_wf newAccessList" "al_addrs newAccessList = {}" "al_pairs newAccessList = {}"
  by (auto simp: newAccessList_def al_wf_def al_addrs_def al_pairs_def)

lemma AddAddress_spec:
  assumes "al_wf al"
  shows "al_wf (snd (AddAddress a al))" "fst (AddAddress a al) \<longleftrightarrow> a \<notin> al_addrs al"
    "al_addrs (snd (AddAddress a al)) = insert a (al_addrs al)" "al_pairs (snd (AddAddress a al)) = al_pairs al"
proof -
  show "al_wf (snd (AddAddress a al))"
    using assms by (auto simp: AddAddress_def al_wf_def gomap_simps)
qed (auto simp: AddAddress_def al_addrs_def al_pairs_def gomap_simps split: if_splits)

lemma new_slot_map_spec:
  assumes "al_wf al" and "mget (al_addresses al) a = None \<or> mget (al_addresses al) a = Some (-1)"
  shows "al_wf (new_slot_map a k al)" "al_addrs (new_slot_map a k al) = insert a (al_addrs al)"
    "al_pairs (new_slot_map a k al) = insert (a, k) (al_pairs al)" "(a, k) \<notin> al_pairs al"
proof -
  have range: "i = -1 \<or> 0 \<le> i \<and> nat i < length (al_slots al)" if "mget (al_addresses al) b = Some i" for b i
    using al_wfD(1) [OF assms(1) that] .
  show "al_wf (new_slot_map a k al)"
  proof (rule al_wfI)
    show "i = -1 \<or> 0 \<le> i \<and> nat i < length (al_slots (new_slot_map a k al))"
      if "mget (al_addresses (new_slot_map a k al)) b = Some i" for b i
      using that range [of b i] by (auto simp: new_slot_map_def gomap_simps split: if_splits)
    show "b = c" if "mget (al_addresses (new_slot_map a k al)) b = Some i" "mget (al_addresses (new_slot_map a k al)) c = Some i"
      "i \<noteq> -1" for b c i
      using that range [of b i] range [of c i] al_wfD(2) [OF assms(1), of b i c]
      by (auto simp: new_slot_map_def gomap_simps split: if_splits)
  qed
  show "(a, k) \<notin> al_pairs al"
    using assms(2) by (auto simp: al_pairs_def)
  show "al_pairs (new_slot_map a k al) = insert (a, k) (al_pairs al)"
  proof (rule set_eqI)
    fix x :: "address \<times> hash"
    obtain b j where x: "x = (b, j)"
      by (cases x)
    show "x \<in> al_pairs (new_slot_map a k al) \<longleftrightarrow> x \<in> insert (a, k) (al_pairs al)"
      using assms(2) range [of b] unfolding x
      by (cases "b = a") (auto simp: al_pairs_def new_slot_map_def gomap_simps nth_append)
  qed
qed (auto simp: new_slot_map_def al_addrs_def gomap_simps)

lemma AddSlot_spec:
  assumes "al_wf al"
  shows "\<exists>al1. AddSlot a k al = Some ((a \<notin> al_addrs al, (a, k) \<notin> al_pairs al), al1) \<and> al_wf al1
    \<and> al_addrs al1 = insert a (al_addrs al) \<and> al_pairs al1 = insert (a, k) (al_pairs al)"
proof (cases "mget (al_addresses al) a = None \<or> mget (al_addresses al) a = Some (-1)")
  case True
  then show ?thesis
    using new_slot_map_spec [OF assms True, of k] by (auto simp: AddSlot_def al_addrs_def)
next
  case False
  then obtain i where i: "mget (al_addresses al) a = Some (int i)" "i < length (al_slots al)"
    using al_wfD(1) [OF assms] by (metis int_nat_eq not_None_eq)
  then have pair: "(a, k) \<in> al_pairs al \<longleftrightarrow> mget (al_slots al ! i) k \<noteq> None" and addr: "a \<in> al_addrs al"
    by (auto simp: al_pairs_def al_addrs_def)
  let ?al = "al\<lparr>al_slots := (al_slots al)[i := mput k () (al_slots al ! i)]\<rparr>"
  have own: "mget (al_addresses al) b = Some (int i) \<Longrightarrow> b = a" for b
    using al_wfD(2) [OF assms i(1), of b] by simp
  show ?thesis
  proof (cases "mget (al_slots al ! i) k = None")
    case True
    have "(b, j) \<in> al_pairs ?al \<longleftrightarrow> (b, j) = (a, k) \<or> (b, j) \<in> al_pairs al" for b j
    proof (cases "b = a")
      case True
      with i show ?thesis by (simp add: al_pairs_def mget_mput)
    next
      case False
      with own have "mget (al_addresses al) b \<noteq> Some (int i)" by blast
      with False show ?thesis
        by (simp add: al_pairs_def) (metis nth_list_update_neq)
    qed
    then have "al_pairs ?al = insert (a, k) (al_pairs al)"
      by auto
    moreover have "al_wf ?al"
      using assms by (simp add: al_wf_def)
    ultimately show ?thesis
      using True i pair addr by (intro exI [of _ ?al]) (auto simp: AddSlot_def al_addrs_def)
  next
    case False
    then show ?thesis
      using i pair addr assms by (intro exI [of _ al]) (auto simp: AddSlot_def)
  qed
qed

lemma Contains_spec:
  assumes "al_wf al"
  shows "Contains a k al = Some (a \<in> al_addrs al, (a, k) \<in> al_pairs al)"
proof (cases "mget (al_addresses al) a = None \<or> mget (al_addresses al) a = Some (-1)")
  case False
  then obtain i where "mget (al_addresses al) a = Some (int i)" "i < length (al_slots al)"
    using al_wfD(1) [OF assms] by (metis int_nat_eq not_None_eq)
  then show ?thesis
    by (auto simp: Contains_def al_addrs_def al_pairs_def)
qed (auto simp: Contains_def al_addrs_def al_pairs_def)

text \<open>C28. The access list of a simulation implements a set of addresses and a set of slots: every
  operation keeps its indices consistent and never panics, adding is insertion, the returned flags say
  what was new, and the tests are membership.\<close>

theorem access_list_refines:
  assumes "al_wf al"
  shows "al_wf (snd (AddAddress a al))
    \<and> (fst (AddAddress a al) \<longleftrightarrow> a \<notin> al_addrs al)
    \<and> al_addrs (snd (AddAddress a al)) = insert a (al_addrs al) \<and> al_pairs (snd (AddAddress a al)) = al_pairs al
    \<and> (\<exists>al1. AddSlot a k al = Some ((a \<notin> al_addrs al, (a, k) \<notin> al_pairs al), al1) \<and> al_wf al1
        \<and> al_addrs al1 = insert a (al_addrs al) \<and> al_pairs al1 = insert (a, k) (al_pairs al))
    \<and> (ContainsAddress a al \<longleftrightarrow> a \<in> al_addrs al)
    \<and> Contains a k al = Some (a \<in> al_addrs al, (a, k) \<in> al_pairs al)"
  by (intro conjI AddAddress_spec [OF assms] AddSlot_spec [OF assms] Contains_spec [OF assms])
    (simp add: ContainsAddress_def al_addrs_def)

theorem access_list_refines_witness:
  "\<exists>al1. AddSlot 7 1 (snd (AddAddress 7 newAccessList)) = Some ((False, True), al1) \<and> al_pairs al1 = {(7, 1)}"
proof -
  let ?al = "snd (AddAddress 7 newAccessList)"
  have "al_wf ?al" "al_addrs ?al = {7}" "al_pairs ?al = {}"
    using AddAddress_spec [OF newAccessList_spec(1), of 7] by (simp_all add: newAccessList_spec)
  then show ?thesis
    using access_list_refines [of ?al 7 1] by auto
qed
subsection \<open>A simulation over shards that do not change\<close>

text \<open>
  What the simulation relies on: every shard answers its requests from one ledger \<open>R\<close>. Then the
  database is a copy of that ledger with the changes of the run on top.
\<close>

definition owner :: "int \<Rightarrow> address \<Rightarrow> int" where
  "owner N a = int (last_byte a) mod N"

locale stable_remote =
  fixes E :: "'d orch_env" and N :: int and R :: ledger
  assumes shards: "0 < N"
    and fetch_answer: "\<exists>resp r. oe_http E n (fetch_request (owner N a) a) = Inr resp \<and> op_readErr resp = None
          \<and> op_fetch resp = Inr r \<and> fs_Success r
          \<and> (case fs_Balance r of None \<Rightarrow> bal R a = 0 | Some i \<Rightarrow> oe_MustFromBig E i = Some (bal R a))"
    and storage_answer: "\<exists>resp v. oe_http E n (storage_request E (owner N a) a k False) = Inr resp \<and> op_status resp = 200
          \<and> op_value resp = Inr v \<and> oe_HexToHash E v = sto R a k"

definition overlay :: "ledger \<Rightarrow> (address, accountState) gomap \<Rightarrow> slot_values \<Rightarrow> ledger" where
  "overlay R A w = \<lparr>bal = (\<lambda>a. case mget A a of Some acct \<Rightarrow> ac_Balance acct | None \<Rightarrow> bal R a),
     sto = (\<lambda>a k. case first_seen w a k of Some v \<Rightarrow> v | None \<Rightarrow> sto R a k)\<rparr>"

fun sim_view :: "ledger \<Rightarrow> 'd SimulationStateDB option \<Rightarrow> ledger" where
  "sim_view R None = R"
| "sim_view R (Some s) = overlay R (sd_accounts s) (sd_writes s)"

fun sim_saved :: "ledger \<Rightarrow> 'd SimulationStateDB option \<Rightarrow> int \<Rightarrow> ledger option" where
  "sim_saved R None n = None"
| "sim_saved R (Some s) n =
     (if 0 \<le> n \<and> nat n < length (sd_snapshots s)
      then Some (overlay R (sn_accounts (sd_snapshots s ! nat n)) (sn_writes (sd_snapshots s ! nat n)))
      else None)"

text \<open>The part of the invariant that snapshots share with the database.\<close>

definition layer_ok :: "int \<Rightarrow> ledger \<Rightarrow> slot_values \<Rightarrow> (address, accountState) gomap \<Rightarrow> slot_values \<Rightarrow> slot_values \<Rightarrow> bool" where
  "layer_ok N R olds A r w \<longleftrightarrow>
     (\<forall>a acct. mget A a = Some acct \<longrightarrow> ac_ShardID acct = owner N a \<and> (ac_Created acct \<or> ac_OriginalBalance acct = bal R a))
     \<and> (\<forall>a k v. first_seen r a k = Some v \<longrightarrow> v = sto R a k)
     \<and> (\<forall>a k. first_seen w a k \<noteq> None \<longrightarrow> first_seen olds a k \<noteq> None)
     \<and> wfmap A \<and> (\<forall>a. wfmap (mgetd [] r a)) \<and> (\<forall>a. wfmap (mgetd [] w a))"

definition sim_inv :: "int \<Rightarrow> ledger \<Rightarrow> 'd SimulationStateDB \<Rightarrow> bool" where
  "sim_inv N R s \<longleftrightarrow> sf_numShards (sd_fetcher s) = N \<and> sd_fetchErrors s = [] \<and> al_wf (sd_accessList s)
     \<and> (\<forall>a k v. first_seen (sd_writeOlds s) a k = Some v \<longrightarrow> v = sto R a k)
     \<and> layer_ok N R (sd_writeOlds s) (sd_accounts s) (sd_reads s) (sd_writes s)
     \<and> (\<forall>sn \<in> set (sd_snapshots s). layer_ok N R (sd_writeOlds s) (sn_accounts sn) (sn_reads sn) (sn_writes sn))
     \<and> sorted (map sn_logsLen (sd_snapshots s) @ [length (sd_logs s)])"

fun sim_ok :: "int \<Rightarrow> ledger \<Rightarrow> 'd SimulationStateDB option \<Rightarrow> bool" where
  "sim_ok N R None \<longleftrightarrow> False"
| "sim_ok N R (Some s) \<longleftrightarrow> sim_inv N R s"

lemma new_sim_inv: "sim_inv (sf_numShards sf) R (NewSimulationStateDB txID sf)"
  by (simp add: sim_inv_def layer_ok_def NewSimulationStateDB_def newAccessList_spec first_seen_def mgetd_def)

lemma new_sim_view: "sim_view R (Some (NewSimulationStateDB txID sf)) = R"
  by (simp add: NewSimulationStateDB_def overlay_def first_seen_def mgetd_def)

text \<open>The parts of the state that the invariant, the view and the snapshots depend on.\<close>

definition same_layers :: "'d SimulationStateDB \<Rightarrow> 'd SimulationStateDB \<Rightarrow> bool" where
  "same_layers s s1 \<longleftrightarrow> sd_writes s1 = sd_writes s \<and> sd_reads s1 = sd_reads s \<and> sd_writeOlds s1 = sd_writeOlds s
     \<and> sd_snapshots s1 = sd_snapshots s \<and> sd_accessList s1 = sd_accessList s \<and> sd_logs s1 = sd_logs s
     \<and> sd_fetchErrors s1 = sd_fetchErrors s \<and> sd_txID s1 = sd_txID s \<and> sf_numShards (sd_fetcher s1) = sf_numShards (sd_fetcher s)"

lemma sim_saved_cong: "sd_snapshots s1 = sd_snapshots s \<Longrightarrow> sim_saved R (Some s1) = sim_saved R (Some s)"
  by (rule ext) simp

lemma layer_ok_account:
  "layer_ok N R olds A r w \<Longrightarrow> ac_ShardID acct = owner N a \<Longrightarrow> ac_Created acct \<or> ac_OriginalBalance acct = bal R a \<Longrightarrow>
     layer_ok N R olds (mput a acct A) r w"
  by (auto simp: layer_ok_def gomap_simps)

lemma overlay_account: "overlay R (mput a acct A) w = (overlay R A w)\<lparr>bal := (bal (overlay R A w))(a := ac_Balance acct)\<rparr>"
  by (auto simp: overlay_def gomap_simps fun_eq_iff)

lemma sf_numShards_persist [simp]: "sf_numShards (persist_code E a code sf) = sf_numShards sf"
  by (simp add: persist_code_def)

lemma sf_numShards_cache [simp]: "sf_numShards (cache_state t a st sf) = sf_numShards sf"
  by (simp add: cache_state_def)

lemma sf_numShards_FetchState: "FetchState E t i a sf = (out, sf1) \<Longrightarrow> sf_numShards sf1 = sf_numShards sf"
  by (auto simp: FetchState_def fetch_do_def Let_def split: if_splits sum.splits option.splits)

lemma sf_numShards_getState: "getState E t i a sf = (out, sf1) \<Longrightarrow> sf_numShards sf1 = sf_numShards sf"
  by (auto simp: getState_def split: option.splits prod.splits dest: sf_numShards_FetchState)

lemma sf_numShards_storage: "getStorageAtWithProof E t i a k p sf = (out, sf1) \<Longrightarrow> sf_numShards sf1 = sf_numShards sf"
  by (auto simp: getStorageAtWithProof_def fetch_do_def Let_def split: sum.splits prod.splits dest: sf_numShards_getState)

context stable_remote
begin

lemma owner_range: "0 \<le> owner N a" "owner N a < N"
  using shards by (simp_all add: owner_def)

lemma owner_AddressToShard: "AddressToShard N a = Some (owner N a)"
  using shards by (simp add: AddressToShard_def owner_def)

lemma FetchState_answer:
  assumes "sf_numShards sf = N"
  obtains r sf1 where "FetchState E t (owner N a) a sf = ((Some r, None), sf1)"
    "case fs_Balance r of None \<Rightarrow> bal R a = 0 | Some i \<Rightarrow> oe_MustFromBig E i = Some (bal R a)"
    "sf_numShards sf1 = N"
proof -
  obtain resp r where "oe_http E (length (sf_sent sf)) (fetch_request (owner N a) a) = Inr resp" "op_readErr resp = None"
    "op_fetch resp = Inr r" "fs_Success r"
    and b: "case fs_Balance r of None \<Rightarrow> bal R a = 0 | Some i \<Rightarrow> oe_MustFromBig E i = Some (bal R a)"
    using fetch_answer by blast
  moreover have "\<not> (owner N a < 0 \<or> sf_numShards sf \<le> owner N a)"
    using owner_range [of a] assms by simp
  ultimately have "\<exists>sf1. FetchState E t (owner N a) a sf = ((Some r, None), sf1)"
    by (simp add: FetchState_def fetch_do_def Let_def)
  then show ?thesis
    using that b sf_numShards_FetchState assms by blast
qed

lemma storage_fetched:
  assumes "sf_numShards sf = N"
  obtains sf1 where "fetcher_GetStorageAt E t (owner N a) a k sf = (Inr (sto R a k), sf1)" "sf_numShards sf1 = N"
proof -
  obtain r sf0 where "FetchState E t (owner N a) a sf = ((Some r, None), sf0)"
    by (rule FetchState_answer [OF assms, of t a])
  then have "\<exists>st sf1. getState E t (owner N a) a sf = (Inr st, sf1)"
    by (cases "cached t a sf") (simp_all add: getState_def)
  then obtain st sf1 where "getState E t (owner N a) a sf = (Inr st, sf1)"
    by blast
  moreover obtain resp v where "oe_http E (length (sf_sent sf1)) (storage_request E (owner N a) a k False) = Inr resp"
    "op_status resp = 200" "op_value resp = Inr v" "oe_HexToHash E v = sto R a k"
    using storage_answer by blast
  ultimately have "\<exists>sf2. fetcher_GetStorageAt E t (owner N a) a k sf = (Inr (sto R a k), sf2)"
    by (simp add: fetcher_GetStorageAt_def getStorageAtWithProof_def fetch_do_def Let_def)
  then show ?thesis
    using that sf_numShards_storage assms unfolding fetcher_GetStorageAt_def by blast
qed

text \<open>Getting an account changes nothing that is visible.\<close>

lemma account_fetched:
  assumes "sim_inv N R s"
  obtains acct s1 where "getOrFetchAccount E a s = Some ((acct, None), s1)" "sim_inv N R s1" "same_layers s s1"
    "sim_view R (Some s1) = sim_view R (Some s)" "mget (sd_accounts s1) a = Some acct"
    "ac_Balance acct = bal (sim_view R (Some s)) a" "ac_ShardID acct = owner N a"
    "ac_Created acct \<or> ac_OriginalBalance acct = bal R a"
proof (cases "mget (sd_accounts s) a")
  case (Some acct)
  then show ?thesis
    using that [of acct s] assms by (auto simp: getOrFetchAccount_def same_layers_def overlay_def sim_inv_def layer_ok_def)
next
  case None
  have N: "sf_numShards (sd_fetcher s) = N"
    using assms by (simp add: sim_inv_def)
  obtain r sf where f: "FetchState E (sd_txID s) (owner N a) a (sd_fetcher s) = ((Some r, None), sf)"
    "case fs_Balance r of None \<Rightarrow> bal R a = 0 | Some i \<Rightarrow> oe_MustFromBig E i = Some (bal R a)" "sf_numShards sf = N"
    by (rule FetchState_answer [OF N, of "sd_txID s" a])
  obtain acct where acct: "fetched_account E (owner N a) r = Some acct" "ac_Balance acct = bal R a" "ac_OriginalBalance acct = bal R a"
    "ac_ShardID acct = owner N a"
    using f(2) by (auto simp: fetched_account_def Let_def split: option.splits)
  let ?s = "s\<lparr>sd_fetcher := sf, sd_accounts := mput a acct (sd_accounts s)\<rparr>"
  have "getOrFetchAccount E a s = Some ((acct, None), ?s)"
    using None f acct N by (simp add: getOrFetchAccount_def owner_shard_def owner_AddressToShard)
  moreover have "sim_inv N R ?s"
    using assms f(3) acct layer_ok_account [of N R "sd_writeOlds s" "sd_accounts s" "sd_reads s" "sd_writes s" acct a]
    by (simp add: sim_inv_def)
  moreover have "sim_view R (Some ?s) = sim_view R (Some s)"
    using acct(2) None by (auto simp: overlay_def gomap_simps fun_eq_iff)
  ultimately show ?thesis
    using that [of acct ?s] acct f(3) N None by (simp add: same_layers_def mget_mput overlay_def)
qed

end

lemma wfmap_note_write: "(\<And>a. wfmap (mgetd [] m a)) \<Longrightarrow> wfmap (mgetd [] (note_write a k v m) b)"
  by (simp add: note_write_def Let_def mgetd_mput wfmap_mput)

lemma layer_ok_read:
  "layer_ok N R olds A r w \<Longrightarrow> layer_ok N R olds A (note_write a k (sto R a k) r) w"
  by (auto simp: layer_ok_def first_seen_note_write wfmap_note_write split: if_splits)

lemma layer_ok_olds:
  "layer_ok N R olds A r w \<Longrightarrow> layer_ok N R (note_read a k v olds) A r w"
  by (auto simp: layer_ok_def first_seen_note_read)

lemma layer_ok_write:
  "layer_ok N R olds A r w \<Longrightarrow> first_seen olds a k \<noteq> None \<Longrightarrow> layer_ok N R olds A r (note_write a k v w)"
  by (auto simp: layer_ok_def first_seen_note_write wfmap_note_write split: if_splits)

lemma overlay_write: "overlay R A (note_write a k v w) =
    (overlay R A w)\<lparr>sto := (sto (overlay R A w))(a := (sto (overlay R A w) a)(k := v))\<rparr>"
  by (auto simp: overlay_def first_seen_note_write fun_eq_iff)

context stable_remote
begin

lemma read_account_law:
  assumes "sim_inv N R s"
  obtains acct s1 where "read_account E a f s = Some (f acct, s1)" "sim_inv N R s1" "same_layers s s1"
    "sim_view R (Some s1) = sim_view R (Some s)" "ac_Balance acct = bal (sim_view R (Some s)) a"
proof -
  obtain acct s1 where s1: "getOrFetchAccount E a s = Some ((acct, None), s1)" "sim_inv N R s1" "same_layers s s1"
    "sim_view R (Some s1) = sim_view R (Some s)" "ac_Balance acct = bal (sim_view R (Some s)) a"
    by (rule account_fetched [OF assms, of a])
  then show ?thesis
    using that [of acct s1] by (simp add: read_account_def)
qed

lemma update_account_law:
  assumes "sim_inv N R s"
    and g: "\<And>acct. ac_ShardID (g acct) = ac_ShardID acct \<and> ac_Created (g acct) = ac_Created acct
          \<and> ac_OriginalBalance (g acct) = ac_OriginalBalance acct"
  obtains acct s1 where "update_account E a f g s = Some (f acct, s1)" "sim_inv N R s1" "same_layers s s1"
    "sim_view R (Some s1) = (sim_view R (Some s))\<lparr>bal := (bal (sim_view R (Some s)))(a := ac_Balance (g acct))\<rparr>"
    "ac_Balance acct = bal (sim_view R (Some s)) a"
proof -
  obtain acct s1 where s1: "getOrFetchAccount E a s = Some ((acct, None), s1)" "sim_inv N R s1" "same_layers s s1"
    "sim_view R (Some s1) = sim_view R (Some s)" "ac_Balance acct = bal (sim_view R (Some s)) a" "ac_ShardID acct = owner N a"
    "ac_Created acct \<or> ac_OriginalBalance acct = bal R a"
    by (rule account_fetched [OF assms(1), of a])
  let ?s = "s1\<lparr>sd_accounts := mput a (g acct) (sd_accounts s1)\<rparr>"
  have "update_account E a f g s = Some (f acct, ?s)"
    using s1(1) by (simp add: update_account_def)
  moreover have "sim_inv N R ?s"
    using s1(2,6,7) g [of acct] layer_ok_account [of N R "sd_writeOlds s1" "sd_accounts s1" "sd_reads s1" "sd_writes s1" "g acct" a]
    by (simp add: sim_inv_def)
  moreover have "same_layers s ?s"
    using s1(3) by (simp add: same_layers_def)
  moreover have "sim_view R (Some ?s) = (sim_view R (Some s))\<lparr>bal := (bal (sim_view R (Some s)))(a := ac_Balance (g acct))\<rparr>"
    using s1(4) by (simp add: overlay_account)
  ultimately show ?thesis
    using that s1(5) by blast
qed

lemma GetState_law:
  assumes "sim_inv N R s"
  obtains s1 where "Sim_GetState E a k s = Some (sto (sim_view R (Some s)) a k, s1)" "sim_inv N R s1"
    "sim_view R (Some s1) = sim_view R (Some s)" "sd_snapshots s1 = sd_snapshots s"
    "sd_writes s1 = sd_writes s" "sd_writeOlds s1 = sd_writeOlds s"
proof (cases "first_seen (sd_writes s) a k = None \<and> first_seen (sd_reads s) a k = None")
  case False
  then have "Sim_GetState E a k s = Some (sto (sim_view R (Some s)) a k, s)"
    using assms by (auto simp: Sim_GetState_def overlay_def sim_inv_def layer_ok_def split: option.splits)
  then show ?thesis
    using that [of s] assms by (simp add: overlay_def)
next
  case True
  obtain acct s1 where s1: "getOrFetchAccount E a s = Some ((acct, None), s1)" "sim_inv N R s1" "same_layers s s1"
    "sim_view R (Some s1) = sim_view R (Some s)" "ac_ShardID acct = owner N a"
    by (rule account_fetched [OF assms, of a])
  have "sf_numShards (sd_fetcher s1) = N"
    using s1(2) by (simp add: sim_inv_def)
  then obtain sf where sf: "fetcher_GetStorageAt E (sd_txID s1) (owner N a) a k (sd_fetcher s1) = (Inr (sto R a k), sf)"
    "sf_numShards sf = N"
    by (rule storage_fetched)
  let ?s = "s1\<lparr>sd_fetcher := sf, sd_reads := note_write a k (sto R a k) (sd_reads s1)\<rparr>"
  have st: "sto (sim_view R (Some s)) a k = sto R a k"
    using True by (simp add: overlay_def)
  then have "Sim_GetState E a k s = Some (sto (sim_view R (Some s)) a k, ?s)"
    using True s1(1,5) sf(1) by (simp add: Sim_GetState_def Let_def)
  moreover have "sim_inv N R ?s"
    using s1(2) sf(2) by (auto simp: sim_inv_def layer_ok_read)
  moreover have "sim_view R (Some ?s) = sim_view R (Some s)"
    using s1(4) by simp
  ultimately show ?thesis
    using that [of ?s] s1(3) st by (simp add: same_layers_def)
qed

lemma SetState_law:
  assumes "sim_inv N R s"
  obtains r s1 where "Sim_SetState E a k v s = Some (r, s1)" "sim_inv N R s1" "sd_snapshots s1 = sd_snapshots s"
    "sim_view R (Some s1) = (sim_view R (Some s))\<lparr>sto := (sto (sim_view R (Some s)))(a := (sto (sim_view R (Some s)) a)(k := v))\<rparr>"
proof -
  obtain s1 where s1: "Sim_GetState E a k s = Some (sto (sim_view R (Some s)) a k, s1)" "sim_inv N R s1"
    "sim_view R (Some s1) = sim_view R (Some s)" "sd_snapshots s1 = sd_snapshots s"
    "sd_writes s1 = sd_writes s" "sd_writeOlds s1 = sd_writeOlds s"
    by (rule GetState_law [OF assms, of a k])
  have unwritten: "sto (sim_view R (Some s)) a k = sto R a k" if "first_seen (sd_writes s) a k = None"
    using that by (simp add: overlay_def)
  let ?p = "sto (sim_view R (Some s)) a k"
  let ?s = "s1\<lparr>sd_writeOlds := note_read a k ?p (sd_writeOlds s1), sd_writes := note_write a k v (sd_writes s1)\<rparr>"
  have set: "Sim_SetState E a k v s = Some (?p, ?s)"
    using s1(1) by (simp add: Sim_SetState_def)
  have "first_seen (sd_writes s) a k = None" if "first_seen (sd_writeOlds s) a k = None"
    using assms that unfolding sim_inv_def layer_ok_def by blast
  then have olds: "x = sto R b j" if "first_seen (note_read a k ?p (sd_writeOlds s1)) b j = Some x" for b j x
    using that unwritten s1(2,6) by (auto simp: first_seen_note_read sim_inv_def split: if_splits)
  have seen: "first_seen (note_read a k ?p (sd_writeOlds s1)) a k \<noteq> None"
    by (simp add: first_seen_note_read)
  have "sim_inv N R ?s"
    using s1(2) olds seen by (auto simp: sim_inv_def layer_ok_olds layer_ok_write)
  moreover have "sim_view R (Some ?s) = (sim_view R (Some s))\<lparr>sto := (sto (sim_view R (Some s)))(a := (sto (sim_view R (Some s)) a)(k := v))\<rparr>"
    using s1(3) by (simp add: overlay_write)
  ultimately show ?thesis
    using that [OF set] s1(4) by simp
qed

end

context stable_remote
begin

text \<open>What every call outside the snapshots does.\<close>

definition calls :: "vmcall \<Rightarrow> 'd SimulationStateDB \<Rightarrow> bool" where
  "calls c s \<longleftrightarrow> (\<exists>r s1. sim_step E c s = Some (r, s1) \<and> sim_inv N R s1 \<and> sd_snapshots s1 = sd_snapshots s
     \<and> (reads_only c \<longrightarrow> sim_view R (Some s1) = sim_view R (Some s))
     \<and> (\<not> storage_call c \<longrightarrow> sto (sim_view R (Some s1)) = sto (sim_view R (Some s))))"

lemma callsI:
  "sim_step E c s = Some (r, s1) \<Longrightarrow> sim_inv N R s1 \<Longrightarrow> sd_snapshots s1 = sd_snapshots s \<Longrightarrow>
   (reads_only c \<Longrightarrow> sim_view R (Some s1) = sim_view R (Some s)) \<Longrightarrow>
   (\<not> storage_call c \<Longrightarrow> sto (sim_view R (Some s1)) = sto (sim_view R (Some s))) \<Longrightarrow> calls c s"
  unfolding calls_def by blast

lemma calls_getter:
  assumes "sim_inv N R s" and "sim_step E c s = ret h (read_account E a f s)"
  shows "calls c s"
proof -
  obtain acct s1 where "read_account E a f s = Some (f acct, s1)" "sim_inv N R s1" "same_layers s s1"
    "sim_view R (Some s1) = sim_view R (Some s)"
    by (rule read_account_law [OF assms(1), of a f])
  then show ?thesis
    using assms(2) by (intro callsI [of c s "h (f acct)" s1]) (simp_all add: ret_def same_layers_def)
qed

lemma calls_setter:
  assumes "sim_inv N R s" and "sim_step E c s = ret h (update_account E a f g s)" and "\<not> reads_only c"
    and "\<And>acct. ac_ShardID (g acct) = ac_ShardID acct \<and> ac_Created (g acct) = ac_Created acct
          \<and> ac_OriginalBalance (g acct) = ac_OriginalBalance acct"
  shows "calls c s"
proof -
  obtain acct s1 where "update_account E a f g s = Some (f acct, s1)" "sim_inv N R s1" "same_layers s s1"
    "sim_view R (Some s1) = (sim_view R (Some s))\<lparr>bal := (bal (sim_view R (Some s)))(a := ac_Balance (g acct))\<rparr>"
    by (rule update_account_law [OF assms(1), of g a f]) (use assms(4) in auto)
  then show ?thesis
    using assms(2,3) by (intro callsI [of c s "h (f acct)" s1]) (simp_all add: ret_def same_layers_def)
qed

lemma calls_GetState:
  assumes "sim_inv N R s"
  shows "calls (GetState a k) s" "calls (GetStateAndCommittedState a k) s"
proof -
  obtain s1 where "Sim_GetState E a k s = Some (sto (sim_view R (Some s)) a k, s1)" "sim_inv N R s1"
    "sim_view R (Some s1) = sim_view R (Some s)" "sd_snapshots s1 = sd_snapshots s"
    by (rule GetState_law [OF assms, of a k])
  then show "calls (GetState a k) s" "calls (GetStateAndCommittedState a k) s"
    by (auto simp: calls_def ret_def Sim_GetStateAndCommittedState_def)
qed

lemma calls_SetState:
  assumes "sim_inv N R s"
  shows "calls (SetState a k v) s"
proof -
  obtain r s1 where "Sim_SetState E a k v s = Some (r, s1)" "sim_inv N R s1" "sd_snapshots s1 = sd_snapshots s"
    by (rule SetState_law [OF assms, of a k v])
  then show ?thesis
    by (simp add: calls_def ret_def reads_only_def storage_call_def)
qed

lemma calls_create:
  assumes "sim_inv N R s"
  shows "calls (CreateAccount a) s" "calls (CreateContract a) s"
proof -
  let ?s = "s\<lparr>sd_accounts := mput a ((empty_account (owner N a))\<lparr>ac_Created := True\<rparr>) (sd_accounts s)\<rparr>"
  have "Sim_CreateAccount a s = Some ?s"
    using assms by (simp add: Sim_CreateAccount_def owner_shard_def owner_AddressToShard sim_inv_def)
  moreover have "sim_inv N R ?s"
    using assms by (simp add: sim_inv_def layer_ok_account empty_account_def)
  ultimately show "calls (CreateAccount a) s" "calls (CreateContract a) s"
    by (simp_all add: calls_def Sim_CreateContract_def reads_only_def overlay_def)
qed

lemma add_all_wf:
  "(\<And>f al. f \<in> set fs \<Longrightarrow> al_wf al \<Longrightarrow> \<exists>al1. f al = Some al1 \<and> al_wf al1) \<Longrightarrow> al_wf al \<Longrightarrow>
     \<exists>al1. add_all fs al = Some al1 \<and> al_wf al1"
proof (induction fs arbitrary: al)
  case (Cons f fs)
  then obtain al1 where "f al = Some al1" "al_wf al1"
    by (meson list.set_intros(1))
  with Cons show ?case
    by (simp add: Cons.IH)
qed simp

lemma calls_access:
  assumes "sim_inv N R s"
  shows "calls (AddAddressToAccessList a) s" "calls (AddSlotToAccessList a k) s" "calls (SlotInAccessList a k) s"
    "calls (Prepare sender coinbase dest precompiles accesses) s"
proof -
  have wf: "al_wf (sd_accessList s)"
    using assms by (simp add: sim_inv_def)
  show "calls (AddAddressToAccessList a) s"
    using assms AddAddress_spec(1) [OF wf, of a] by (simp add: calls_def sim_inv_def reads_only_def)
  obtain r al where "AddSlot a k (sd_accessList s) = Some (r, al)" "al_wf al"
    using AddSlot_spec [OF wf, of a k] by blast
  then show "calls (AddSlotToAccessList a k) s"
    using assms by (simp add: calls_def sim_inv_def reads_only_def)
  show "calls (SlotInAccessList a k) s"
    using assms Contains_spec [OF wf, of a k] by (simp add: calls_def)
  have slot: "\<exists>al1. map_option snd (AddSlot b j al) = Some al1 \<and> al_wf al1" if "al_wf al" for b j al
    using AddSlot_spec [OF that, of b j] by auto
  have "\<exists>s1. Sim_Prepare sender coinbase dest precompiles accesses s = Some s1 \<and> (\<exists>al. s1 = s\<lparr>sd_accessList := al\<rparr> \<and> al_wf al)"
  proof -
    let ?add = "\<lambda>addr al. Some (snd (AddAddress addr al))" and ?slot = "\<lambda>addr key al. map_option snd (AddSlot addr key al)"
    let ?fs = "[?add sender] @ (case dest of None \<Rightarrow> [] | Some d \<Rightarrow> [?add d]) @ [?add coinbase] @ map ?add precompiles
                  @ concat (map (\<lambda>(addr, keys). ?add addr # map (?slot addr) keys) accesses)"
    have "\<exists>al1. f al = Some al1 \<and> al_wf al1" if "f \<in> set ?fs" "al_wf al" for f al
      using that slot AddAddress_spec(1) by (auto split: option.splits)
    then have "\<exists>al1. add_all ?fs newAccessList = Some al1 \<and> al_wf al1"
      by (rule add_all_wf) (simp_all add: newAccessList_spec)
    then show ?thesis
      by (auto simp: Sim_Prepare_def Let_def)
  qed
  then show "calls (Prepare sender coinbase dest precompiles accesses) s"
    using assms by (auto simp: calls_def sim_inv_def reads_only_def)
qed

lemma calls_accounts:
  assumes "sim_inv N R s"
  shows "calls (GetBalance a) s" "calls (GetNonce a) s" "calls (GetCodeHash a) s" "calls (GetCode a) s" "calls (GetCodeSize a) s"
    "calls (Exist a) s" "calls (Empty a) s"
    "calls (SubBalance a v) s" "calls (AddBalance a v) s" "calls (SetNonce a n) s" "calls (SetCode a code) s"
    "calls (SelfDestruct a) s" "calls (SelfDestruct6780 a) s"
proof -
  show "calls (GetBalance a) s"
    by (rule calls_getter [OF assms]) (simp add: Sim_GetBalance_def)
  show "calls (GetNonce a) s"
    by (rule calls_getter [OF assms]) (simp add: Sim_GetNonce_def)
  show "calls (GetCodeHash a) s"
    by (rule calls_getter [OF assms]) (simp add: Sim_GetCodeHash_def)
  show "calls (GetCode a) s"
    by (rule calls_getter [OF assms]) (simp add: Sim_GetCode_def)
  show "calls (GetCodeSize a) s"
    by (rule calls_getter [OF assms, of _ "\<lambda>code. RInt (int (length code))" a ac_Code])
      (simp add: Sim_GetCodeSize_def Sim_GetCode_def ret_def option.map_comp comp_def split_def)
  show "calls (Exist a) s"
    by (rule calls_getter [OF assms]) (simp add: Sim_Exist_def)
  show "calls (Empty a) s"
    by (rule calls_getter [OF assms]) (simp add: Sim_Empty_def)
  show "calls (SubBalance a v) s"
    by (rule calls_setter [OF assms], unfold sim_step.simps Sim_SubBalance_def, rule refl) (simp_all add: reads_only_def)
  show "calls (AddBalance a v) s"
    by (rule calls_setter [OF assms], unfold sim_step.simps Sim_AddBalance_def, rule refl) (simp_all add: reads_only_def)
  show "calls (SetNonce a n) s"
    by (rule calls_setter [OF assms, of _ "\<lambda>_. RUnit" a "\<lambda>_. ()" "\<lambda>acct. acct\<lparr>ac_Nonce := n\<rparr>"])
      (simp_all add: Sim_SetNonce_def reads_only_def ret_def option.map_comp comp_def split_def)
  show "calls (SetCode a code) s"
    by (rule calls_setter [OF assms], unfold sim_step.simps Sim_SetCode_def, rule refl) (simp_all add: reads_only_def)
  show "calls (SelfDestruct a) s"
    by (rule calls_setter [OF assms], unfold sim_step.simps Sim_SelfDestruct_def, rule refl) (simp_all add: reads_only_def)
  show "calls (SelfDestruct6780 a) s"
    by (rule calls_setter [OF assms], unfold sim_step.simps Sim_SelfDestruct6780_def, rule refl) (simp_all add: reads_only_def)
qed

lemma calls_counters:
  assumes "sim_inv N R s"
  shows "calls (AddRefund g) s" "calls (SubRefund g) s" "calls (SetTransientState a k v) s" "calls (AddLog l) s"
  using assms
  by (simp_all add: calls_def sim_inv_def Sim_AddLog_def Sim_AddRefund_def Sim_SubRefund_def Sim_SetTransientState_def
      reads_only_def sorted_append le_SucI)

lemma sim_calls:
  assumes "sim_inv N R s" and "\<not> is_snapshot_call c"
  shows "calls c s"
  using assms
  by (cases c)
    (simp_all add: calls_create calls_GetState calls_SetState calls_access calls_accounts calls_counters is_snapshot_call_def,
     simp_all add: calls_def)

lemma sim_ok_Some: "sim_ok N R so \<longleftrightarrow> (\<exists>s. so = Some s \<and> sim_inv N R s)"
  by (cases so) auto

lemma sim_db_calls:
  assumes "sim_ok N R so" and "\<not> is_snapshot_call c"
  shows "sim_ok N R (snd (sim_db E c so))" "sim_saved R (snd (sim_db E c so)) = sim_saved R so"
    "reads_only c \<Longrightarrow> sim_view R (snd (sim_db E c so)) = sim_view R so"
    "\<not> storage_call c \<Longrightarrow> sto (sim_view R (snd (sim_db E c so))) = sto (sim_view R so)"
proof -
  obtain s where s: "so = Some s" "sim_inv N R s"
    using assms(1) sim_ok_Some by blast
  then obtain r s1 where "sim_step E c s = Some (r, s1)" "sim_inv N R s1" "sd_snapshots s1 = sd_snapshots s"
    "reads_only c \<Longrightarrow> sim_view R (Some s1) = sim_view R (Some s)"
    "\<not> storage_call c \<Longrightarrow> sto (sim_view R (Some s1)) = sto (sim_view R (Some s))"
    using sim_calls [OF s(2) assms(2)] unfolding calls_def by blast
  then show "sim_ok N R (snd (sim_db E c so))" "sim_saved R (snd (sim_db E c so)) = sim_saved R so"
    "reads_only c \<Longrightarrow> sim_view R (snd (sim_db E c so)) = sim_view R so"
    "\<not> storage_call c \<Longrightarrow> sto (sim_view R (snd (sim_db E c so))) = sto (sim_view R so)"
    using s sim_saved_cong [of s1 s R] by (simp_all add: sim_db_def)
qed

lemma sim_snapshot:
  assumes "sim_inv N R s"
  shows "sim_db E Snapshot (Some s) = (RInt (int (length (sd_snapshots s))), Some (snd (Sim_Snapshot s)))"
    "sim_inv N R (snd (Sim_Snapshot s))"
    "sim_saved R (Some (snd (Sim_Snapshot s))) = (sim_saved R (Some s))(int (length (sd_snapshots s)) \<mapsto> sim_view R (Some s))"
proof -
  show "sim_inv N R (snd (Sim_Snapshot s))"
    using assms by (auto simp: sim_inv_def Sim_Snapshot_def sorted_append)
  show "sim_saved R (Some (snd (Sim_Snapshot s))) = (sim_saved R (Some s))(int (length (sd_snapshots s)) \<mapsto> sim_view R (Some s))"
    by (rule ext) (auto simp: Sim_Snapshot_def nth_append)
qed (simp add: sim_db_def Sim_Snapshot_def)

lemma sim_revert:
  assumes "sim_inv N R s" and "sim_saved R (Some s) n = Some w"
  obtains s1 where "sim_db E (RevertToSnapshot n) (Some s) = (RUnit, Some s1)" "sim_inv N R s1" "sim_view R (Some s1) = w"
    "sim_saved R (Some s1) = sim_saved R (Some s) |` {m. m < n}"
proof -
  have n: "0 \<le> n" "nat n < length (sd_snapshots s)"
    using assms(2) by (simp_all split: if_splits)
  let ?sn = "sd_snapshots s ! nat n"
  have w: "w = overlay R (sn_accounts ?sn) (sn_writes ?sn)"
    using assms(2) n by simp
  have logs: "sn_logsLen ?sn \<le> length (sd_logs s)"
    using assms(1) nth_mem [OF n(2)] by (auto simp: sim_inv_def sorted_append)
  let ?s = "s\<lparr>sd_accounts := sn_accounts ?sn, sd_reads := sn_reads ?sn, sd_writes := sn_writes ?sn,
       sd_refund := sn_refund ?sn, sd_logs := take (sn_logsLen ?sn) (sd_logs s), sd_snapshots := take (nat n) (sd_snapshots s)\<rparr>"
  have "sim_db E (RevertToSnapshot n) (Some s) = (RUnit, Some ?s)"
    using n logs by (simp add: sim_db_def Sim_RevertToSnapshot_def Let_def)
  moreover have "sorted (map sn_logsLen (take (nat n) (sd_snapshots s)) @ [sn_logsLen ?sn])"
    using assms(1) n(2) sorted_wrt_take [of "(\<le>)" "map sn_logsLen (sd_snapshots s) @ [length (sd_logs s)]" "Suc (nat n)"]
    by (simp add: sim_inv_def take_map take_Suc_conv_app_nth)
  then have "sim_inv N R ?s"
    using assms(1) n(2) logs by (auto simp: sim_inv_def dest: in_set_takeD)
  moreover have "sim_saved R (Some ?s) = sim_saved R (Some s) |` {m. m < n}"
    using n by (auto simp: fun_eq_iff restrict_map_def)
  ultimately show ?thesis
    using that w by simp
qed

end

sublocale stable_remote \<subseteq> sim: state_db "sim_db E" "sim_ok N R" "sim_view R" "sim_saved R"
proof
  fix c n a k h v w and so :: "'d SimulationStateDB option"
  assume ok: "sim_ok N R so"
  then obtain s where s: "so = Some s" "sim_inv N R s"
    using sim_ok_Some by blast
  show "sim_ok N R (snd (sim_db E c so))" if "\<And>n. c = RevertToSnapshot n \<Longrightarrow> sim_saved R so n \<noteq> None"
  proof (cases "is_snapshot_call c")
    case True
    then consider "c = Snapshot" | m where "c = RevertToSnapshot m" | b where "c = Finalise b"
      by (auto simp: is_snapshot_call_def split: vmcall.splits)
    then show ?thesis
    proof cases
      case 2
      with that obtain w where "sim_saved R (Some s) m = Some w"
        using s by blast
      then show ?thesis
        using sim_revert [OF s(2)] 2 s(1) by (metis sim_ok.simps(2) snd_conv)
    qed (use s sim_snapshot [OF s(2)] in \<open>simp_all add: sim_db_def\<close>)
  qed (use sim_db_calls [OF ok] in simp)
  show "sim_saved R (snd (sim_db E c so)) = sim_saved R so" if "\<not> is_snapshot_call c"
    using sim_db_calls [OF ok that] by simp
  show "sim_view R (snd (sim_db E c so)) = sim_view R so" if "reads_only c"
  proof (cases "c = Snapshot")
    case True
    then show ?thesis
      using s sim_snapshot(1) [OF s(2)] by (simp add: Sim_Snapshot_def)
  next
    case False
    with that have "\<not> is_snapshot_call c"
      by (cases c) (simp_all add: is_snapshot_call_def reads_only_def)
    with that show ?thesis
      using sim_db_calls(3) [OF ok] by simp
  qed
  show "sto (sim_view R (snd (sim_db E c so))) = sto (sim_view R so)" if "\<not> storage_call c"
  proof (cases "c = Snapshot")
    case True
    then show ?thesis
      using s sim_snapshot(1) [OF s(2)] by (simp add: Sim_Snapshot_def)
  next
    case False
    with that have "\<not> is_snapshot_call c"
      by (cases c) (simp_all add: is_snapshot_call_def storage_call_def)
    with that show ?thesis
      using sim_db_calls(4) [OF ok] by simp
  qed
  show "fst (sim_db E (GetBalance a) so) = RU256 (bal (sim_view R so) a)"
  proof (rule read_account_law [OF s(2), of a ac_Balance])
    qed (simp add: s(1) sim_db_def ret_def Sim_GetBalance_def)
  show "fst (sim_db E (GetState a k) so) = RHash (sto (sim_view R so) a k)"
  proof (rule GetState_law [OF s(2), of a k])
    qed (simp add: s(1) sim_db_def ret_def)
  show "sim_view R (snd (sim_db E (AddBalance a v) so)) = (sim_view R so)\<lparr>bal := (bal (sim_view R so))(a := bal (sim_view R so) a + v)\<rparr>"
  proof (rule update_account_law [OF s(2), of "\<lambda>acct. acct\<lparr>ac_Balance := ac_Balance acct + v\<rparr>" a ac_Balance])
    qed (simp_all add: s(1) sim_db_def ret_def Sim_AddBalance_def)
  show "sim_view R (snd (sim_db E (SubBalance a v) so)) = (sim_view R so)\<lparr>bal := (bal (sim_view R so))(a := bal (sim_view R so) a - v)\<rparr>"
  proof (rule update_account_law [OF s(2), of "\<lambda>acct. acct\<lparr>ac_Balance := ac_Balance acct - v\<rparr>" a ac_Balance])
    qed (simp_all add: s(1) sim_db_def ret_def Sim_SubBalance_def)
  show "sim_view R (snd (sim_db E (SetState a k h) so)) =
      (sim_view R so)\<lparr>sto := (sto (sim_view R so))(a := (sto (sim_view R so) a)(k := h))\<rparr>"
  proof (rule SetState_law [OF s(2), of a k h])
    qed (simp add: s(1) sim_db_def ret_def)
  show "sim_saved R (snd (sim_db E Snapshot so)) = (sim_saved R so)(as_int (fst (sim_db E Snapshot so)) \<mapsto> sim_view R so)
      \<and> (\<forall>m \<in> dom (sim_saved R so). m < as_int (fst (sim_db E Snapshot so)))"
    using sim_snapshot [OF s(2)] s(1) by (auto split: if_splits)
  show "sim_view R (snd (sim_db E (RevertToSnapshot n) so)) = w
      \<and> sim_saved R (snd (sim_db E (RevertToSnapshot n) so)) = sim_saved R so |` {m. m < n}"
    if "sim_saved R so n = Some w"
    using sim_revert [OF s(2)] that s(1) by (metis snd_conv)
qed

subsection \<open>Runs of the EVM on a simulation\<close>

context state_db
begin

lemma op_keeps_ok:
  assumes "ok s" and "S \<subseteq> dom (saved s)" and "\<forall>n. c = DB (RevertToSnapshot n) \<longrightarrow> n \<in> S" and "\<forall>b. c \<noteq> DB (Finalise b)"
    and "evm_op_run D c s = (r, s1)"
  shows "ok s1 \<and> own_snapshots c r S \<subseteq> dom (saved s1)"
proof (cases c)
  case (DB d)
  have ok: "ok s1"
    using ok_call [OF assms(1), of d] assms(2,3,5) DB by auto
  consider (plain) "\<not> is_snapshot_call d" | (snap) "d = Snapshot" | (rev) n where "d = RevertToSnapshot n"
    using assms(4) DB by (cases d) (auto simp: is_snapshot_call_def)
  then show ?thesis
  proof cases
    case plain
    then have "own_snapshots c r S = S" "saved s1 = saved s"
      using saved_call [OF assms(1) plain] assms(5) DB
      by (auto simp: own_snapshots_def is_snapshot_call_def split: vmcall.splits)
    with assms(2) ok show ?thesis by simp
  next
    case snap
    then show ?thesis
      using snapshot [OF assms(1)] assms(2,5) ok DB by (auto simp: own_snapshots_def)
  next
    case rev
    then obtain w where w: "saved s n = Some w"
      using assms(2,3) DB by blast
    show ?thesis
      using revert [OF assms(1) w] assms(2,5) ok DB rev by (auto simp: own_snapshots_def)
  qed
next
  case (CanTransfer a v)
  then show ?thesis
    using assms(2,5) can_transfer_law [OF assms(1), of a v] by (auto simp: own_snapshots_def split: prod.splits)
next
  case (Transfer a b v)
  then show ?thesis
    using assms(2,5) transfer_law [OF assms(1), of a b v] by (auto simp: own_snapshots_def)
qed

lemma run_keeps_ok:
  "ok s \<Longrightarrow> S \<subseteq> dom (saved s) \<Longrightarrow> bracketed p S \<Longrightarrow> run_evm p D s = (r, s') \<Longrightarrow> ok s'"
proof (induction p arbitrary: s S)
  case (Op c k)
  obtain r1 s1 where step: "evm_op_run D c s = (r1, s1)"
    by fastforce
  then have "ok s1 \<and> own_snapshots c r1 S \<subseteq> dom (saved s1)"
    using op_keeps_ok [OF Op.prems(1,2) _ _ step] Op.prems(3) by simp
  with step Op.prems(3,4) show ?case
    by (intro Op.IH [of "k r1" s1 "own_snapshots c r1 S"]) simp_all
qed simp

end

subsection \<open>The read-write set of a simulation\<close>

lemma set_mark_keys: "set (mkeys (fold (\<lambda>a m. mput a True m) xs m)) = set xs \<union> set (mkeys m)"
  by (induction xs arbitrary: m) (auto simp: dom_map_of_conv_image_fst [symmetric] update_conv')

lemma wfmap_mark_keys: "wfmap m \<Longrightarrow> wfmap (fold (\<lambda>a m. mput a True m) xs m)"
  by (induction xs arbitrary: m) (simp_all add: gomap_simps)

lemma set_rw_addrs: "set (rw_addrs s) = set (mkeys (sd_reads s)) \<union> set (mkeys (sd_writes s))
    \<union> {a. \<exists>acct. (a, acct) \<in> set (sd_accounts s) \<and> ac_Balance acct \<noteq> ac_OriginalBalance acct}"
proof -
  have changed: "set (mkeys (filter (\<lambda>(a, acct). P acct) A)) = {a. \<exists>acct. (a, acct) \<in> set A \<and> P acct}"
    for A :: "(address, accountState) gomap" and P
    by (induction A) auto
  show ?thesis
    unfolding rw_addrs_def set_mark_keys set_append changed [of "\<lambda>acct. ac_Balance acct \<noteq> ac_OriginalBalance acct"]
    by (simp add: Un_assoc)
qed

lemma distinct_rw_addrs: "distinct (rw_addrs s)"
  unfolding rw_addrs_def wfmap_def [symmetric] by (rule wfmap_mark_keys) simp

lemma layer_okD:
  assumes "layer_ok N R olds A r w"
  shows "mget A a = Some acct \<Longrightarrow> ac_ShardID acct = owner N a" "mget A a = Some acct \<Longrightarrow> \<not> ac_Created acct \<Longrightarrow> ac_OriginalBalance acct = bal R a"
    "first_seen r a k = Some v \<Longrightarrow> v = sto R a k" "first_seen w a k \<noteq> None \<Longrightarrow> first_seen olds a k \<noteq> None"
    "wfmap A" "wfmap (mgetd [] r a)" "wfmap (mgetd [] w a)"
  using assms unfolding layer_ok_def by blast+

lemma first_seen_key: "first_seen m a k \<noteq> None \<Longrightarrow> a \<in> set (mkeys m)"
  by (cases "mget m a") (auto simp: first_seen_def mgetd_def dest!: map_of_SomeD intro: rev_image_eqI)

context stable_remote
begin

lemma build_loop_owner:
  assumes "sim_inv N R s"
  shows "build_loop hb addrs s = Some (map (\<lambda>a. rw_variable hb a (owner N a) s) addrs)"
proof -
  have "(case mget (sd_accounts s) a of Some acct \<Rightarrow> Some (ac_ShardID acct) | None \<Rightarrow> owner_shard a s) = Some (owner N a)" for a
    using assms by (auto simp: sim_inv_def layer_ok_def owner_shard_def owner_AddressToShard split: option.splits)
  then show ?thesis
    by (induction addrs) simp_all
qed

lemma rw_variable_exact:
  assumes "sim_inv N R s"
  shows "x \<in> set (rw_ReadSet (rw_variable hb a i s)) \<Longrightarrow> rs_Value x = hb (sto R a (rs_Slot x))"
    and "x' \<in> set (rw_WriteSet (rw_variable hb a i s)) \<Longrightarrow> ws_OldValue x' = hb (sto R a (ws_Slot x'))
      \<and> ws_NewValue x' = hb (sto (sim_view R (Some s)) a (ws_Slot x'))"
    and "sto (sim_view R (Some s)) a k \<noteq> sto R a k \<Longrightarrow> \<exists>y \<in> set (rw_WriteSet (rw_variable hb a i s)). ws_Slot y = k"
proof -
  have layer: "layer_ok N R (sd_writeOlds s) (sd_accounts s) (sd_reads s) (sd_writes s)"
    and olds: "\<And>a k v. first_seen (sd_writeOlds s) a k = Some v \<Longrightarrow> v = sto R a k"
    using assms unfolding sim_inv_def by blast+
  have read: "first_seen (sd_reads s) a k = Some v" if "(k, v) \<in> set (mgetd [] (sd_reads s) a)" for k v
    using that layer_okD(6) [OF layer, of a] by (simp add: first_seen_def wfmap_def)
  have written: "first_seen (sd_writes s) a k = Some v" if "(k, v) \<in> set (mgetd [] (sd_writes s) a)" for k v
    using that layer_okD(7) [OF layer, of a] by (simp add: first_seen_def wfmap_def)
  show "rs_Value x = hb (sto R a (rs_Slot x))" if "x \<in> set (rw_ReadSet (rw_variable hb a i s))"
    using that layer_okD(3) [OF layer read] by (auto simp: rw_variable_def)
  show "ws_OldValue x' = hb (sto R a (ws_Slot x')) \<and> ws_NewValue x' = hb (sto (sim_view R (Some s)) a (ws_Slot x'))"
    if x: "x' \<in> set (rw_WriteSet (rw_variable hb a i s))"
  proof -
    obtain k v where kv: "(k, v) \<in> set (mgetd [] (sd_writes s) a)" and x': "ws_Slot x' = k" "ws_NewValue x' = hb v"
      "ws_OldValue x' = hb (case first_seen (sd_writeOlds s) a k of Some v \<Rightarrow> v | None \<Rightarrow> 0)"
      using x by (auto simp: rw_variable_def)
    note k = written [OF kv]
    then obtain u where "first_seen (sd_writeOlds s) a k = Some u"
      using layer_okD(4) [OF layer, of a k] by auto
    with k x' olds show ?thesis by (auto simp: overlay_def)
  qed
  show "\<exists>y \<in> set (rw_WriteSet (rw_variable hb a i s)). ws_Slot y = k" if ch: "sto (sim_view R (Some s)) a k \<noteq> sto R a k"
  proof -
    obtain v where "first_seen (sd_writes s) a k = Some v"
      using ch by (auto simp: overlay_def split: option.splits)
    then have "(k, v) \<in> set (mgetd [] (sd_writes s) a)"
      by (simp add: first_seen_def map_of_SomeD)
    then show ?thesis
      by (force simp: rw_variable_def)
  qed
qed

lemma rw_addrs_complete:
  assumes "sim_inv N R s"
  shows "sto (sim_view R (Some s)) a k \<noteq> sto R a k \<Longrightarrow> a \<in> set (rw_addrs s)"
    and "bal (sim_view R (Some s)) a \<noteq> bal R a \<Longrightarrow>
      a \<in> set (rw_addrs s) \<or> (\<exists>acct. mget (sd_accounts s) a = Some acct \<and> ac_Created acct)"
proof -
  have layer: "layer_ok N R (sd_writeOlds s) (sd_accounts s) (sd_reads s) (sd_writes s)"
    using assms unfolding sim_inv_def by blast
  show "a \<in> set (rw_addrs s)" if "sto (sim_view R (Some s)) a k \<noteq> sto R a k"
  proof -
    have "first_seen (sd_writes s) a k \<noteq> None"
      using that by (auto simp: overlay_def split: option.splits)
    then show ?thesis
      using first_seen_key [of "sd_writes s" a k] by (simp add: set_rw_addrs)
  qed
  show "a \<in> set (rw_addrs s) \<or> (\<exists>acct. mget (sd_accounts s) a = Some acct \<and> ac_Created acct)"
    if ch: "bal (sim_view R (Some s)) a \<noteq> bal R a"
  proof -
    obtain acct where acct: "mget (sd_accounts s) a = Some acct" "ac_Balance acct \<noteq> bal R a"
      using ch by (auto simp: overlay_def split: option.splits)
    then have "ac_Created acct \<or> ac_Balance acct \<noteq> ac_OriginalBalance acct"
      using layer_okD(2) [OF layer acct(1)] by auto
    with acct(1) show ?thesis
      by (auto simp: set_rw_addrs dest: map_of_SomeD)
  qed
qed

lemmas sim_state_db = sim.state_db_axioms

text \<open>A run from a fresh database ends in a good state.\<close>

lemma run_sim:
  assumes "bracketed p {}" and "sf_numShards sf = N"
    and "run_evm p (sim_db E) (Some (NewSimulationStateDB t sf)) = (res, so)"
  obtains s where "so = Some s" "sim_inv N R s"
proof -
  have "sim_ok N R (Some (NewSimulationStateDB t sf))"
    using new_sim_inv [of sf R t] assms(2) by simp
  then have "sim_ok N R so"
    using sim.run_keeps_ok [OF _ _ assms(1,3)] by simp
  then show ?thesis
    using that sim_ok_Some by blast
qed

end

subsection \<open>What a run depends on\<close>

text \<open>
  The answers of the network matter only for the accounts and for the slots in the read set, as long as
  nothing is reverted. \<open>agrees\<close> says that another network gives the same answers to those.
\<close>

definition agrees :: "'d orch_env \<Rightarrow> (nat \<Rightarrow> orch_request \<Rightarrow> string + orch_response) \<Rightarrow> slot_values \<Rightarrow> bool" where
  "agrees E h m \<longleftrightarrow> (\<forall>n i a. h n (fetch_request i a) = oe_http E n (fetch_request i a))
     \<and> (\<forall>n i a k. first_seen m a k \<noteq> None \<longrightarrow> h n (storage_request E i a k False) = oe_http E n (storage_request E i a k False))"

primrec no_revert :: "evm_prog \<Rightarrow> bool" where
  "no_revert (Done r) = True"
| "no_revert (Op c k) \<longleftrightarrow> (\<forall>n. c \<noteq> DB (RevertToSnapshot n)) \<and> (\<forall>r. no_revert (k r))"

definition grows :: "'d SimulationStateDB \<Rightarrow> 'd SimulationStateDB \<Rightarrow> bool" where
  "grows s s1 \<longleftrightarrow> (\<forall>a k. first_seen (sd_reads s) a k \<noteq> None \<longrightarrow> first_seen (sd_reads s1) a k \<noteq> None)"

lemma agrees_grows: "agrees E h (sd_reads s1) \<Longrightarrow> grows s s1 \<Longrightarrow> agrees E h (sd_reads s)"
  by (simp add: agrees_def grows_def)

lemma grows_same: "sd_reads s1 = sd_reads s \<Longrightarrow> grows s s1"
  by (simp add: grows_def)

lemma getOrFetchAccount_reads: "getOrFetchAccount E a s = Some (out, s1) \<Longrightarrow> sd_reads s1 = sd_reads s"
  by (auto simp: getOrFetchAccount_def split: option.splits prod.splits)

lemma account_calls_reads:
  "read_account E a f s = Some (x, s1) \<Longrightarrow> sd_reads s1 = sd_reads s"
  "update_account E a f' g s = Some (y, s1) \<Longrightarrow> sd_reads s1 = sd_reads s"
  by (auto simp: read_account_def update_account_def dest: getOrFetchAccount_reads split: option.splits prod.splits if_splits)

lemma Sim_GetState_grows: "Sim_GetState E a k s = Some (v, s1) \<Longrightarrow> grows s s1"
  by (auto simp: Sim_GetState_def Let_def grows_def first_seen_note_write dest!: getOrFetchAccount_reads split: option.splits prod.splits)

lemma sim_step_grows:
  assumes "sim_step E c s = Some (r, s1)" and "\<nexists>n. c = RevertToSnapshot n"
  shows "grows s s1"
proof -
  consider "sd_reads s1 = sd_reads s" | a k v s2 where "Sim_GetState E a k s = Some (v, s2)" "sd_reads s1 = sd_reads s2"
    using assms
    by (cases c)
      (auto simp: ret_def Sim_GetBalance_def Sim_SubBalance_def Sim_AddBalance_def Sim_GetNonce_def Sim_SetNonce_def
        Sim_GetCodeHash_def Sim_GetCode_def Sim_SetCode_def Sim_GetCodeSize_def Sim_SelfDestruct_def Sim_SelfDestruct6780_def
        Sim_Exist_def Sim_Empty_def Sim_AddRefund_def Sim_SubRefund_def Sim_SetTransientState_def Sim_Snapshot_def Sim_AddLog_def
        Sim_CreateAccount_def Sim_CreateContract_def Sim_Prepare_def Let_def Sim_SetState_def Sim_GetStateAndCommittedState_def
        dest: account_calls_reads split: option.splits if_splits)
  then show ?thesis
    by cases (auto simp: grows_same grows_def dest: Sim_GetState_grows)
qed

text \<open>The same step over the other network.\<close>

lemma http_only:
  "oe_http (E\<lparr>oe_http := h\<rparr>) = h"
  "oe_HexToHash (E\<lparr>oe_http := h\<rparr>) = oe_HexToHash E" "oe_verifier (E\<lparr>oe_http := h\<rparr>) = oe_verifier E"
  "persist_code (E\<lparr>oe_http := h\<rparr>) = persist_code E" "fetched_account (E\<lparr>oe_http := h\<rparr>) = fetched_account E"
  "storage_request (E\<lparr>oe_http := h\<rparr>) = storage_request E"
  by simp_all (intro ext, simp add: persist_code_def fetched_account_def storage_request_def cong: option.case_cong)+

lemma FetchState_agrees:
  "agrees E h m \<Longrightarrow> FetchState (E\<lparr>oe_http := h\<rparr>) t i a sf = FetchState E t i a sf"
  unfolding FetchState_def fetch_do_def Let_def http_only by (simp add: agrees_def)

lemma getOrFetchAccount_agrees:
  "agrees E h m \<Longrightarrow> getOrFetchAccount (E\<lparr>oe_http := h\<rparr>) a s = getOrFetchAccount E a s"
  unfolding getOrFetchAccount_def http_only by (simp add: FetchState_agrees cong: option.case_cong)

lemma account_calls_agree:
  "agrees E h m \<Longrightarrow> read_account (E\<lparr>oe_http := h\<rparr>) a f s = read_account E a f s"
  "agrees E h m \<Longrightarrow> update_account (E\<lparr>oe_http := h\<rparr>) a f' g s = update_account E a f' g s"
  by (simp_all add: read_account_def update_account_def getOrFetchAccount_agrees)

lemma Sim_GetState_agrees:
  assumes "Sim_GetState E a k s = Some (v, s1)" and "agrees E h (sd_reads s1)"
  shows "Sim_GetState (E\<lparr>oe_http := h\<rparr>) a k s = Some (v, s1)"
proof (cases "first_seen (sd_writes s) a k = None \<and> first_seen (sd_reads s) a k = None")
  case False
  then show ?thesis
    using assms(1) by (auto simp: Sim_GetState_def split: option.splits)
next
  case True
  have "first_seen (sd_reads s1) a k \<noteq> None"
    using assms(1) True by (auto simp: Sim_GetState_def Let_def first_seen_note_write split: option.splits prod.splits)
  then have st: "h n (storage_request E i a k False) = oe_http E n (storage_request E i a k False)" for n i
    using assms(2) by (simp add: agrees_def)
  have gs: "getState (E\<lparr>oe_http := h\<rparr>) t i b sf = getState E t i b sf" for t i b sf
    using assms(2) by (simp add: getState_def FetchState_agrees cong: option.case_cong)
  have ga: "fetcher_GetStorageAt (E\<lparr>oe_http := h\<rparr>) t i a k sf = fetcher_GetStorageAt E t i a k sf" for t i sf
    unfolding fetcher_GetStorageAt_def getStorageAtWithProof_def fetch_do_def Let_def http_only gs st by (rule refl)
  show ?thesis
    using assms(1) unfolding Sim_GetState_def getOrFetchAccount_agrees [OF assms(2)] ga .
qed

lemma SetCode_agrees: "agrees E h m \<Longrightarrow> Sim_SetCode (E\<lparr>oe_http := h\<rparr>) a code s = Sim_SetCode E a code s"
  unfolding Sim_SetCode_def http_only by (rule account_calls_agree)

lemma storage_calls_agree:
  "Sim_GetStateAndCommittedState E a k s = Some (w, s1) \<Longrightarrow> agrees E h (sd_reads s1) \<Longrightarrow>
     Sim_GetStateAndCommittedState (E\<lparr>oe_http := h\<rparr>) a k s = Some (w, s1)"
  "Sim_SetState E a k v s = Some (x, s1) \<Longrightarrow> agrees E h (sd_reads s1) \<Longrightarrow> Sim_SetState (E\<lparr>oe_http := h\<rparr>) a k v s = Some (x, s1)"
proof -
  assume "Sim_GetStateAndCommittedState E a k s = Some (w, s1)" "agrees E h (sd_reads s1)"
  then show "Sim_GetStateAndCommittedState (E\<lparr>oe_http := h\<rparr>) a k s = Some (w, s1)"
    using Sim_GetState_agrees [of E a k s _ s1 h] by (cases "Sim_GetState E a k s") (auto simp: Sim_GetStateAndCommittedState_def)
next
  assume set: "Sim_SetState E a k v s = Some (x, s1)" "agrees E h (sd_reads s1)"
  then obtain s2 where "Sim_GetState E a k s = Some (x, s2)" "sd_reads s1 = sd_reads s2"
    by (auto simp: Sim_SetState_def split: option.splits)
  with set show "Sim_SetState (E\<lparr>oe_http := h\<rparr>) a k v s = Some (x, s1)"
    using Sim_GetState_agrees [of E a k s x s2 h] by (simp add: Sim_SetState_def)
qed

lemma sim_step_agrees:
  assumes "sim_step E c s = Some (r, s1)" and "agrees E h (sd_reads s1)"
  shows "sim_step (E\<lparr>oe_http := h\<rparr>) c s = Some (r, s1)"
proof -
  note [simp] = account_calls_agree [OF assms(2)] SetCode_agrees [OF assms(2)]
  show ?thesis
    using assms(1)
    by (cases c)
      (auto simp: ret_def Sim_GetBalance_def Sim_SubBalance_def Sim_AddBalance_def Sim_GetNonce_def Sim_SetNonce_def
        Sim_GetCodeHash_def Sim_GetCode_def Sim_GetCodeSize_def Sim_SelfDestruct_def Sim_SelfDestruct6780_def
        Sim_Exist_def Sim_Empty_def dest!: Sim_GetState_agrees [OF _ assms(2)] storage_calls_agree [OF _ assms(2)])
qed

lemma op_agrees:
  assumes "evm_op_run (sim_db E) c (Some s) = (r, Some s1)" and "\<nexists>n. c = DB (RevertToSnapshot n)"
  shows "grows s s1 \<and> (agrees E h (sd_reads s1) \<longrightarrow> evm_op_run (sim_db (E\<lparr>oe_http := h\<rparr>)) c (Some s) = (r, Some s1))"
proof -
  have db: "sim_step E d s = Some (r, s1)" if "sim_db E d (Some s) = (r, Some s1)" for d r s s1
    using that by (auto simp: sim_db_def split: option.splits)
  have same: "grows s s1 \<and> (agrees E h (sd_reads s1) \<longrightarrow> sim_db (E\<lparr>oe_http := h\<rparr>) d (Some s) = (r, Some s1))"
    if "sim_db E d (Some s) = (r, Some s1)" "\<nexists>n. d = RevertToSnapshot n" for d r s s1
    using sim_step_grows [OF db [OF that(1)] that(2)] sim_step_agrees [OF db [OF that(1)]] by (simp add: sim_db_def)
  show ?thesis
  proof (cases c)
    case (DB d)
    then show ?thesis
      using same [of d s r s1] assms by simp
  next
    case (CanTransfer a v)
    then obtain x where x: "sim_db E (GetBalance a) (Some s) = (x, Some s1)" "r = RBool (v \<le> as_u256 x)"
      using assms(1) by (auto simp: can_transfer_def split: prod.splits)
    then show ?thesis
      using same [OF x(1)] CanTransfer by (simp add: can_transfer_def)
  next
    case (Transfer a b v)
    obtain x so where sub: "sim_db E (SubBalance a v) (Some s) = (x, so)"
      by fastforce
    have "snd (sim_db E (AddBalance b v) so) = Some s1" and r: "r = RUnit"
      using assms(1) Transfer sub by (simp_all add: transfer_def)
    then obtain y s2 where so: "so = Some s2" and add: "sim_db E (AddBalance b v) (Some s2) = (y, Some s1)"
      by (cases so) (auto simp: sim_db_def, metis prod.collapse)
    note s2 = same [OF sub [unfolded so]] and s1 = same [OF add]
    have "evm_op_run (sim_db (E\<lparr>oe_http := h\<rparr>)) c (Some s) = (r, Some s1)" if "agrees E h (sd_reads s1)"
      using s1 s2 that agrees_grows [OF that] Transfer r by (simp add: transfer_def)
    then show ?thesis
      using s1 s2 by (auto simp: grows_def)
  qed
qed

lemma sim_db_None: "snd (evm_op_run (sim_db E) c None) = None"
  by (cases c) (simp_all add: sim_db_def can_transfer_def transfer_def)

lemma run_None: "snd (run_evm p (sim_db E) None) = None"
  by (induction p) (simp_all add: sim_db_None)

lemma run_agrees:
  "no_revert p \<Longrightarrow> run_evm p (sim_db E) (Some s) = (res, Some s') \<Longrightarrow>
     grows s s' \<and> (agrees E h (sd_reads s') \<longrightarrow> run_evm p (sim_db (E\<lparr>oe_http := h\<rparr>)) (Some s) = (res, Some s'))"
proof (induction p arbitrary: s)
  case (Op c k)
  obtain r so where step: "evm_op_run (sim_db E) c (Some s) = (r, so)"
    by fastforce
  with Op.prems(2) have rest: "run_evm (k r) (sim_db E) so = (res, Some s')"
    by simp
  then obtain s1 where so: "so = Some s1"
    using run_None [of "k r" E] by (cases so) auto
  have first: "grows s s1 \<and> (agrees E h (sd_reads s1) \<longrightarrow> evm_op_run (sim_db (E\<lparr>oe_http := h\<rparr>)) c (Some s) = (r, Some s1))"
    using op_agrees [OF step [unfolded so]] Op.prems(1) by simp
  have "grows s1 s' \<and> (agrees E h (sd_reads s') \<longrightarrow> run_evm (k r) (sim_db (E\<lparr>oe_http := h\<rparr>)) (Some s1) = (res, Some s'))"
    using Op.IH [of "k r" s1] Op.prems(1) rest so by simp
  then show ?case
    using first agrees_grows [of E h s' s1] by (auto simp: grows_def)
qed (simp add: grows_same)

subsection \<open>Shards that answer from one ledger\<close>

definition answer :: "FetchStateResponse \<Rightarrow> string \<Rightarrow> orch_response" where
  "answer r v = \<lparr>op_status = 200, op_readErr = None, op_fetch = Inr r, op_value = Inr v, op_proof = Inl ''no proof''\<rparr>"

definition account_answer :: "int \<Rightarrow> FetchStateResponse" where
  "account_answer b = \<lparr>fs_Success = True, fs_Error = [], fs_Balance = Some b, fs_Nonce = 0, fs_Code = [], fs_CodeHash = 0\<rparr>"

definition still_http :: "nat \<Rightarrow> orch_request \<Rightarrow> string + orch_response" where
  "still_http n rq = (case oq_body rq of
      FetchPayload a \<Rightarrow> Inr (answer (account_answer (if a = 7 then 100 else 0)) [])
    | _ \<Rightarrow> Inr (answer (account_answer 0) ''12345''))"

definition still_env :: "(byte list, byte list) gomap orch_env" where
  "still_env = \<lparr>oe_db = mem_kv, oe_verifier = demo_verifier, oe_http = still_http, oe_HexToHash = (\<lambda>s. of_nat (length s)),
     oe_addrHex = (\<lambda>a. show_nat (unat a)), oe_MustFromBig = (\<lambda>i. if 0 \<le> i \<and> i < 2 ^ 256 then Some (word_of_int i) else None),
     oe_FromBig = word_of_int, oe_Call = mem_contract, oe_uuid = show_nat, oe_blockHash = (\<lambda>_. 0)\<rparr>"

definition still_ledger :: ledger where
  "still_ledger = \<lparr>bal = (\<lambda>a. if a = 7 then 100 else 0), sto = (\<lambda>a k. 5)\<rparr>"

definition still_fetcher :: "(byte list, byte list) gomap StateFetcher" where
  "still_fetcher = NewStateFetcher 8 \<lparr>bs_db = [], bs_closed = False\<rparr>"

lemma still_numShards: "sf_numShards still_fetcher = 8"
  by (simp add: still_fetcher_def NewStateFetcher_def)

interpretation still: stable_remote still_env 8 still_ledger
  by unfold_locales
    (simp_all add: still_env_def still_http_def still_ledger_def fetch_request_def storage_request_def answer_def account_answer_def)

subsection \<open>Properties\<close>

text \<open>C7. Refinement of a ledger. Over shards that answer from one ledger, the simulation database
  satisfies the contract of a state database: a fresh one shows that ledger, reads give what is shown,
  balances and slots change as told, a snapshot is restored exactly, and no method panics or records an
  error.\<close>

theorem simulation_refines_ledger:
  assumes "stable_remote E N R" and "sf_numShards sf = N"
  shows "state_db (sim_db E) (sim_ok N R) (sim_view R) (sim_saved R)
    \<and> sim_ok N R (Some (NewSimulationStateDB t sf)) \<and> sim_view R (Some (NewSimulationStateDB t sf)) = R"
  using stable_remote.sim_state_db [OF assms(1)] new_sim_inv [of sf R t] new_sim_view [of R t sf] assms(2) by simp

theorem simulation_refines_ledger_witness:
  "state_db (sim_db still_env) (sim_ok 8 still_ledger) (sim_view still_ledger) (sim_saved still_ledger)
    \<and> sim_view still_ledger (Some (NewSimulationStateDB ''t'' still_fetcher)) = still_ledger"
  using simulation_refines_ledger [OF still.stable_remote_axioms still_numShards] by blast


definition still_prog :: evm_prog where
  "still_prog = mem_contract \<lparr>cx_Origin = 7, cx_BlockNumber = 1, cx_Time = 1, cx_GasLimit = 30000000\<rparr> 7 9 [1, 2] 100 30"

lemma still_prog_plain: "bracketed still_prog {}" "no_revert still_prog"
  by (simp_all add: still_prog_def mem_contract_def own_snapshots_def)

definition still_run :: "evm_result \<times> (byte list, byte list) gomap SimulationStateDB option" where
  "still_run = run_evm still_prog (sim_db still_env) (Some (NewSimulationStateDB ''t'' still_fetcher))"



text \<open>A network on which slot 3 of account 9 has another value, and a run that does not read it.\<close>

definition other_http :: "nat \<Rightarrow> orch_request \<Rightarrow> string + orch_response" where
  "other_http n rq = (if oq_path rq = [''evm'', ''storage'', ''9'', ''3''] then Inr (answer (account_answer 0) ''1'') else still_http n rq)"


text \<open>
  A run that takes a snapshot, reads a slot, reverts to the snapshot and returns whether the slot was
  zero: what a contract does that calls another one which reads and then reverts.
\<close>

definition probe :: "address \<Rightarrow> hash \<Rightarrow> evm_prog" where
  "probe a k = Op (DB Snapshot) (\<lambda>n. Op (DB (GetState a k)) (\<lambda>v. Op (DB (RevertToSnapshot (as_int n))) (\<lambda>_.
     Done \<lparr>er_ret = (if as_hash v = 0 then [0] else [1]), er_addr = a, er_gasLeft = 0, er_err = None\<rparr>)))"

text \<open>Reads of a reverted call are lost. The result of the run below depends on a slot of a shard, but
  its read-write set is empty, because reverting to a snapshot also restores the record of reads: the
  shards have nothing to validate.\<close>

lemma reverted_reads_lost:
  assumes "stable_remote E N R" and "sf_numShards sf = N"
  shows "bracketed (probe a k) {}
    \<and> (\<exists>s. run_evm (probe a k) (sim_db E) (Some (NewSimulationStateDB t sf)) =
          (\<lparr>er_ret = (if sto R a k = 0 then [0] else [1]), er_addr = a, er_gasLeft = 0, er_err = None\<rparr>, Some s)
        \<and> BuildRwSet hb s = Some [])"
proof -
  let ?s0 = "NewSimulationStateDB t sf"
  let ?s1 = "snd (Sim_Snapshot ?s0)"
  have inv: "sim_inv N R ?s0"
    using new_sim_inv [of sf R t] assms(2) by simp
  note snap = stable_remote.sim_snapshot [OF assms(1) inv]
  have len: "length (sd_snapshots ?s0) = 0" and view: "sim_view R (Some ?s1) = R"
    using new_sim_view [of R t sf] by (simp_all add: NewSimulationStateDB_def Sim_Snapshot_def)
  obtain s2 where s2: "Sim_GetState E a k ?s1 = Some (sto R a k, s2)" "sim_inv N R s2" "sd_snapshots s2 = sd_snapshots ?s1"
    using stable_remote.GetState_law [OF assms(1) snap(2), of a k] view by metis
  let ?sn = "\<lparr>sn_accounts = [], sn_reads = [], sn_writes = [], sn_refund = 0, sn_logsLen = 0\<rparr>"
  have "sd_snapshots s2 = [?sn]"
    using s2(3) by (simp add: NewSimulationStateDB_def Sim_Snapshot_def)
  then obtain s3 where rev: "sim_step E (RevertToSnapshot 0) s2 = Some (RUnit, s3)" "sd_accounts s3 = []" "sd_reads s3 = []" "sd_writes s3 = []"
    by (simp add: Sim_RevertToSnapshot_def Let_def)
  have "run_evm (probe a k) (sim_db E) (Some ?s0) =
      (\<lparr>er_ret = (if sto R a k = 0 then [0] else [1]), er_addr = a, er_gasLeft = 0, er_err = None\<rparr>, Some s3)"
    using snap(1) len s2(1) rev(1) by (simp add: probe_def sim_db_def ret_def)
  moreover have "BuildRwSet hb s3 = Some []"
    using rev by (simp add: BuildRwSet_def rw_addrs_def)
  moreover have "bracketed (probe a k) {}"
    by (simp add: probe_def own_snapshots_def)
  ultimately show ?thesis by blast
qed

text \<open>A failed storage request goes unnoticed. When the account of a slot is known and the request for
  the slot fails, \<open>GetState\<close> returns zero, records zero as the value read, and records no error, so
  \<open>HasFetchErrors\<close> does not report it.\<close>

lemma storage_error_hidden:
  assumes "mget (sd_accounts s) a = Some acct" and "cached (sd_txID s) a (sd_fetcher s) = Some st"
    and "first_seen (sd_writes s) a k = None" and "first_seen (sd_reads s) a k = None"
    and "oe_http E (length (sf_sent (sd_fetcher s))) (storage_request E (ac_ShardID acct) a k False) = Inl err"
  shows "\<exists>s1. Sim_GetState E a k s = Some (0, s1) \<and> first_seen (sd_reads s1) a k = Some 0
    \<and> HasFetchErrors s1 = HasFetchErrors s"
  using assms
  by (simp add: Sim_GetState_def getOrFetchAccount_def fetcher_GetStorageAt_def getStorageAtWithProof_def getState_def
      fetch_do_def Let_def first_seen_note_write HasFetchErrors_def)

end
