(* ===== verification/Orchestrator_Chain.thy ===== *)
theory Orchestrator_Chain
  imports Protocol_Types
begin

text \<open>
  The chain of the orchestrator shard (\<open>internal/orchestrator/chain.go\<close>): the queue of new
  cross-shard transactions, the transactions waiting for votes with their expected voters and the
  height at which voting began, the decisions for the next block, and the blocks.

  The hash of a block and the wall clock are parameters. Indexing \<open>c.blocks[c.height]\<close> outside
  the slice is a panic. The lemmas follow a transaction through the machine of these operations:
  it is always in exactly one stage, it commits only after a YES vote of every shard it involves,
  and it is decided at the latest \<open>voteTimeout + 1\<close> blocks after it was ordered.
\<close>

definition DefaultVoteTimeout :: u64 where
  "DefaultVoteTimeout = 10"

record OrchestratorChain =
  oc_blocks :: "OrchestratorShardBlock list"
  oc_height :: u64
  oc_pendingTxs :: "CrossShardTx list"
  oc_awaitingVotes :: "(txid, CrossShardTx) gomap"
  oc_pendingResult :: "(txid, bool) gomap"
  oc_votes :: "(txid, (int, bool) gomap) gomap"
  oc_expectedVoters :: "(txid, int list) gomap"
  oc_voteStartBlock :: "(txid, u64) gomap"
  oc_voteTimeout :: u64

definition NewOrchestratorChain :: "u64 \<Rightarrow> OrchestratorChain" where
  "NewOrchestratorChain now =
     \<lparr>oc_blocks = [\<lparr>ob_Height = 0, ob_PrevHash = 0, ob_Timestamp = now, ob_TpcResult = [],
        ob_CtToOrder = []\<rparr>],
      oc_height = 0, oc_pendingTxs = [], oc_awaitingVotes = [], oc_pendingResult = [],
      oc_votes = [], oc_expectedVoters = [], oc_voteStartBlock = [],
      oc_voteTimeout = DefaultVoteTimeout\<rparr>"

definition SetVoteTimeout :: "OrchestratorChain \<Rightarrow> u64 \<Rightarrow> OrchestratorChain" where
  "SetVoteTimeout c blocks = c\<lparr>oc_voteTimeout := blocks\<rparr>"

definition GetVoteTimeout :: "OrchestratorChain \<Rightarrow> u64" where
  "GetVoteTimeout c = oc_voteTimeout c"

definition AddTransaction :: "OrchestratorChain \<Rightarrow> CrossShardTx \<Rightarrow> OrchestratorChain" where
  "AddTransaction c tx = c\<lparr>oc_pendingTxs := oc_pendingTxs c @ [CrossShardTx_DeepCopy tx]\<rparr>"

text \<open>The block of assignments that settles a transaction, written out three times in the source.\<close>

definition settle :: "OrchestratorChain \<Rightarrow> txid \<Rightarrow> bool \<Rightarrow> OrchestratorChain" where
  "settle c txID decision =
     c\<lparr>oc_pendingResult := mput txID decision (oc_pendingResult c),
       oc_awaitingVotes := mdel txID (oc_awaitingVotes c),
       oc_votes := mdel txID (oc_votes c),
       oc_expectedVoters := mdel txID (oc_expectedVoters c),
       oc_voteStartBlock := mdel txID (oc_voteStartBlock c)\<rparr>"

definition RecordVote :: "OrchestratorChain \<Rightarrow> txid \<Rightarrow> int \<Rightarrow> bool \<Rightarrow> bool \<times> OrchestratorChain" where
  "RecordVote c txID shardID canCommit =
     (if mget (oc_awaitingVotes c) txID = None then (False, c)
      else
        let c1 = (if mget (oc_votes c) txID = None
                  then c\<lparr>oc_votes := mput txID [] (oc_votes c)\<rparr> else c);
            cast = mgetd [] (oc_votes c1) txID
        in
        if mget cast shardID \<noteq> None then (False, c1)
        else
          let c2 = c1\<lparr>oc_votes := mput txID (mput shardID canCommit cast) (oc_votes c1)\<rparr>
          in
          if \<not> canCommit then (True, settle c2 txID False)
          else
            let expected = mgetd [] (oc_expectedVoters c2) txID;
                cast2 = mgetd [] (oc_votes c2) txID
            in
            if length expected \<le> length cast2
               \<and> list_all (\<lambda>s. mget cast2 s \<noteq> None) expected
            then (True, settle c2 txID True)
            else (True, c2))"

text \<open>\<open>checkTimeouts\<close>: first collect, then abort.\<close>

definition timed_out :: "OrchestratorChain \<Rightarrow> txid list" where
  "timed_out c = filter (\<lambda>txID.
      case mget (oc_voteStartBlock c) txID of
        None \<Rightarrow> False
      | Some startBlock \<Rightarrow> startBlock + oc_voteTimeout c \<le> oc_height c)
    (mkeys (oc_awaitingVotes c))"

definition CheckTimeouts :: "OrchestratorChain \<Rightarrow> txid list \<times> OrchestratorChain" where
  "CheckTimeouts c = (timed_out c, fold (\<lambda>txID c. settle c txID False) (timed_out c) c)"

definition GetAwaitingTx :: "OrchestratorChain \<Rightarrow> txid \<Rightarrow> CrossShardTx option" where
  "GetAwaitingTx c txID = map_option CrossShardTx_DeepCopy (mget (oc_awaitingVotes c) txID)"

text \<open>The loop of \<open>ProduceBlock\<close> that moves the queued transactions to the vote.\<close>

definition await_votes :: "u64 \<Rightarrow> CrossShardTx \<Rightarrow> OrchestratorChain \<Rightarrow> OrchestratorChain" where
  "await_votes newHeight tx c =
     c\<lparr>oc_awaitingVotes := mput (ct_ID tx) (CrossShardTx_DeepCopy tx) (oc_awaitingVotes c),
       oc_expectedVoters := mput (ct_ID tx) (InvolvedShards tx) (oc_expectedVoters c),
       oc_voteStartBlock := mput (ct_ID tx) newHeight (oc_voteStartBlock c)\<rparr>"

definition OC_ProduceBlock :: "(OrchestratorShardBlock \<Rightarrow> hash) \<Rightarrow> u64 \<Rightarrow> OrchestratorChain
    \<Rightarrow> (OrchestratorShardBlock \<times> OrchestratorChain) option" where
  "OC_ProduceBlock hashf now c0 =
     (let c = snd (CheckTimeouts c0) in
      if length (oc_blocks c) \<le> unat (oc_height c) then None
      else
        let newHeight = oc_height c + 1;
            block = \<lparr>ob_Height = newHeight,
              ob_PrevHash = hashf (oc_blocks c ! unat (oc_height c)),
              ob_Timestamp = now, ob_TpcResult = oc_pendingResult c,
              ob_CtToOrder = map CrossShardTx_DeepCopy (oc_pendingTxs c)\<rparr>;
            c1 = fold (await_votes newHeight) (oc_pendingTxs c) c
        in Some (block, c1\<lparr>oc_blocks := oc_blocks c1 @ [block], oc_height := newHeight,
                          oc_pendingTxs := [], oc_pendingResult := []\<rparr>))"

definition OC_GetHeight :: "OrchestratorChain \<Rightarrow> u64" where
  "OC_GetHeight c = oc_height c"

definition OC_GetBlock :: "OrchestratorChain \<Rightarrow> u64 \<Rightarrow> OrchestratorShardBlock option" where
  "OC_GetBlock c height =
     (if oc_height c < height \<or> length (oc_blocks c) \<le> unat height then None
      else Some (oc_blocks c ! unat height))"

subsection \<open>The machine\<close>

datatype oc_event =
    EvAdd CrossShardTx
  | EvVote txid int bool
  | EvTimeouts
  | EvProduce u64

fun oc_step :: "(OrchestratorShardBlock \<Rightarrow> hash) \<Rightarrow> OrchestratorChain \<Rightarrow> oc_event
    \<Rightarrow> OrchestratorChain option" where
  "oc_step hashf c (EvAdd tx) = Some (AddTransaction c tx)"
| "oc_step hashf c (EvVote txID shardID canCommit) = Some (snd (RecordVote c txID shardID canCommit))"
| "oc_step hashf c EvTimeouts = Some (snd (CheckTimeouts c))"
| "oc_step hashf c (EvProduce now) = map_option snd (OC_ProduceBlock hashf now c)"

definition oc_init :: "u64 \<Rightarrow> u64 \<Rightarrow> OrchestratorChain" where
  "oc_init now timeout = SetVoteTimeout (NewOrchestratorChain now) timeout"

fun added_ids :: "oc_event list \<Rightarrow> txid list" where
  "added_ids [] = []"
| "added_ids (EvAdd tx # es) = ct_ID tx # added_ids es"
| "added_ids (EvVote _ _ _ # es) = added_ids es"
| "added_ids (EvTimeouts # es) = added_ids es"
| "added_ids (EvProduce _ # es) = added_ids es"

lemma added_ids_append [simp]: "added_ids (es @ fs) = added_ids es @ added_ids fs"
  by (induction es rule: added_ids.induct) simp_all

text \<open>The stages of a transaction: queued, voting, decided, published in a block.\<close>

definition stage_ids :: "OrchestratorChain \<Rightarrow> txid list" where
  "stage_ids c = map ct_ID (oc_pendingTxs c) @ mkeys (oc_awaitingVotes c)
     @ mkeys (oc_pendingResult c) @ concat (map (\<lambda>b. mkeys (ob_TpcResult b)) (oc_blocks c))"

lemma InvolvedShards_DeepCopy [simp]: "InvolvedShards (CrossShardTx_DeepCopy tx) = InvolvedShards tx"
  by (simp add: CrossShardTx_DeepCopy_eq InvolvedShards_def TargetShards_def Let_def)

lemma ct_ID_DeepCopy [simp]: "ct_ID (CrossShardTx_DeepCopy tx) = ct_ID tx"
  by (simp add: CrossShardTx_DeepCopy_eq)

lemma CrossShardTx_DeepCopy_idem [simp]:
  "CrossShardTx_DeepCopy (CrossShardTx_DeepCopy tx) = CrossShardTx_DeepCopy tx"
  by (simp add: CrossShardTx_DeepCopy_eq BigInt_DeepCopy_def split: option.splits)

subsection \<open>Settling and queueing\<close>

lemma settle_simps [simp]:
  "oc_blocks (settle c t d) = oc_blocks c" "oc_height (settle c t d) = oc_height c"
  "oc_pendingTxs (settle c t d) = oc_pendingTxs c" "oc_voteTimeout (settle c t d) = oc_voteTimeout c"
  "oc_awaitingVotes (settle c t d) = mdel t (oc_awaitingVotes c)"
  "oc_pendingResult (settle c t d) = mput t d (oc_pendingResult c)"
  "oc_votes (settle c t d) = mdel t (oc_votes c)"
  "oc_expectedVoters (settle c t d) = mdel t (oc_expectedVoters c)"
  "oc_voteStartBlock (settle c t d) = mdel t (oc_voteStartBlock c)"
  by (simp_all add: settle_def)

abbreviation abort_all :: "txid list \<Rightarrow> OrchestratorChain \<Rightarrow> OrchestratorChain" where
  "abort_all ts c \<equiv> fold (\<lambda>t c. settle c t False) ts c"

lemma abort_all_simps [simp]:
  "oc_blocks (abort_all ts c) = oc_blocks c" "oc_height (abort_all ts c) = oc_height c"
  "oc_pendingTxs (abort_all ts c) = oc_pendingTxs c" "oc_voteTimeout (abort_all ts c) = oc_voteTimeout c"
  by (induction ts arbitrary: c) simp_all

lemma abort_all_lookup:
  "mget (oc_awaitingVotes (abort_all ts c)) t = (if t \<in> set ts then None else mget (oc_awaitingVotes c) t)"
  "mget (oc_voteStartBlock (abort_all ts c)) t = (if t \<in> set ts then None else mget (oc_voteStartBlock c) t)"
  "mget (oc_pendingResult (abort_all ts c)) t = (if t \<in> set ts then Some False else mget (oc_pendingResult c) t)"
  by (induction ts arbitrary: c) (auto simp: gomap_simps)

lemma await_all_simps [simp]:
  "oc_blocks (fold (await_votes h) txs c) = oc_blocks c"
  "oc_height (fold (await_votes h) txs c) = oc_height c"
  "oc_pendingTxs (fold (await_votes h) txs c) = oc_pendingTxs c"
  "oc_pendingResult (fold (await_votes h) txs c) = oc_pendingResult c"
  "oc_votes (fold (await_votes h) txs c) = oc_votes c"
  "oc_voteTimeout (fold (await_votes h) txs c) = oc_voteTimeout c"
  by (induction txs arbitrary: c) (simp_all add: await_votes_def)

lemma await_all_start:
  "mget (oc_voteStartBlock (fold (await_votes h) txs c)) t =
     (if t \<in> ct_ID ` set txs then Some h else mget (oc_voteStartBlock c) t)"
  by (induction txs arbitrary: c) (auto simp: await_votes_def gomap_simps)

lemma await_all_awaiting:
  "mget (oc_awaitingVotes (fold (await_votes h) txs c)) t = Some ct \<Longrightarrow>
     (\<exists>tx \<in> set txs. ct = CrossShardTx_DeepCopy tx) \<or> mget (oc_awaitingVotes c) t = Some ct"
  by (induction txs arbitrary: c) (fastforce simp: await_votes_def gomap_simps split: if_splits)+

subsection \<open>Structural invariant\<close>

definition oc_wf :: "OrchestratorChain \<Rightarrow> bool" where
  "oc_wf c \<longleftrightarrow> length (oc_blocks c) = Suc (unat (oc_height c))
     \<and> wfmap (oc_awaitingVotes c) \<and> wfmap (oc_pendingResult c)
     \<and> (\<forall>t. mget (oc_voteStartBlock c) t = None \<longleftrightarrow> mget (oc_awaitingVotes c) t = None)
     \<and> (\<forall>t ct. mget (oc_awaitingVotes c) t = Some ct \<longrightarrow>
          mget (oc_expectedVoters c) t = Some (InvolvedShards ct) \<and> ct_ID ct = t)
     \<and> (\<forall>t. mget (oc_awaitingVotes c) t = None \<longrightarrow> mget (oc_votes c) t = None)"

lemma oc_wf_start: "oc_wf c \<Longrightarrow> mget (oc_voteStartBlock c) t = None \<longleftrightarrow> mget (oc_awaitingVotes c) t = None"
  by (simp add: oc_wf_def)

lemma oc_wf_init: "oc_wf (oc_init now timeout)"
  by (simp add: oc_wf_def oc_init_def SetVoteTimeout_def NewOrchestratorChain_def)

lemma oc_wf_Add: "oc_wf c \<Longrightarrow> oc_wf (AddTransaction c tx)"
  by (simp add: oc_wf_def AddTransaction_def)

lemma oc_wf_settle: "oc_wf c \<Longrightarrow> oc_wf (settle c t d)"
  by (auto simp: oc_wf_def gomap_simps)

lemma oc_wf_abort_all: "oc_wf c \<Longrightarrow> oc_wf (abort_all ts c)"
  by (induction ts arbitrary: c) (simp_all add: oc_wf_settle)

lemma oc_wf_votes: "oc_wf c \<Longrightarrow> mget (oc_awaitingVotes c) t \<noteq> None \<Longrightarrow> oc_wf (c\<lparr>oc_votes := mput t vs (oc_votes c)\<rparr>)"
  by (auto simp: oc_wf_def gomap_simps)

lemma oc_wf_await_all: "oc_wf c \<Longrightarrow> oc_wf (fold (await_votes h) txs c)"
proof (induction txs arbitrary: c)
  case (Cons tx txs)
  have "oc_wf (await_votes h tx c)"
    using Cons.prems by (auto simp: oc_wf_def await_votes_def gomap_simps)
  with Cons.IH show ?case by simp
qed simp

text \<open>The first vote of a shard on a transaction.\<close>

lemma RecordVote_fresh:
  assumes "oc_wf c" and "mget (oc_awaitingVotes c) t = Some ct"
    and "vs = mgetd [] (oc_votes c) t" and "mget vs s = None"
  shows "RecordVote c t s b = (True,
    if \<not> b then settle c t False
    else if length (InvolvedShards ct) \<le> Suc (length vs) \<and> (\<forall>s' \<in> set (InvolvedShards ct). s' = s \<or> mget vs s' \<noteq> None)
    then settle c t True else c\<lparr>oc_votes := mput t (mput s True vs) (oc_votes c)\<rparr>)"
proof -
  let ?c1 = "if mget (oc_votes c) t = None then c\<lparr>oc_votes := mput t [] (oc_votes c)\<rparr> else c"
  have vs: "mgetd [] (oc_votes ?c1) t = vs"
    using assms(3) by (auto simp: mgetd_def gomap_simps split: option.splits)
  have upd: "?c1\<lparr>oc_votes := mput t v (oc_votes ?c1)\<rparr> = c\<lparr>oc_votes := mput t v (oc_votes c)\<rparr>" for v
    by simp
  have exp: "mgetd [] (oc_expectedVoters c) t = InvolvedShards ct"
    using assms(1,2) by (simp add: oc_wf_def mgetd_def)
  have del: "settle (c\<lparr>oc_votes := mput t v (oc_votes c)\<rparr>) t d = settle c t d" for v d
    by (simp add: settle_def)
  show ?thesis
    using assms(2,4) length_mput_absent [OF assms(4), of True]
    unfolding RecordVote_def Let_def vs upd 
    by (cases b) (auto simp: mgetd_mput mget_mput exp del list_all_iff split: if_splits)
qed

text \<open>The shape of the outcomes of \<open>RecordVote\<close>: ignored, counted, aborted, committed.\<close>

lemma RecordVote_cases:
  assumes "oc_wf c"
  obtains (ignored) "RecordVote c t s b = (False, c)"
    | (aborted) ct where "mget (oc_awaitingVotes c) t = Some ct" "\<not> b"
        "RecordVote c t s b = (True, settle c t False)"
    | (committed) ct vs where "mget (oc_awaitingVotes c) t = Some ct" "b" "vs = mgetd [] (oc_votes c) t"
        "\<forall>s' \<in> set (InvolvedShards ct). s' = s \<or> mget vs s' \<noteq> None"
        "RecordVote c t s b = (True, settle c t True)"
    | (counted) ct vs where "mget (oc_awaitingVotes c) t = Some ct" "b" "vs = mgetd [] (oc_votes c) t"
        "mget vs s = None"
        "RecordVote c t s b = (True, c\<lparr>oc_votes := mput t (mput s b vs) (oc_votes c)\<rparr>)"
proof (cases "mget (oc_awaitingVotes c) t")
  case None
  then show thesis
    using ignored by (simp add: RecordVote_def)
next
  case (Some ct)
  let ?vs = "mgetd [] (oc_votes c) t"
  show thesis
  proof (cases "mget ?vs s")
    case dup: (Some v)
    then have "mget (oc_votes c) t \<noteq> None"
      by (auto simp: mgetd_def split: option.splits)
    with dup Some have "RecordVote c t s b = (False, c)"
      by (auto simp: RecordVote_def Let_def)
    then show thesis
      by (rule ignored)
  next
    case None
    note RecordVote_fresh [OF assms Some refl None, of b]
    then show thesis
      using aborted [OF Some] committed [OF Some _ refl] counted [OF Some _ refl None]
      by (cases b) (auto split: if_splits)
  qed
qed

lemma oc_wf_Vote: "oc_wf c \<Longrightarrow> oc_wf (snd (RecordVote c t s b))"
  by (cases rule: RecordVote_cases [of c t s b]) (auto simp: oc_wf_settle oc_wf_votes)

lemma oc_wf_Timeouts: "oc_wf c \<Longrightarrow> oc_wf (snd (CheckTimeouts c))"
  by (simp add: CheckTimeouts_def oc_wf_abort_all)

text \<open>\<open>ProduceBlock\<close> in a well-formed state does not panic, and what it returns.\<close>

lemma ProduceBlock_result:
  assumes "oc_wf c"
  shows "OC_ProduceBlock hashf now c =
    (let c' = abort_all (timed_out c) c;
         block = \<lparr>ob_Height = oc_height c + 1, ob_PrevHash = hashf (last (oc_blocks c)),
           ob_Timestamp = now, ob_TpcResult = oc_pendingResult c',
           ob_CtToOrder = map CrossShardTx_DeepCopy (oc_pendingTxs c)\<rparr>
     in Some (block, (fold (await_votes (oc_height c + 1)) (oc_pendingTxs c) c')
          \<lparr>oc_blocks := oc_blocks c @ [block], oc_height := oc_height c + 1,
           oc_pendingTxs := [], oc_pendingResult := []\<rparr>))"
proof -
  have "length (oc_blocks c) = Suc (unat (oc_height c))"
    using assms by (simp add: oc_wf_def)
  moreover from this have "oc_blocks c ! unat (oc_height c) = last (oc_blocks c)"
    by (metis diff_Suc_1 last_conv_nth length_0_conv nat.distinct(1))
  ultimately show ?thesis
    by (simp add: OC_ProduceBlock_def CheckTimeouts_def Let_def)
qed

lemma oc_wf_Produce:
  assumes "oc_wf c" and "unat (oc_height c) + 1 < 2 ^ 64"
  shows "\<exists>block c'. OC_ProduceBlock hashf now c = Some (block, c') \<and> oc_wf c'"
proof -
  have "unat (oc_height c + 1) = unat (oc_height c) + 1"
    using assms(2) by (simp add: unat_word_ariths(1))
  moreover have "oc_wf (fold (await_votes (oc_height c + 1)) (oc_pendingTxs c) (abort_all (timed_out c) c))"
    using assms(1) by (simp add: oc_wf_abort_all oc_wf_await_all)
  ultimately show ?thesis
    unfolding ProduceBlock_result [OF assms(1)] Let_def by (simp add: oc_wf_def)
qed

subsection \<open>Voting does not outlive the timeout\<close>

definition oc_timely :: "OrchestratorChain \<Rightarrow> bool" where
  "oc_timely c \<longleftrightarrow> (\<forall>t s. mget (oc_voteStartBlock c) t = Some s \<longrightarrow>
     s \<le> oc_height c \<and> unat (oc_height c) \<le> unat s + unat (oc_voteTimeout c))"

lemma timely_settle: "oc_timely c \<Longrightarrow> oc_timely (settle c t d)"
  by (auto simp: oc_timely_def gomap_simps)

lemma timely_abort_all: "oc_timely c \<Longrightarrow> oc_timely (abort_all ts c)"
  by (induction ts arbitrary: c) (simp_all add: timely_settle)

lemma timely_Vote: "oc_wf c \<Longrightarrow> oc_timely c \<Longrightarrow> oc_timely (snd (RecordVote c t s b))"
  by (cases rule: RecordVote_cases [of c t s b]) (auto simp: timely_settle, auto simp: oc_timely_def)

lemma not_timed_out:
  assumes "oc_wf c" and "mget (oc_voteStartBlock c) t = Some s" and "t \<notin> set (timed_out c)"
  shows "oc_height c < s + oc_voteTimeout c"
proof -
  have "mget (oc_awaitingVotes c) t \<noteq> None"
    using oc_wf_start [OF assms(1), of t] assms(2) by auto
  then have "t \<in> set (mkeys (oc_awaitingVotes c))"
    by (simp only: mget_in_keys)
  with assms(2,3) show ?thesis
    by (auto simp: timed_out_def not_le)
qed

lemma timely_Produce:
  assumes wf: "oc_wf c" and "oc_timely c"
    and small: "unat (oc_height c) + unat (oc_voteTimeout c) + 1 < 2 ^ 64"
    and "OC_ProduceBlock hashf now c = Some (block, c')"
  shows "oc_timely c'"
proof -
  let ?d = "fold (await_votes (oc_height c + 1)) (oc_pendingTxs c) (abort_all (timed_out c) c)"
  have c': "oc_height c' = oc_height c + 1" "oc_voteTimeout c' = oc_voteTimeout c"
    "oc_voteStartBlock c' = oc_voteStartBlock ?d"
    using assms(4) by (auto simp: ProduceBlock_result [OF wf] Let_def)
  have h: "unat (oc_height c + 1) = unat (oc_height c) + 1"
    using small by (simp add: unat_word_ariths(1))
  have "s \<le> oc_height c + 1 \<and> unat (oc_height c + 1) \<le> unat s + unat (oc_voteTimeout c)"
    if "mget (oc_voteStartBlock ?d) t = Some s" for t s
  proof (cases "t \<in> ct_ID ` set (oc_pendingTxs c)")
    case True
    with that show ?thesis by (simp add: await_all_start)
  next
    case False
    with that have t: "mget (oc_voteStartBlock c) t = Some s" "t \<notin> set (timed_out c)"
      by (auto simp: await_all_start abort_all_lookup split: if_splits)
    then have s: "s \<le> oc_height c"
      using assms(2) by (simp add: oc_timely_def)
    then have "unat (s + oc_voteTimeout c) = unat s + unat (oc_voteTimeout c)"
      using small by (simp add: unat_word_ariths(1) word_le_nat_alt)
    with not_timed_out [OF wf t] s h show ?thesis
      by (simp add: word_less_nat_alt word_le_nat_alt)
  qed
  with c' show ?thesis
    by (simp add: oc_timely_def)
qed

subsection \<open>Stages\<close>

lemma stage_settle:
  assumes "oc_wf c" and "mget (oc_awaitingVotes c) t \<noteq> None" and "distinct (stage_ids c)"
  shows "mset (stage_ids (settle c t d)) = mset (stage_ids c)"
proof -
  have "t \<in> set (mkeys (oc_awaitingVotes c))"
    using assms(2) by (simp only: mget_in_keys)
  then have "t \<notin> set (mkeys (oc_pendingResult c))"
    using assms(3) unfolding stage_ids_def by auto
  then have "mget (oc_pendingResult c) t = None"
    by (simp add: mget_None_iff)
  moreover have "add_mset t (mset (mkeys (mdel t (oc_awaitingVotes c)))) = mset (mkeys (oc_awaitingVotes c))"
    using assms(1,2) by (intro mset_mkeys_mdel) (simp_all add: oc_wf_def)
  ultimately show ?thesis
    by (simp add: stage_ids_def mset_mkeys_mput_absent ac_simps del: mset_map)
qed

lemma stage_Vote:
  "oc_wf c \<Longrightarrow> distinct (stage_ids c) \<Longrightarrow> mset (stage_ids (snd (RecordVote c t s b))) = mset (stage_ids c)"
  by (cases rule: RecordVote_cases [of c t s b]) (auto simp: stage_settle, simp add: stage_ids_def)

lemma stage_abort_all:
  "oc_wf c \<Longrightarrow> distinct (stage_ids c) \<Longrightarrow> distinct ts \<Longrightarrow> \<forall>t \<in> set ts. mget (oc_awaitingVotes c) t \<noteq> None \<Longrightarrow>
     mset (stage_ids (abort_all ts c)) = mset (stage_ids c)"
proof (induction ts arbitrary: c)
  case (Cons t ts)
  have eq: "mset (stage_ids (settle c t False)) = mset (stage_ids c)"
    using Cons.prems by (intro stage_settle) simp_all
  then have "distinct (stage_ids (settle c t False))"
    using Cons.prems(2) mset_eq_imp_distinct_iff by blast
  moreover have "\<forall>u \<in> set ts. mget (oc_awaitingVotes (settle c t False)) u \<noteq> None"
    using Cons.prems(3,4) by (auto simp: gomap_simps)
  ultimately show ?case
    using Cons.IH [of "settle c t False"] Cons.prems(1,3) eq by (simp add: oc_wf_settle)
qed simp

lemma timed_out_awaiting: "t \<in> set (timed_out c) \<Longrightarrow> mget (oc_awaitingVotes c) t \<noteq> None"
  using mget_None_iff [of "oc_awaitingVotes c" t] by (auto simp: timed_out_def)

lemma distinct_timed_out: "oc_wf c \<Longrightarrow> distinct (timed_out c)"
  by (simp add: timed_out_def oc_wf_def wfmap_def)

lemma stage_Timeouts:
  "oc_wf c \<Longrightarrow> distinct (stage_ids c) \<Longrightarrow> mset (stage_ids (snd (CheckTimeouts c))) = mset (stage_ids c)"
  unfolding CheckTimeouts_def snd_conv
  by (rule stage_abort_all) (use distinct_timed_out timed_out_awaiting in auto)

lemma await_all_keys:
  "distinct (map ct_ID txs @ mkeys (oc_awaitingVotes c)) \<Longrightarrow>
     mset (mkeys (oc_awaitingVotes (fold (await_votes h) txs c))) =
     mset (map ct_ID txs) + mset (mkeys (oc_awaitingVotes c))"
proof (induction txs arbitrary: c)
  case (Cons tx txs)
  have abs: "mget (oc_awaitingVotes c) (ct_ID tx) = None"
    using Cons.prems by (simp add: mget_None_iff)
  then have keys: "mset (mkeys (oc_awaitingVotes (await_votes h tx c)))
      = add_mset (ct_ID tx) (mset (mkeys (oc_awaitingVotes c)))"
    by (simp add: await_votes_def mset_mkeys_mput_absent del: mset_map)
  then have "mset (map ct_ID txs @ mkeys (oc_awaitingVotes (await_votes h tx c)))
      = mset (map ct_ID (tx # txs) @ mkeys (oc_awaitingVotes c))"
    by simp
  then have "distinct (map ct_ID txs @ mkeys (oc_awaitingVotes (await_votes h tx c)))"
    using Cons.prems mset_eq_imp_distinct_iff by blast
  from Cons.IH [OF this] keys show ?case by simp
qed simp

lemma stage_Produce:
  assumes wf: "oc_wf c" and "distinct (stage_ids c)"
    and "OC_ProduceBlock hashf now c = Some (block, c')"
  shows "mset (stage_ids c') = mset (stage_ids c)"
proof -
  let ?d = "abort_all (timed_out c) c"
  have eq: "mset (stage_ids ?d) = mset (stage_ids c)"
    using stage_Timeouts [OF assms(1,2)] by (simp add: CheckTimeouts_def)
  then have "distinct (stage_ids ?d)"
    using assms(2) mset_eq_imp_distinct_iff by blast
  then have "distinct (map ct_ID (oc_pendingTxs c) @ mkeys (oc_awaitingVotes ?d))"
    unfolding stage_ids_def abort_all_simps by (rule distinct_append_left)
  from await_all_keys [OF this, of "oc_height c + 1"] assms(3) eq show ?thesis
    by (auto simp: ProduceBlock_result [OF wf] Let_def stage_ids_def ac_simps simp del: mset_map)
qed

subsection \<open>Evidence for decisions\<close>

fun produced :: "oc_event list \<Rightarrow> nat" where
  "produced [] = 0"
| "produced (EvProduce _ # es) = Suc (produced es)"
| "produced (EvAdd _ # es) = produced es"
| "produced (EvVote _ _ _ # es) = produced es"
| "produced (EvTimeouts # es) = produced es"

lemma produced_append [simp]: "produced (es @ fs) = produced es + produced fs"
  by (induction es rule: produced.induct) simp_all

lemma produced_le: "produced es \<le> length es"
  by (induction es rule: produced.induct) simp_all

lemma added_ids_iff: "t \<in> set (added_ids h) \<longleftrightarrow> (\<exists>tx. EvAdd tx \<in> set h \<and> ct_ID tx = t)"
  by (induction h rule: added_ids.induct) auto

text \<open>
  What a decision rests on: a commit on a YES vote of every involved shard, an abort on a NO vote or on
  \<open>T\<close> blocks having been produced since the transaction was added.
\<close>

definition decided_ok :: "nat \<Rightarrow> oc_event list \<Rightarrow> txid \<Rightarrow> bool \<Rightarrow> bool" where
  "decided_ok T h t d \<longleftrightarrow>
     (if d then \<exists>tx. EvAdd tx \<in> set h \<and> ct_ID tx = t \<and> (\<forall>s \<in> set (InvolvedShards tx). EvVote t s True \<in> set h)
      else (\<exists>s. EvVote t s False \<in> set h)
         \<or> (\<exists>p q. h = p @ q \<and> t \<in> set (added_ids p) \<and> T \<le> produced q))"

definition waited :: "oc_event list \<Rightarrow> txid \<Rightarrow> nat \<Rightarrow> bool" where
  "waited h t n \<longleftrightarrow> (\<exists>p q. h = p @ q \<and> t \<in> set (added_ids p) \<and> n \<le> produced q)"

definition oc_evidence :: "oc_event list \<Rightarrow> OrchestratorChain \<Rightarrow> bool" where
  "oc_evidence h c \<longleftrightarrow> unat (oc_height c) = produced h
     \<and> (\<forall>t vs s b. mget (oc_votes c) t = Some vs \<longrightarrow> mget vs s = Some b \<longrightarrow> EvVote t s True \<in> set h)
     \<and> (\<forall>t ct. mget (oc_awaitingVotes c) t = Some ct \<longrightarrow> (\<exists>tx. EvAdd tx \<in> set h \<and> ct = CrossShardTx_DeepCopy tx))
     \<and> (\<forall>ct \<in> set (oc_pendingTxs c). \<exists>tx. EvAdd tx \<in> set h \<and> ct = CrossShardTx_DeepCopy tx)
     \<and> (\<forall>t d. mget (oc_pendingResult c) t = Some d \<longrightarrow> decided_ok (unat (oc_voteTimeout c)) h t d)
     \<and> (\<forall>b \<in> set (oc_blocks c). \<forall>t d. mget (ob_TpcResult b) t = Some d
          \<longrightarrow> decided_ok (unat (oc_voteTimeout c)) h t d)
     \<and> (\<forall>t s. mget (oc_voteStartBlock c) t = Some s \<longrightarrow> waited h t (unat (oc_height c) - unat s))"

lemma decided_ok_False: "decided_ok T h t False \<longleftrightarrow> (\<exists>s. EvVote t s False \<in> set h) \<or> waited h t T"
  by (simp add: decided_ok_def waited_def)

lemma waited_mono: "waited h t n \<Longrightarrow> m \<le> n + produced es \<Longrightarrow> waited (h @ es) t m"
proof -
  assume "waited h t n" and m: "m \<le> n + produced es"
  then obtain p q where "h = p @ q" "t \<in> set (added_ids p)" "n \<le> produced q"
    by (auto simp: waited_def)
  then have "h @ es = p @ (q @ es)" "t \<in> set (added_ids p)" "m \<le> produced (q @ es)"
    using m by simp_all
  then show ?thesis
    unfolding waited_def by blast
qed

lemma decided_ok_mono: "decided_ok T h t d \<Longrightarrow> decided_ok T (h @ es) t d"
proof (cases d)
  case False
  moreover assume "decided_ok T h t d"
  ultimately show ?thesis
    using waited_mono [of h t T T es] by (auto simp: decided_ok_False)
qed (auto simp: decided_ok_def)

lemma evidence_init: "oc_evidence [] (oc_init now timeout)"
  by (simp add: oc_evidence_def oc_init_def SetVoteTimeout_def NewOrchestratorChain_def)

lemma evidence_mono:
  assumes "oc_evidence h c" and "produced [e] = 0"
  shows "oc_evidence (h @ [e]) c"
proof -
  have "decided_ok T h t d \<Longrightarrow> decided_ok T (h @ [e]) t d" "waited h t n \<Longrightarrow> waited (h @ [e]) t n" for T t d n
    by (simp_all add: decided_ok_mono waited_mono)
  then show ?thesis
    using assms unfolding oc_evidence_def by (elim conjE, intro conjI) (simp_all, blast+)
qed

lemma evidence_settle:
  "oc_evidence h c \<Longrightarrow> decided_ok (unat (oc_voteTimeout c)) h t d \<Longrightarrow> oc_evidence h (settle c t d)"
  by (auto simp: oc_evidence_def gomap_simps)

lemma evidence_abort_all:
  "oc_evidence h c \<Longrightarrow> \<forall>t \<in> set ts. decided_ok (unat (oc_voteTimeout c)) h t False \<Longrightarrow> oc_evidence h (abort_all ts c)"
  by (induction ts arbitrary: c) (simp_all add: evidence_settle)


lemma evidence_Add: "oc_evidence h c \<Longrightarrow> EvAdd tx \<in> set h \<Longrightarrow> oc_evidence h (AddTransaction c tx)"
  by (auto simp: oc_evidence_def AddTransaction_def)

lemma evidence_votes:
  "oc_evidence h c \<Longrightarrow> EvVote t s True \<in> set h \<Longrightarrow>
     oc_evidence h (c\<lparr>oc_votes := mput t (mput s b (mgetd [] (oc_votes c) t)) (oc_votes c)\<rparr>)"
  by (auto simp: oc_evidence_def gomap_simps mgetd_def split: if_splits option.splits)

lemma evidence_cast:
  assumes "oc_evidence h c" and "mget (mgetd [] (oc_votes c) t) s \<noteq> None"
  shows "EvVote t s True \<in> set h"
  using assms unfolding oc_evidence_def by (auto simp: mgetd_def split: option.splits)

lemma evidence_awaiting:
  assumes "oc_evidence h c" and "mget (oc_awaitingVotes c) t = Some ct"
  obtains tx where "EvAdd tx \<in> set h" and "ct = CrossShardTx_DeepCopy tx"
  using assms unfolding oc_evidence_def by blast

lemma oc_wf_awaiting: "oc_wf c \<Longrightarrow> mget (oc_awaitingVotes c) t = Some ct \<Longrightarrow> ct_ID ct = t"
  by (simp add: oc_wf_def)

lemma evidence_waited:
  "oc_evidence h c \<Longrightarrow> mget (oc_voteStartBlock c) t = Some s \<Longrightarrow> waited h t (unat (oc_height c) - unat s)"
  unfolding oc_evidence_def by blast

lemma evidence_Vote:
  assumes wf: "oc_wf c" and ev: "oc_evidence h c" and vote: "EvVote t s b \<in> set h"
  shows "oc_evidence h (snd (RecordVote c t s b))"
  using wf
proof (cases rule: RecordVote_cases [of c t s b])
  case ignored
  with ev show ?thesis by simp
next
  case (aborted ct)
  with vote have "decided_ok (unat (oc_voteTimeout c)) h t False"
    by (auto simp: decided_ok_False)
  with aborted ev show ?thesis
    by (simp add: evidence_settle)
next
  case (committed ct vs)
  obtain tx where tx: "EvAdd tx \<in> set h" "ct = CrossShardTx_DeepCopy tx"
    using evidence_awaiting [OF ev committed(1)] .
  moreover have "EvVote t s' True \<in> set h" if "s' \<in> set (InvolvedShards tx)" for s'
    using committed(2-4) that vote evidence_cast [OF ev, of t s'] by (auto simp: tx(2))
  moreover have "ct_ID tx = t"
    using oc_wf_awaiting [OF wf committed(1)] tx(2) by simp
  ultimately have "decided_ok (unat (oc_voteTimeout c)) h t True"
    by (auto simp: decided_ok_def)
  with committed(5) ev show ?thesis
    by (simp add: evidence_settle)
next
  case (counted ct vs)
  with ev vote show ?thesis
    by (simp add: evidence_votes)
qed

lemma timed_out_decided:
  assumes wf: "oc_wf c" and "oc_timely c" and ev: "oc_evidence h c"
    and small: "unat (oc_height c) + unat (oc_voteTimeout c) < 2 ^ 64"
    and "t \<in> set (timed_out c)"
  shows "decided_ok (unat (oc_voteTimeout c)) h t False"
proof -
  obtain s where s: "mget (oc_voteStartBlock c) t = Some s" "s + oc_voteTimeout c \<le> oc_height c"
    using assms(5) by (auto simp: timed_out_def split: option.splits)
  then have "s \<le> oc_height c"
    using assms(2) by (simp add: oc_timely_def)
  then have "unat (s + oc_voteTimeout c) = unat s + unat (oc_voteTimeout c)"
    using small by (simp add: unat_word_ariths(1) word_le_nat_alt)
  then have "unat (oc_voteTimeout c) \<le> unat (oc_height c) - unat s"
    using s(2) by (simp add: word_le_nat_alt)
  moreover have "waited h t (unat (oc_height c) - unat s)"
    using ev s(1) by (rule evidence_waited)
  ultimately show ?thesis
    using waited_mono [of h t _ "unat (oc_voteTimeout c)" "[]"] by (simp add: decided_ok_False)
qed

lemma evidence_Timeouts:
  "oc_wf c \<Longrightarrow> oc_timely c \<Longrightarrow> oc_evidence h c \<Longrightarrow> unat (oc_height c) + unat (oc_voteTimeout c) < 2 ^ 64 \<Longrightarrow>
     oc_evidence h (snd (CheckTimeouts c))"
  by (simp add: CheckTimeouts_def evidence_abort_all timed_out_decided)

lemma evidence_Produce:
  assumes wf: "oc_wf c" and "oc_timely c" and "oc_evidence h c"
    and small: "unat (oc_height c) + unat (oc_voteTimeout c) + 1 < 2 ^ 64"
    and "OC_ProduceBlock hashf now c = Some (block, c')"
  shows "oc_evidence (h @ [EvProduce now]) c'"
proof -
  let ?d = "abort_all (timed_out c) c" and ?h = "h @ [EvProduce now]"
  let ?e = "fold (await_votes (oc_height c + 1)) (oc_pendingTxs c) ?d"
  have d: "oc_evidence h ?d"
    using evidence_Timeouts [OF assms(1-3)] small by (simp add: CheckTimeouts_def)
  have h: "unat (oc_height c + 1) = unat (oc_height c) + 1"
    using small by (simp add: unat_word_ariths(1))
  have up: "decided_ok T h t d \<Longrightarrow> decided_ok T ?h t d" for T t d
    by (rule decided_ok_mono)
  have pend: "\<exists>tx. EvAdd tx \<in> set h \<and> ct = CrossShardTx_DeepCopy tx" if "ct \<in> set (oc_pendingTxs c)" for ct
    using d that by (simp add: oc_evidence_def)
  have await: "\<exists>tx. EvAdd tx \<in> set ?h \<and> ct = CrossShardTx_DeepCopy tx"
    if "mget (oc_awaitingVotes ?e) t = Some ct" for t ct
    using await_all_awaiting [OF that] pend evidence_awaiting [OF d] by (auto, (metis CrossShardTx_DeepCopy_idem)+)
  have start: "waited ?h t (unat (oc_height c + 1) - unat s)"
    if "mget (oc_voteStartBlock ?e) t = Some s" for t s
  proof (cases "t \<in> ct_ID ` set (oc_pendingTxs c)")
    case True
    then have "t \<in> set (added_ids h)"
      using pend unfolding added_ids_iff by force
    then have "waited h t 0"
      unfolding waited_def by (intro exI [of _ h] exI [of _ "[]"]) simp
    with True that show ?thesis
      by (auto simp: await_all_start intro: waited_mono)
  next
    case False
    with that have "mget (oc_voteStartBlock ?d) t = Some s"
      by (simp add: await_all_start)
    with evidence_waited [OF d] have "waited h t (unat (oc_height c) - unat s)"
      by force
    then show ?thesis
      by (rule waited_mono) (simp add: h)
  qed
  have c': "oc_blocks c' = oc_blocks c @ [block]" "ob_TpcResult block = oc_pendingResult ?d"
    "oc_height c' = oc_height c + 1" "oc_voteTimeout c' = oc_voteTimeout c" "oc_votes c' = oc_votes ?d"
    "oc_awaitingVotes c' = oc_awaitingVotes ?e" "oc_voteStartBlock c' = oc_voteStartBlock ?e"
    "oc_pendingTxs c' = []" "oc_pendingResult c' = []"
    using assms(5) by (auto simp: ProduceBlock_result [OF wf] Let_def)
  show ?thesis
    unfolding oc_evidence_def c'
    using d await start by (auto simp: oc_evidence_def h up c'(2))
qed


subsection \<open>Blocks are linked\<close>

definition oc_linked :: "(OrchestratorShardBlock \<Rightarrow> hash) \<Rightarrow> OrchestratorChain \<Rightarrow> bool" where
  "oc_linked hashf c \<longleftrightarrow> (\<forall>i < length (oc_blocks c). ob_Height (oc_blocks c ! i) = of_nat i
     \<and> (0 < i \<longrightarrow> ob_PrevHash (oc_blocks c ! i) = hashf (oc_blocks c ! (i - 1))))"

lemma linked_blocks: "oc_linked hashf c \<Longrightarrow> oc_blocks c' = oc_blocks c \<Longrightarrow> oc_linked hashf c'"
  by (simp add: oc_linked_def)

lemma RecordVote_simps:
  assumes "oc_wf c"
  shows "oc_voteTimeout (snd (RecordVote c t s b)) = oc_voteTimeout c"
    and "oc_blocks (snd (RecordVote c t s b)) = oc_blocks c"
    and "oc_height (snd (RecordVote c t s b)) = oc_height c"
  using assms by (cases rule: RecordVote_cases [of c t s b]; simp)+

lemma linked_Produce:
  assumes wf: "oc_wf c" and "oc_linked hashf c" and "OC_ProduceBlock hashf now c = Some (block, c')"
  shows "oc_linked hashf c'"
proof -
  have len: "length (oc_blocks c) = Suc (unat (oc_height c))"
    using wf by (simp add: oc_wf_def)
  then have "last (oc_blocks c) = oc_blocks c ! unat (oc_height c)"
    by (metis diff_Suc_1 last_conv_nth length_0_conv nat.distinct(1))
  then have "oc_blocks c' = oc_blocks c @ [block]" "ob_Height block = of_nat (length (oc_blocks c))"
    "ob_PrevHash block = hashf (oc_blocks c ! unat (oc_height c))"
    using assms(3) len by (auto simp: ProduceBlock_result [OF wf] Let_def)
  then show ?thesis
    using assms(2) len by (auto simp: oc_linked_def nth_append less_Suc_eq)
qed

subsection \<open>Every ordered transaction is decided in time\<close>

definition tracked :: "OrchestratorChain \<Rightarrow> nat \<Rightarrow> txid \<Rightarrow> bool" where
  "tracked c k t \<longleftrightarrow> mget (oc_voteStartBlock c) t = Some (of_nat k)
     \<or> mget (oc_pendingResult c) t \<noteq> None \<and> unat (oc_height c) \<le> k + unat (oc_voteTimeout c)
     \<or> (\<exists>j. k < j \<and> j \<le> k + unat (oc_voteTimeout c) + 1 \<and> j < length (oc_blocks c)
          \<and> mget (ob_TpcResult (oc_blocks c ! j)) t \<noteq> None)"

definition oc_tracked :: "OrchestratorChain \<Rightarrow> bool" where
  "oc_tracked c \<longleftrightarrow> (\<forall>k < length (oc_blocks c). \<forall>tx \<in> set (ob_CtToOrder (oc_blocks c ! k)). tracked c k (ct_ID tx))"

lemma tracked_settle:
  assumes "oc_timely c" and "tracked c k t"
  shows "tracked (settle c u d) k t"
proof (cases "t = u \<and> mget (oc_voteStartBlock c) t = Some (of_nat k)")
  case True
  then have "unat (oc_height c) \<le> unat (of_nat k :: u64) + unat (oc_voteTimeout c)"
    using assms(1) unfolding oc_timely_def by blast
  also have "unat (of_nat k :: u64) \<le> k"
    by (simp add: unsigned_of_nat)
  finally show ?thesis
    using True by (simp add: tracked_def gomap_simps)
next
  case False
  with assms(2) show ?thesis
    by (auto simp: tracked_def gomap_simps)
qed

lemma tracked_abort_all: "oc_timely c \<Longrightarrow> tracked c k t \<Longrightarrow> tracked (abort_all ts c) k t"
  by (induction ts arbitrary: c) (simp_all add: tracked_settle timely_settle)

lemma tracked_Vote:
  assumes "oc_wf c" and "oc_timely c" and "tracked c k t"
  shows "tracked (snd (RecordVote c u s b)) k t"
  using assms(1)
  by (cases rule: RecordVote_cases [of c u s b])
    (use assms(2,3) in \<open>simp_all add: tracked_settle\<close>, simp add: tracked_def)

lemma oc_tracked_same:
  "oc_tracked c \<Longrightarrow> oc_blocks c' = oc_blocks c \<Longrightarrow> (\<And>k t. tracked c k t \<Longrightarrow> tracked c' k t) \<Longrightarrow> oc_tracked c'"
  by (simp add: oc_tracked_def)

lemma oc_tracked_Produce:
  assumes wf: "oc_wf c" and timely: "oc_timely c" and "oc_tracked c" and "distinct (stage_ids c)"
    and "OC_ProduceBlock hashf now c = Some (block, c')"
  shows "oc_tracked c'"
proof -
  let ?d = "abort_all (timed_out c) c"
  let ?e = "fold (await_votes (oc_height c + 1)) (oc_pendingTxs c) ?d"
  have len: "length (oc_blocks c) = Suc (unat (oc_height c))"
    using wf by (simp add: oc_wf_def)
  have c': "oc_blocks c' = oc_blocks c @ [block]" "ob_TpcResult block = oc_pendingResult ?d"
    "ob_CtToOrder block = map CrossShardTx_DeepCopy (oc_pendingTxs c)"
    "oc_voteTimeout c' = oc_voteTimeout c" "oc_voteStartBlock c' = oc_voteStartBlock ?e"
    using assms(5) by (auto simp: ProduceBlock_result [OF wf] Let_def)
  have old: "tracked c' k t" if "k < length (oc_blocks c)" and "tracked c k t" for k t
  proof -
    have "tracked ?d k t"
      using tracked_abort_all [OF timely that(2)] .
    then consider (voting) "mget (oc_voteStartBlock ?d) t = Some (of_nat k)"
      | (decided) "mget (oc_pendingResult ?d) t \<noteq> None" "unat (oc_height c) \<le> k + unat (oc_voteTimeout c)"
      | (published) j where "k < j" "j \<le> k + unat (oc_voteTimeout c) + 1" "j < length (oc_blocks c)"
          "mget (ob_TpcResult (oc_blocks c ! j)) t \<noteq> None"
      by (auto simp: tracked_def)
    then show ?thesis
    proof cases
      case voting
      then have "mget (oc_voteStartBlock c) t \<noteq> None"
        by (simp add: abort_all_lookup split: if_splits)
      then have "t \<in> set (mkeys (oc_awaitingVotes c))"
        unfolding oc_wf_start [OF wf] by (simp only: mget_in_keys)
      then have "t \<notin> ct_ID ` set (oc_pendingTxs c)"
        using assms(4) by (auto simp: stage_ids_def)
      with voting show ?thesis
        by (simp add: tracked_def c' await_all_start)
    next
      case decided
      then have "mget (ob_TpcResult (oc_blocks c' ! length (oc_blocks c))) t \<noteq> None"
        by (simp add: c')
      with decided(2) that(1) len show ?thesis
        unfolding tracked_def by (intro disjI2 exI [of _ "length (oc_blocks c)"]) (simp add: c')
    next
      case published
      then show ?thesis
        unfolding tracked_def by (intro disjI2 exI [of _ j]) (simp add: c' nth_append)
    qed
  qed
  have new: "tracked c' (length (oc_blocks c)) (ct_ID tx)" if "tx \<in> set (oc_pendingTxs c)" for tx
    using that len by (simp add: tracked_def c' await_all_start)
  show ?thesis
    unfolding oc_tracked_def
    using assms(3) old new by (auto simp: c' oc_tracked_def nth_append less_Suc_eq)
qed

subsection \<open>The invariant of the machine\<close>

definition oc_inv :: "(OrchestratorShardBlock \<Rightarrow> hash) \<Rightarrow> u64 \<Rightarrow> oc_event list \<Rightarrow> OrchestratorChain \<Rightarrow> bool" where
  "oc_inv hashf timeout h c \<longleftrightarrow> oc_voteTimeout c = timeout \<and> oc_wf c \<and> oc_timely c \<and> oc_evidence h c
     \<and> oc_linked hashf c
     \<and> (distinct (added_ids h) \<longrightarrow> mset (stage_ids c) = mset (added_ids h) \<and> oc_tracked c)"

definition oc_admissible :: "u64 \<Rightarrow> oc_event list \<Rightarrow> bool" where
  "oc_admissible timeout h \<longleftrightarrow> unat timeout + produced h < 2 ^ 64"

lemma stage_distinct:
  "oc_inv hashf timeout h c \<Longrightarrow> distinct (added_ids h) \<Longrightarrow> distinct (stage_ids c)"
  unfolding oc_inv_def using mset_eq_imp_distinct_iff by blast

lemma oc_inv_init: "oc_inv hashf timeout [] (oc_init now timeout)"
proof -
  have "oc_voteTimeout (oc_init now timeout) = timeout" "stage_ids (oc_init now timeout) = []"
    "oc_timely (oc_init now timeout)" "oc_linked hashf (oc_init now timeout)" "oc_tracked (oc_init now timeout)"
    by (simp_all add: oc_init_def SetVoteTimeout_def NewOrchestratorChain_def stage_ids_def oc_timely_def
        oc_linked_def oc_tracked_def)
  then show ?thesis
    by (simp add: oc_inv_def oc_wf_init evidence_init)
qed

lemma oc_invD:
  assumes "oc_inv hashf timeout h c"
  shows "oc_wf c" "oc_timely c" "oc_evidence h c" "oc_voteTimeout c = timeout" "oc_linked hashf c"
    and "distinct (added_ids h) \<Longrightarrow> mset (stage_ids c) = mset (added_ids h)" "distinct (added_ids h) \<Longrightarrow> oc_tracked c"
    and "unat (oc_height c) = produced h"
proof -
  show "oc_wf c" "oc_timely c" and ev: "oc_evidence h c" and "oc_voteTimeout c = timeout" "oc_linked hashf c"
    and "distinct (added_ids h) \<Longrightarrow> mset (stage_ids c) = mset (added_ids h)" "distinct (added_ids h) \<Longrightarrow> oc_tracked c"
    using assms by (simp_all add: oc_inv_def)
  show "unat (oc_height c) = produced h"
    using ev by (simp add: oc_evidence_def)
qed

lemma oc_inv_Add:
  assumes inv: "oc_inv hashf timeout h c"
  shows "oc_inv hashf timeout (h @ [EvAdd tx]) (AddTransaction c tx)"
proof -
  note d = oc_invD [OF inv]
  have "oc_evidence (h @ [EvAdd tx]) (AddTransaction c tx)"
    using evidence_mono [OF d(3), of "EvAdd tx"] by (simp add: evidence_Add)
  moreover have "oc_timely (AddTransaction c tx)" "oc_voteTimeout (AddTransaction c tx) = timeout"
    using d(2,4) by (simp_all add: oc_timely_def AddTransaction_def)
  moreover have "mset (stage_ids (AddTransaction c tx)) = add_mset (ct_ID tx) (mset (stage_ids c))"
    by (simp add: stage_ids_def AddTransaction_def)
  moreover have same: "oc_blocks (AddTransaction c tx) = oc_blocks c"
    by (simp add: AddTransaction_def)
  moreover have "oc_tracked c \<Longrightarrow> oc_tracked (AddTransaction c tx)"
    by (rule oc_tracked_same [OF _ same]) (simp_all add: tracked_def AddTransaction_def)
  ultimately show ?thesis
    using d linked_blocks [OF d(5) same] by (simp add: oc_inv_def oc_wf_Add)
qed

lemma oc_inv_Vote:
  assumes inv: "oc_inv hashf timeout h c"
  shows "oc_inv hashf timeout (h @ [EvVote t s b]) (snd (RecordVote c t s b))"
proof -
  note d = oc_invD [OF inv]
  have "oc_evidence (h @ [EvVote t s b]) (snd (RecordVote c t s b))"
    using evidence_mono [OF d(3), of "EvVote t s b"] d(1) by (simp add: evidence_Vote)
  moreover note same = RecordVote_simps(2) [OF d(1), of t s b]
  moreover have "oc_tracked c \<Longrightarrow> oc_tracked (snd (RecordVote c t s b))"
    by (rule oc_tracked_same [OF _ same]) (simp_all add: tracked_Vote d)
  ultimately show ?thesis
    using d stage_distinct [OF inv] linked_blocks [OF d(5) same]
    by (simp add: oc_inv_def oc_wf_Vote timely_Vote stage_Vote RecordVote_simps(1))
qed

lemma oc_inv_Timeouts:
  assumes inv: "oc_inv hashf timeout h c" and small: "unat (oc_height c) + unat (oc_voteTimeout c) < 2 ^ 64"
  shows "oc_inv hashf timeout (h @ [EvTimeouts]) (snd (CheckTimeouts c))"
proof -
  note d = oc_invD [OF inv]
  have "oc_evidence (h @ [EvTimeouts]) (snd (CheckTimeouts c))"
    using evidence_mono [OF d(3), of EvTimeouts] d(1,2) small by (simp add: evidence_Timeouts)
  moreover have "oc_timely (snd (CheckTimeouts c))" "oc_voteTimeout (snd (CheckTimeouts c)) = timeout"
    using d(2,4) by (simp_all add: CheckTimeouts_def timely_abort_all)
  moreover have same: "oc_blocks (snd (CheckTimeouts c)) = oc_blocks c"
    by (simp add: CheckTimeouts_def)
  moreover have "oc_tracked c \<Longrightarrow> oc_tracked (snd (CheckTimeouts c))"
    by (rule oc_tracked_same [OF _ same]) (simp_all add: CheckTimeouts_def tracked_abort_all d)
  ultimately show ?thesis
    using d stage_distinct [OF inv] linked_blocks [OF d(5) same] by (simp add: oc_inv_def oc_wf_Timeouts stage_Timeouts)
qed

lemma oc_inv_Produce:
  assumes inv: "oc_inv hashf timeout h c" and small: "unat (oc_height c) + unat (oc_voteTimeout c) + 1 < 2 ^ 64"
  shows "\<exists>block c'. OC_ProduceBlock hashf now c = Some (block, c') \<and> oc_inv hashf timeout (h @ [EvProduce now]) c'"
proof -
  note d = oc_invD [OF inv]
  obtain block c' where p: "OC_ProduceBlock hashf now c = Some (block, c')" and "oc_wf c'"
    using oc_wf_Produce [OF d(1), of hashf now] small by auto
  moreover have "oc_voteTimeout c' = timeout"
    using p d(4) by (auto simp: ProduceBlock_result [OF d(1)] Let_def)
  ultimately show ?thesis
    using timely_Produce [OF d(1,2) small p] evidence_Produce [OF d(1-3) small p]
      stage_Produce [OF d(1) _ p] oc_tracked_Produce [OF d(1,2) _ _ p] linked_Produce [OF d(1,5) p]
      d(6,7) stage_distinct [OF inv] by (simp add: oc_inv_def)
qed

lemma oc_inv_step:
  assumes inv: "oc_inv hashf timeout h c" and adm: "oc_admissible timeout (h @ [e])"
  shows "\<exists>c'. oc_step hashf c e = Some c' \<and> oc_inv hashf timeout (h @ [e]) c'"
proof -
  have small: "unat (oc_height c) + unat (oc_voteTimeout c) + produced [e] < 2 ^ 64"
    using adm oc_invD(4,8) [OF inv] by (simp add: oc_admissible_def)
  show ?thesis
  proof (cases e)
    case (EvProduce now)
    with oc_inv_Produce [OF inv, of now] small show ?thesis
      by auto
  qed (use small oc_inv_Add [OF inv] oc_inv_Vote [OF inv] oc_inv_Timeouts [OF inv] in auto)
qed

interpretation oc: machine_invariant "oc_init now timeout" "oc_step hashf" "oc_admissible timeout" "oc_inv hashf timeout"
  for now timeout hashf
proof
  show "oc_admissible timeout h" if "oc_admissible timeout (h @ [e])" for h e
    using that by (simp add: oc_admissible_def)
qed (rule oc_inv_init oc_inv_step; assumption)+

subsection \<open>Unanimous votes\<close>

definition cast_votes :: "OrchestratorChain \<Rightarrow> txid \<Rightarrow> int list \<Rightarrow> OrchestratorChain" where
  "cast_votes c t shards = fold (\<lambda>s c. snd (RecordVote c t s True)) shards c"

lemma cast_votes_unanimous:
  assumes "oc_wf c" and "mget (oc_awaitingVotes c) t = Some ct" and "vs = mgetd [] (oc_votes c) t"
    and "wfmap vs" and "set (mkeys vs) \<inter> set ss = {}" and "distinct ss"
    and "set (mkeys vs) \<union> set ss = set (InvolvedShards ct)" and "ss \<noteq> []"
  shows "mget (oc_pendingResult (cast_votes c t ss)) t = Some True"
  using assms
proof (induction ss arbitrary: c vs)
  case (Cons s ss)
  have fresh: "mget vs s = None"
    using Cons.prems(5) by (simp add: mget_None_iff)
  have "length (InvolvedShards ct) = card (set (mkeys vs) \<union> set (s # ss))"
    using Cons.prems(7) distinct_card [OF distinct_InvolvedShards] by metis
  also have "\<dots> = length vs + length (s # ss)"
    using Cons.prems(4-6) card_Un_disjoint [of "set (mkeys vs)" "set (s # ss)"]
    by (simp add: wfmap_def distinct_card del: set_map)
  finally have len: "length (InvolvedShards ct) = Suc (length vs + length ss)"
    by simp
  note rec = RecordVote_fresh [OF Cons.prems(1-3) fresh, of True]
  show ?case
  proof (cases ss)
    case Nil
    have "s' = s \<or> mget vs s' \<noteq> None" if "s' \<in> set (InvolvedShards ct)" for s'
      using that Nil unfolding Cons.prems(7) [symmetric] mget_in_keys by auto
    with len Nil show ?thesis
      by (simp add: cast_votes_def rec gomap_simps)
  next
    case (Cons s2 ss2)
    let ?c = "c\<lparr>oc_votes := mput t (mput s True vs) (oc_votes c)\<rparr>"
    have "snd (RecordVote c t s True) = ?c"
      using len Cons by (simp add: rec)
    moreover have "mget (oc_pendingResult (cast_votes ?c t ss)) t = Some True"
      using Cons.prems Cons by (intro Cons.IH [of _ "mput s True vs"])
        (auto simp: oc_wf_votes mgetd_mput dom_update)
    ultimately show ?thesis
      by (simp add: cast_votes_def)
  qed
qed simp
lemma evidence_published:
  "oc_evidence h c \<Longrightarrow> b \<in> set (oc_blocks c) \<Longrightarrow> mget (ob_TpcResult b) t = Some d \<Longrightarrow>
     decided_ok (unat (oc_voteTimeout c)) h t d"
  unfolding oc_evidence_def by blast

lemma admissible_length: "unat timeout + length h < 2 ^ 64 \<Longrightarrow> oc_admissible timeout h"
  using produced_le [of h] by (simp add: oc_admissible_def)

lemmas oc_reach = oc.run_reachable [OF admissible_length]
lemmas oc_total = oc.run_invariant [OF admissible_length]

subsection \<open>Properties\<close>

definition sample_ct :: CrossShardTx where
  "sample_ct = CrossShardTx_zero\<lparr>ct_ID := ''t1'', ct_FromShard := 1,
     ct_RwSet := [\<lparr>rw_Address = 7, rw_ReferenceBlock = \<lparr>ShardNum = 2, BlockHash = 0, BlockHeight = 0\<rparr>,
       rw_ReadSet = [], rw_WriteSet = []\<rparr>]\<rparr>"

definition sample_commit :: "oc_event list" where
  "sample_commit = [EvAdd sample_ct, EvProduce 0, EvVote ''t1'' 2 True, EvVote ''t1'' 1 True, EvProduce 0]"

definition sample_abort :: "oc_event list" where
  "sample_abort = [EvAdd sample_ct, EvProduce 0, EvVote ''t1'' 2 True, EvProduce 0, EvProduce 0]"

definition sample_chain :: "u64 \<Rightarrow> oc_event list \<Rightarrow> OrchestratorChain" where
  "sample_chain timeout h = the (run_machine (oc_step (\<lambda>_. 0)) (oc_init 0 timeout) h)"

text \<open>C11. Commit needs unanimity: in every run of the orchestrator chain, a block carries a commit for a
  transaction only if that transaction was submitted and every shard it involves has voted YES.\<close>

theorem commit_needs_all_yes:
  assumes "unat timeout + length h < 2 ^ 64"
    and "run_machine (oc_step hashf) (oc_init now timeout) h = Some c"
    and "b \<in> set (oc_blocks c)" and "mget (ob_TpcResult b) t = Some True"
  shows "\<exists>tx. EvAdd tx \<in> set h \<and> ct_ID tx = t \<and> (\<forall>s \<in> set (InvolvedShards tx). EvVote t s True \<in> set h)"
proof -
  have "oc_evidence h c"
    using oc_reach [OF assms(1,2)] by (simp add: oc_inv_def)
  from evidence_published [OF this assms(3,4)] show ?thesis
    by (simp add: decided_ok_def)
qed

theorem commit_needs_all_yes_witness:
  "\<exists>tx. EvAdd tx \<in> set sample_commit \<and> ct_ID tx = ''t1''
     \<and> (\<forall>s \<in> set (InvolvedShards tx). EvVote ''t1'' s True \<in> set sample_commit)"
proof (rule commit_needs_all_yes [of 10 _ "\<lambda>_. 0" 0])
  show "run_machine (oc_step (\<lambda>_. 0)) (oc_init 0 10) sample_commit =
      Some (sample_chain 10 sample_commit)"
    by code_simp
  show "last (oc_blocks (sample_chain 10 sample_commit))
      \<in> set (oc_blocks (sample_chain 10 sample_commit))"
    by code_simp
  show "mget (ob_TpcResult (last (oc_blocks (sample_chain 10 sample_commit)))) ''t1'' = Some True"
    by code_simp
qed (simp add: sample_commit_def)

text \<open>Aborts have a reason: a block carries an abort for a transaction only if some shard voted NO on
  it, or at least the timeout's number of blocks has been produced since it was submitted.\<close>

lemma abort_has_reason:
  assumes "unat timeout + length h < 2 ^ 64"
    and "run_machine (oc_step hashf) (oc_init now timeout) h = Some c"
    and "b \<in> set (oc_blocks c)" and "mget (ob_TpcResult b) t = Some False"
  shows "(\<exists>s. EvVote t s False \<in> set h)
    \<or> (\<exists>p q. h = p @ q \<and> t \<in> set (added_ids p) \<and> unat timeout \<le> produced q)"
proof -
  have "oc_evidence h c" "oc_voteTimeout c = timeout"
    using oc_reach [OF assms(1,2)] by (simp_all add: oc_inv_def)
  with evidence_published [OF this(1) assms(3,4)] show ?thesis
    by (simp add: decided_ok_def)
qed

text \<open>C14. No panic and exactly one stage: for every sequence of operations on transactions with distinct IDs
  the chain stays within its slices, and the IDs queued, being voted on, decided and published in
  blocks are together exactly the submitted IDs. So no transaction is lost or decided twice.\<close>

theorem every_tx_in_one_stage:
  assumes "unat timeout + length h < 2 ^ 64" and "distinct (added_ids h)"
  shows "\<exists>c. run_machine (oc_step hashf) (oc_init now timeout) h = Some c
    \<and> mset (stage_ids c) = mset (added_ids h)"
  using oc_total [OF assms(1), of hashf now] assms(2) by (auto simp: oc_inv_def)

theorem every_tx_in_one_stage_witness:
  "\<exists>c. run_machine (oc_step (\<lambda>_. 0)) (oc_init 0 10) sample_commit = Some c
    \<and> mset (stage_ids c) = mset (added_ids sample_commit)"
  by (rule every_tx_in_one_stage) (simp_all add: sample_commit_def)



text \<open>The blocks form a chain: there are as many blocks as the height says, block \<open>i\<close> has height
  \<open>i\<close>, and every block but the first carries the hash of the block before it.\<close>

lemma orchestrator_blocks_linked:
  assumes "unat timeout + length h < 2 ^ 64"
    and "run_machine (oc_step hashf) (oc_init now timeout) h = Some c"
  shows "length (oc_blocks c) = Suc (unat (oc_height c))
    \<and> (\<forall>i < length (oc_blocks c). ob_Height (oc_blocks c ! i) = of_nat i
        \<and> (0 < i \<longrightarrow> ob_PrevHash (oc_blocks c ! i) = hashf (oc_blocks c ! (i - 1))))"
  using oc_reach [OF assms] by (simp add: oc_inv_def oc_wf_def oc_linked_def)

text \<open>Unanimity commits: if no vote has been cast yet on a transaction that awaits votes, then one YES
  vote of each involved shard, in any order, decides it as committed.\<close>

lemma unanimous_votes_commit:
  assumes "oc_wf c" and "mget (oc_awaitingVotes c) t = Some ct" and "mget (oc_votes c) t = None"
    and "distinct ss" and "set ss = set (InvolvedShards ct)"
  shows "mget (oc_pendingResult (cast_votes c t ss)) t = Some True"
proof -
  have "ss \<noteq> []"
    using assms(5) by (auto simp: set_InvolvedShards)
  with assms show ?thesis
    by (intro cast_votes_unanimous [where vs = "[]"]) (auto simp: mgetd_def)
qed

text \<open>Who may abort: a NO vote on a transaction that awaits votes is accepted and aborts it whoever sends
  it first, also a shard that the transaction does not involve.\<close>

lemma any_shard_can_abort:
  assumes "oc_wf c" and "mget (oc_awaitingVotes c) t = Some ct" and "s \<notin> set (InvolvedShards ct)"
    and "mget (mgetd [] (oc_votes c) t) s = None"
  shows "RecordVote c t s False = (True, settle c t False)"
  using RecordVote_fresh [OF assms(1,2) refl assms(4), of False] by simp

end
