(* ===== verification/Simulator.thy ===== *)
theory Simulator
  imports Simulation_StateDB Orchestrator_Chain
begin

text \<open>
  The simulator of the orchestrator (\<open>internal/orchestrator/simulator.go\<close>): a queue of transactions, a
  worker that runs each of them once on a fresh simulation database, and a table of results. Its two
  callbacks are functions on the state \<open>'w\<close> of whoever installed them; times are nanoseconds. The
  state fetcher is the one the service shares with the simulator and is kept here.
\<close>

definition ResultTTL :: int where
  "ResultTTL = 10 * 60 * 1000000000"

definition QueueCapacity :: nat where
  "QueueCapacity = 100"

record SimulationResult =
  so_TxID :: txid
  so_Status :: SimulationStatus
  so_RwSet :: "RwVariable list"
  so_GasUsed :: u64
  so_Error :: string
  so_CreatedAt :: int

record 'd Simulator =
  sm_fetcher :: "'d StateFetcher"
  sm_queue :: "CrossShardTx list"
  sm_results :: "(txid, SimulationResult) gomap"
  sm_closing :: bool

definition NewSimulator :: "'d StateFetcher \<Rightarrow> 'd Simulator" where
  "NewSimulator fetcher = \<lparr>sm_fetcher = fetcher, sm_queue = [], sm_results = [], sm_closing = False\<rparr>"

text \<open>
  A submission that waits and then finds room is the submission at that later moment; one that finds none
  until the timer fires is refused.
\<close>

definition Submit :: "int \<Rightarrow> CrossShardTx \<Rightarrow> 'd Simulator \<Rightarrow> string option \<times> 'd Simulator" where
  "Submit now tx sm =
     (if sm_closing sm then (Some ''simulator is shutting down'', sm)
      else let r = \<lparr>so_TxID = ct_ID tx, so_Status = SimPending, so_RwSet = [], so_GasUsed = 0, so_Error = [], so_CreatedAt = now\<rparr>
           in if length (sm_queue sm) < QueueCapacity
              then (None, sm\<lparr>sm_results := mput (ct_ID tx) r (sm_results sm), sm_queue := sm_queue sm @ [tx]\<rparr>)
              else (Some ''simulation queue full (timeout)'',
                    sm\<lparr>sm_results := mput (ct_ID tx) (r\<lparr>so_Status := SimFailed, so_Error := ''simulation queue full''\<rparr>) (sm_results sm)\<rparr>))"

definition GetResult :: "txid \<Rightarrow> 'd Simulator \<Rightarrow> SimulationResult option" where
  "GetResult txID sm = mget (sm_results sm) txID"

definition Simulator_Stop :: "'d Simulator \<Rightarrow> 'd Simulator" where
  "Simulator_Stop sm = sm\<lparr>sm_closing := True\<rparr>"

definition cleanupExpiredResults :: "int \<Rightarrow> 'd Simulator \<Rightarrow> 'd Simulator" where
  "cleanupExpiredResults now sm =
     sm\<lparr>sm_results := filter (\<lambda>(txID, r). \<not> ResultTTL \<le> now - so_CreatedAt r) (sm_results sm)\<rparr>"

definition sim_target :: "CrossShardTx \<Rightarrow> address" where
  "sim_target tx = (if ct_To tx = 0 \<and> 0 < length (ct_RwSet tx) then rw_Address (hd (ct_RwSet tx)) else ct_To tx)"

definition sim_gas :: "CrossShardTx \<Rightarrow> u64" where
  "sim_gas tx = (if ct_Gas tx = 0 then (if 0 < length (ct_Data tx) then 1000000 else 21000) else ct_Gas tx)"

definition sim_ctx :: "CrossShardTx \<Rightarrow> evm_ctx" where
  "sim_ctx tx = \<lparr>cx_Origin = ct_From tx, cx_BlockNumber = 1, cx_Time = 1, cx_GasLimit = 30000000\<rparr>"

text \<open>The EVM run of a transaction on a fresh database, after \<open>Prepare\<close>.\<close>

definition simulate :: "'d orch_env \<Rightarrow> CrossShardTx \<Rightarrow> 'd StateFetcher \<Rightarrow> (evm_result \<times> 'd SimulationStateDB) option" where
  "simulate E tx sf =
     (case Sim_Prepare (ct_From tx) 0 None [] [] (NewSimulationStateDB (ct_ID tx) sf) of
        None \<Rightarrow> None
      | Some db \<Rightarrow>
          (case run_evm (oe_Call E (sim_ctx tx) (ct_From tx) (sim_target tx) (ct_Data tx) (sim_gas tx) (oe_FromBig E (ToBigInt (ct_Value tx))))
                  (sim_db E) (Some db) of
             (res, None) \<Rightarrow> None
           | (res, Some db1) \<Rightarrow> Some (res, db1)))"

text \<open>The first fetch error takes precedence over the error of the execution.\<close>

definition sim_error :: "evm_result \<Rightarrow> 'd SimulationStateDB \<Rightarrow> string option" where
  "sim_error res db = (if HasFetchErrors db then Some (hd (GetFetchErrors db)) else er_err res)"

definition mark_running :: "txid \<Rightarrow> 'd Simulator \<Rightarrow> 'd Simulator" where
  "mark_running txID sm =
     (case mget (sm_results sm) txID of
        Some r \<Rightarrow> sm\<lparr>sm_results := mput txID (r\<lparr>so_Status := SimRunning\<rparr>) (sm_results sm)\<rparr>
      | None \<Rightarrow> sm)"

text \<open>\<open>None\<close>: a panic, which ends the process, since the worker does not recover.\<close>

definition runSimulation :: "'d orch_env \<Rightarrow> int \<Rightarrow> (CrossShardTx \<Rightarrow> 'w \<Rightarrow> 'w) \<Rightarrow> (CrossShardTx \<Rightarrow> 'w \<Rightarrow> 'w) option \<Rightarrow> CrossShardTx
    \<Rightarrow> 'd Simulator \<times> 'w \<Rightarrow> ('d Simulator \<times> 'w) option" where
  "runSimulation E now onSuccess onError tx st =
     (let sm = mark_running (ct_ID tx) (fst st); w = snd st in
      case simulate E tx (sm_fetcher sm) of
        None \<Rightarrow> None
      | Some (res, db) \<Rightarrow>
          let gasUsed = sim_gas tx - er_gasLeft res;
              sm1 = sm\<lparr>sm_fetcher := ClearCache (ct_ID tx) (sd_fetcher db)\<rparr>;
              result = \<lparr>so_TxID = ct_ID tx, so_Status = SimUnset, so_RwSet = [], so_GasUsed = gasUsed, so_Error = [], so_CreatedAt = now\<rparr>
          in case sim_error res db of
               Some err \<Rightarrow>
                 Some (sm1\<lparr>sm_results := mput (ct_ID tx) (result\<lparr>so_Status := SimFailed, so_Error := err\<rparr>) (sm_results sm1)\<rparr>,
                       case onError of None \<Rightarrow> w | Some f \<Rightarrow> f (tx\<lparr>ct_SimStatus := SimFailed, ct_SimError := err\<rparr>) w)
             | None \<Rightarrow>
                 (case BuildRwSet (vf_HashBytes (oe_verifier E)) db of
                    None \<Rightarrow> None
                  | Some rwSet \<Rightarrow>
                      Some (sm1\<lparr>sm_results := mput (ct_ID tx) (result\<lparr>so_Status := SimSuccess, so_RwSet := rwSet\<rparr>) (sm_results sm1)\<rparr>,
                            onSuccess (tx\<lparr>ct_RwSet := rwSet, ct_Gas := gasUsed\<rparr>) w)))"

end
