(* ===== verification/Orchestrator_Service.thy ===== *)
theory Orchestrator_Service
  imports Simulator
begin

text \<open>
  The orchestrator service (\<open>internal/orchestrator/service.go\<close>): its handlers on decoded requests, the
  callbacks it gives the simulator, the block producer and the broadcast with retries. A handler that
  panics has kept the changes it made before; the HTTP server goes on. The worker of the simulator and
  the block producer are steps of their own. Sends of one broadcast touch nothing but the network, so
  they are taken one after the other.
\<close>

definition BroadcastMaxRetries :: nat where
  "BroadcastMaxRetries = 3"

definition BroadcastInitialBackoff :: nat where
  "BroadcastInitialBackoff = 100"

definition BroadcastMaxBackoff :: nat where
  "BroadcastMaxBackoff = 2000"

text \<open>\<open>se_slept\<close> adds up the waiting times of the broadcasts in milliseconds.\<close>

record 'd Service =
  se_numShards :: int
  se_pending :: "(txid, CrossShardTx) gomap"
  se_chain :: OrchestratorChain
  se_simulator :: "'d Simulator"
  se_sent :: "orch_request list"
  se_slept :: nat
  se_uuids :: nat
  se_closed :: bool

definition NewService :: "u64 \<Rightarrow> int \<Rightarrow> 'd BytecodeStore \<Rightarrow> 'd Service" where
  "NewService now numShards bytecodeStore =
     \<lparr>se_numShards = numShards, se_pending = [], se_chain = NewOrchestratorChain now,
      se_simulator = NewSimulator (NewStateFetcher numShards bytecodeStore),
      se_sent = [], se_slept = 0, se_uuids = 0, se_closed = False\<rparr>"

definition service_onSuccess :: "CrossShardTx \<Rightarrow> 'd Service \<Rightarrow> 'd Service" where
  "service_onSuccess tx s = s\<lparr>se_pending := mput (ct_ID tx) (CrossShardTx_DeepCopy tx) (se_pending s),
     se_chain := AddTransaction (se_chain s) tx\<rparr>"

definition service_onError :: "CrossShardTx \<Rightarrow> 'd Service \<Rightarrow> 'd Service" where
  "service_onError tx s = s\<lparr>se_chain := AddTransaction (se_chain s) tx\<rparr>"

definition Service_Close :: "'d orch_env \<Rightarrow> 'd Service \<Rightarrow> string option \<times> 'd Service" where
  "Service_Close E s =
     (if se_closed s then (None, s)
      else let sm = Simulator_Stop (se_simulator s);
               (err, sf) = StateFetcher_Close E (sm_fetcher sm)
           in (err, s\<lparr>se_closed := True, se_simulator := sm\<lparr>sm_fetcher := sf\<rparr>\<rparr>))"

definition AddPendingTx :: "CrossShardTx \<Rightarrow> 'd Service \<Rightarrow> 'd Service" where
  "AddPendingTx tx0 s =
     (let tx = tx0\<lparr>ct_Status := TxPending\<rparr>
      in s\<lparr>se_pending := mput (ct_ID tx) (CrossShardTx_DeepCopy tx) (se_pending s), se_chain := AddTransaction (se_chain s) tx\<rparr>)"

definition GetTxStatus :: "txid \<Rightarrow> 'd Service \<Rightarrow> TxStatus" where
  "GetTxStatus txID s = (case mget (se_pending s) txID of Some tx \<Rightarrow> ct_Status tx | None \<Rightarrow> TxStatusUnset)"

definition updateStatus :: "txid \<Rightarrow> TxStatus \<Rightarrow> 'd Service \<Rightarrow> 'd Service" where
  "updateStatus txID status s =
     (case mget (se_pending s) txID of
        Some tx \<Rightarrow> s\<lparr>se_pending := mput txID (tx\<lparr>ct_Status := status\<rparr>) (se_pending s)\<rparr>
      | None \<Rightarrow> s)"

subsection \<open>The broadcast\<close>

definition Service_shardURL :: "int \<Rightarrow> string" where
  "Service_shardURL shardID = ''http://shard-'' @ show_int shardID @ '':8545''"

definition block_request :: "int \<Rightarrow> OrchestratorShardBlock \<Rightarrow> orch_request" where
  "block_request shardID block = \<lparr>oq_method = ''POST'', oq_host = Service_shardURL shardID,
     oq_path = [''orchestrator-shard'', ''block''], oq_query = [], oq_body = BlockPayload block\<rparr>"

definition send_do :: "'d orch_env \<Rightarrow> orch_request \<Rightarrow> 'd Service \<Rightarrow> (string + orch_response) \<times> 'd Service" where
  "send_do E rq s = (oe_http E (length (se_sent s)) rq, s\<lparr>se_sent := se_sent s @ [rq]\<rparr>)"

function send_loop :: "'d orch_env \<Rightarrow> orch_request \<Rightarrow> nat \<Rightarrow> nat \<Rightarrow> 'd Service \<Rightarrow> 'd Service" where
  "send_loop E rq attempt backoff s =
     (if attempt \<le> BroadcastMaxRetries
      then let s1 = (if 0 < attempt then s\<lparr>se_slept := se_slept s + backoff\<rparr> else s);
               backoff1 = (if 0 < attempt then min (backoff * 2) BroadcastMaxBackoff else backoff);
               (out, s2) = send_do E rq s1;
               success = (case out of Inl err \<Rightarrow> False | Inr resp \<Rightarrow> op_status resp = 200)
           in if success then s2 else send_loop E rq (attempt + 1) backoff1 s2
      else s)"
  by pat_completeness auto
termination by (relation "measure (\<lambda>(E, rq, attempt, backoff, s). Suc BroadcastMaxRetries - attempt)") auto

declare send_loop.simps [simp del]

definition sendBlockToShardWithRetry :: "'d orch_env \<Rightarrow> int \<Rightarrow> OrchestratorShardBlock \<Rightarrow> 'd Service \<Rightarrow> 'd Service" where
  "sendBlockToShardWithRetry E shardID block s = send_loop E (block_request shardID block) 0 BroadcastInitialBackoff s"

definition broadcastBlock :: "'d orch_env \<Rightarrow> OrchestratorShardBlock \<Rightarrow> 'd Service \<Rightarrow> 'd Service" where
  "broadcastBlock E block s =
     fold (\<lambda>i. sendBlockToShardWithRetry E (int i) block) [0..<nat (se_numShards s)] s"

text \<open>One turn of \<open>blockProducer\<close>; \<open>None\<close> is the panic of \<open>ProduceBlock\<close>.\<close>

definition settle_result :: "txid \<times> bool \<Rightarrow> 'd Service \<Rightarrow> 'd Service" where
  "settle_result res s =
     (let s1 = updateStatus (fst res) (if snd res then TxCommitted else TxAborted) s;
          sm = se_simulator s1
      in s1\<lparr>se_simulator := sm\<lparr>sm_fetcher := ClearCache (fst res) (sm_fetcher sm)\<rparr>\<rparr>)"

definition service_tick :: "'d orch_env \<Rightarrow> u64 \<Rightarrow> 'd Service \<Rightarrow> 'd Service option" where
  "service_tick E now s =
     (case OC_ProduceBlock (oe_blockHash E) now (se_chain s) of
        None \<Rightarrow> None
      | Some (block, c) \<Rightarrow>
          Some (broadcastBlock E block (fold settle_result (ob_TpcResult block) (s\<lparr>se_chain := c\<rparr>))))"

text \<open>One turn of the simulator's worker: the first job of the queue.\<close>

definition worker_step :: "'d orch_env \<Rightarrow> int \<Rightarrow> 'd Service \<Rightarrow> 'd Service option" where
  "worker_step E now s =
     (case sm_queue (se_simulator s) of
        [] \<Rightarrow> Some s
      | tx # rest \<Rightarrow>
          (case runSimulation E now service_onSuccess (Some service_onError) tx ((se_simulator s)\<lparr>sm_queue := rest\<rparr>, s) of
             None \<Rightarrow> None
           | Some (sm, s1) \<Rightarrow> Some (s1\<lparr>se_simulator := sm\<rparr>)))"

subsection \<open>Handlers\<close>

datatype svalue = SText string | SNum int | SBlock OrchestratorShardBlock

datatype sreply = SError nat string | SObject "(string \<times> svalue) list" | SArray "(string \<times> svalue) list list" | SBlockReply OrchestratorShardBlock

datatype soutcome = SReply sreply | SPanic

fun status_text :: "TxStatus \<Rightarrow> string" where
  "status_text TxPending = ''pending''"
| "status_text TxPrepared = ''prepared''"
| "status_text TxCommitted = ''committed''"
| "status_text TxAborted = ''aborted''"
| "status_text TxStatusUnset = []"

fun sim_status_text :: "SimulationStatus \<Rightarrow> string" where
  "sim_status_text SimPending = ''pending''"
| "sim_status_text SimRunning = ''running''"
| "sim_status_text SimSuccess = ''success''"
| "sim_status_text SimFailed = ''failed''"
| "sim_status_text SimUnset = []"

definition sbad :: "nat \<Rightarrow> string \<Rightarrow> soutcome" where
  "sbad code msg = SReply (SError code msg)"

text \<open>The transaction with an identifier, as both submission handlers begin.\<close>

definition with_id :: "'d orch_env \<Rightarrow> CrossShardTx \<Rightarrow> 'd Service \<Rightarrow> CrossShardTx \<times> 'd Service" where
  "with_id E tx s =
     (if ct_ID tx = [] then (tx\<lparr>ct_ID := oe_uuid E (se_uuids s), ct_Status := TxPending\<rparr>, s\<lparr>se_uuids := se_uuids s + 1\<rparr>)
      else (tx\<lparr>ct_Status := TxPending\<rparr>, s))"

definition shard_valid :: "'d Service \<Rightarrow> int \<Rightarrow> bool" where
  "shard_valid s i \<longleftrightarrow> \<not> (i < 0 \<or> se_numShards s \<le> i)"

text \<open>The value is printed through its pointer before the transaction reaches the chain: a missing one panics.\<close>

definition Service_handleSubmit :: "'d orch_env \<Rightarrow> string + CrossShardTx \<Rightarrow> 'd Service \<Rightarrow> soutcome \<times> 'd Service" where
  "Service_handleSubmit E body s0 =
     (case body of
        Inl err \<Rightarrow> (sbad 400 err, s0)
      | Inr tx0 \<Rightarrow>
          let (tx, s) = with_id E tx0 s0 in
          if \<not> shard_valid s (ct_FromShard tx) then (sbad 400 ''invalid from_shard ID'', s)
          else if list_ex (\<lambda>rw. \<not> shard_valid s (ShardNum (rw_ReferenceBlock rw))) (ct_RwSet tx)
          then (sbad 400 ''invalid target shard ID in RwSet'', s)
          else let s1 = s\<lparr>se_pending := mput (ct_ID tx) (CrossShardTx_DeepCopy tx) (se_pending s)\<rparr>
               in if ct_Value tx = None then (SPanic, s1)
                  else (SReply (SObject [(''tx_id'', SText (ct_ID tx)), (''status'', SText (status_text (ct_Status tx)))]),
                        s1\<lparr>se_chain := AddTransaction (se_chain s1) tx\<rparr>))"

definition Service_handleCall :: "'d orch_env \<Rightarrow> int \<Rightarrow> string + CrossShardTx \<Rightarrow> 'd Service \<Rightarrow> soutcome \<times> 'd Service" where
  "Service_handleCall E now body s0 =
     (case body of
        Inl err \<Rightarrow> (sbad 400 err, s0)
      | Inr tx0 \<Rightarrow>
          let (tx, s) = with_id E tx0 s0 in
          if \<not> shard_valid s (ct_FromShard tx) then (sbad 400 ''invalid from_shard ID'', s)
          else (case Submit now tx (se_simulator s) of
                  (Some err, sm) \<Rightarrow> (sbad 503 (''simulation queue full: '' @ err), s\<lparr>se_simulator := sm\<rparr>)
                | (None, sm) \<Rightarrow>
                    (SReply (SObject [(''tx_id'', SText (ct_ID tx)), (''status'', SText (sim_status_text SimPending))]), s\<lparr>se_simulator := sm\<rparr>)))"

definition handleSimulationStatus :: "txid \<Rightarrow> 'd Service \<Rightarrow> soutcome" where
  "handleSimulationStatus txID s =
     (case GetResult txID (se_simulator s) of
        None \<Rightarrow> sbad 404 ''simulation not found''
      | Some r \<Rightarrow>
          SReply (SObject ([(''tx_id'', SText (so_TxID r)), (''status'', SText (sim_status_text (so_Status r))), (''gas_used'', SNum (uint (so_GasUsed r)))]
            @ (if so_Error r \<noteq> [] then [(''error'', SText (so_Error r))] else [])
            @ (if 0 < length (so_RwSet r) then [(''rw_set_count'', SNum (int (length (so_RwSet r))))] else []))))"

definition handleStatus :: "txid \<Rightarrow> 'd Service \<Rightarrow> soutcome" where
  "handleStatus txID s =
     (case mget (se_pending s) txID of
        None \<Rightarrow> sbad 404 ''transaction not found''
      | Some tx \<Rightarrow> SReply (SObject [(''tx_id'', SText (ct_ID tx)), (''status'', SText (status_text (ct_Status tx)))]))"

definition Service_handleHealth :: soutcome where
  "Service_handleHealth = SReply (SObject [(''status'', SText ''healthy'')])"

text \<open>A negative length makes \<open>make\<close> panic.\<close>

definition handleShards :: "'d Service \<Rightarrow> soutcome" where
  "handleShards s =
     (if se_numShards s < 0 then SPanic
      else SReply (SArray (map (\<lambda>i. [(''id'', SNum (int i)), (''url'', SText (Service_shardURL (int i)))]) [0..<nat (se_numShards s)])))"

definition record_prepare :: "int \<Rightarrow> txid \<times> bool \<Rightarrow> 'd Service \<Rightarrow> 'd Service" where
  "record_prepare shardID vote s =
     (case RecordVote (se_chain s) (fst vote) shardID (snd vote) of
        (recorded, c) \<Rightarrow>
          let s1 = s\<lparr>se_chain := c\<rparr> in if recorded then updateStatus (fst vote) TxPrepared s1 else s1)"

definition handleStateShardBlock :: "string + StateShardBlock \<Rightarrow> 'd Service \<Rightarrow> soutcome \<times> 'd Service" where
  "handleStateShardBlock body s =
     (case body of
        Inl err \<Rightarrow> (sbad 400 err, s)
      | Inr block \<Rightarrow> (SReply (SObject [(''status'', SText ''ok'')]), fold (record_prepare (sb_ShardID block)) (sb_TpcPrepare block) s))"

text \<open>\<open>fmt.Sscanf\<close> with \<open>%d\<close> into a \<open>uint64\<close>: leading blanks, then decimal digits; what follows is ignored.\<close>

definition decimal :: "char \<Rightarrow> bool" where
  "decimal c \<longleftrightarrow> (case digit_val c of None \<Rightarrow> False | Some d \<Rightarrow> d < 10)"

definition blank :: "char \<Rightarrow> bool" where
  "blank c \<longleftrightarrow> c = CHR '' '' \<or> c = CHR 0x09"

definition scan_uint64 :: "string \<Rightarrow> u64 option" where
  "scan_uint64 str =
     (case scan_nat 10 (takeWhile decimal (dropWhile blank str)) of
        None \<Rightarrow> None
      | Some n \<Rightarrow> if n < 2 ^ 64 then Some (of_nat n) else None)"

definition handleGetBlock :: "string \<Rightarrow> 'd Service \<Rightarrow> soutcome" where
  "handleGetBlock heightStr s =
     (case scan_uint64 heightStr of
        None \<Rightarrow> sbad 400 ''invalid block height''
      | Some height \<Rightarrow>
          (case OC_GetBlock (se_chain s) height of
             None \<Rightarrow> sbad 404 ''block not found''
           | Some block \<Rightarrow> SReply (SBlockReply block)))"

definition handleGetLatestBlock :: "'d Service \<Rightarrow> soutcome" where
  "handleGetLatestBlock s =
     (let height = OC_GetHeight (se_chain s)
      in SReply (SObject ((''height'', SNum (uint height)) #
           (case OC_GetBlock (se_chain s) height of None \<Rightarrow> [] | Some block \<Rightarrow> [(''block'', SBlock block)]))))"

subsection \<open>The routes and the steps of the service\<close>

datatype orch_call =
    OrSubmit "string + CrossShardTx" | OrCall "string + CrossShardTx" | OrStatus txid | OrSimulation txid
  | OrStateBlock "string + StateShardBlock" | OrLatest | OrBlock string | OrHealth | OrShards

fun orch_serve :: "'d orch_env \<Rightarrow> int \<Rightarrow> orch_call \<Rightarrow> 'd Service \<Rightarrow> soutcome \<times> 'd Service" where
  "orch_serve E now (OrSubmit b) s = Service_handleSubmit E b s"
| "orch_serve E now (OrCall b) s = Service_handleCall E now b s"
| "orch_serve E now (OrStatus t) s = (handleStatus t s, s)"
| "orch_serve E now (OrSimulation t) s = (handleSimulationStatus t s, s)"
| "orch_serve E now (OrStateBlock b) s = handleStateShardBlock b s"
| "orch_serve E now OrLatest s = (handleGetLatestBlock s, s)"
| "orch_serve E now (OrBlock h) s = (handleGetBlock h s, s)"
| "orch_serve E now OrHealth s = (Service_handleHealth, s)"
| "orch_serve E now OrShards s = (handleShards s, s)"

text \<open>
  What happens to the service, in order: a request served, a turn of the worker or of the block
  producer, a turn of the cleanup worker, the shutdown. \<open>None\<close> is the end of the process by a panic.
\<close>

datatype orch_input = InServe int orch_call | InWorker int | InTick u64 | InCleanup int | InClose

fun service_step :: "'d orch_env \<Rightarrow> 'd Service \<Rightarrow> orch_input \<Rightarrow> 'd Service option" where
  "service_step E s (InServe now rq) = Some (snd (orch_serve E now rq s))"
| "service_step E s (InWorker now) = worker_step E now s"
| "service_step E s (InTick now) = service_tick E now s"
| "service_step E s (InCleanup now) = Some (s\<lparr>se_simulator := cleanupExpiredResults now (se_simulator s)\<rparr>)"
| "service_step E s InClose = Some (snd (Service_Close E s))"

subsection \<open>Fields that the steps leave alone\<close>

lemma updateStatus_simps [simp]:
  "se_chain (updateStatus t st s) = se_chain s" "se_simulator (updateStatus t st s) = se_simulator s"
  "se_sent (updateStatus t st s) = se_sent s" "se_slept (updateStatus t st s) = se_slept s" "se_numShards (updateStatus t st s) = se_numShards s"
  by (simp_all add: updateStatus_def split: option.splits)

lemma settle_result_simps [simp]:
  "se_chain (settle_result res s) = se_chain s" "se_sent (settle_result res s) = se_sent s" "se_slept (settle_result res s) = se_slept s"
  "se_numShards (settle_result res s) = se_numShards s" "sm_queue (se_simulator (settle_result res s)) = sm_queue (se_simulator s)"
  "se_pending (settle_result res s) = se_pending (updateStatus (fst res) (if snd res then TxCommitted else TxAborted) s)"
  by (simp_all add: settle_result_def Let_def)

subsection \<open>Sending a block\<close>

definition accepted_send :: "'d orch_env \<Rightarrow> nat \<Rightarrow> orch_request \<Rightarrow> bool" where
  "accepted_send E n rq \<longleftrightarrow> (case oe_http E n rq of Inl err \<Rightarrow> False | Inr resp \<Rightarrow> op_status resp = 200)"

lemma send_loop_first: "send_loop E rq 0 b s =
    (let s1 = s\<lparr>se_sent := se_sent s @ [rq]\<rparr>
     in if accepted_send E (length (se_sent s)) rq then s1 else send_loop E rq 1 b s1)"
  by (subst send_loop.simps) (simp add: send_do_def accepted_send_def BroadcastMaxRetries_def Let_def)

lemma send_loop_retry: "0 < n \<Longrightarrow> n \<le> 3 \<Longrightarrow> send_loop E rq n b s =
    (let s1 = s\<lparr>se_slept := se_slept s + b, se_sent := se_sent s @ [rq]\<rparr>
     in if accepted_send E (length (se_sent s)) rq then s1 else send_loop E rq (n + 1) (min (b * 2) BroadcastMaxBackoff) s1)"
  by (subst send_loop.simps) (simp add: send_do_def accepted_send_def BroadcastMaxRetries_def Let_def)

lemma send_loop_end: "3 < n \<Longrightarrow> send_loop E rq n b s = s"
  by (subst send_loop.simps) (simp add: BroadcastMaxRetries_def)

text \<open>One to four attempts, the last of which has been accepted unless there were four, and at most 700 ms of waiting.\<close>

lemma send_block:
  obtains m w where "1 \<le> m" "m \<le> 4" "w \<le> 700" "m < 4 \<longrightarrow> accepted_send E (length (se_sent s) + m - 1) (block_request i block)"
    "sendBlockToShardWithRetry E i block s =
       s\<lparr>se_sent := se_sent s @ replicate m (block_request i block), se_slept := se_slept s + w\<rparr>"
proof -
  let ?rq = "block_request i block" and ?n = "length (se_sent s)"
  let ?s = "\<lambda>m w. s\<lparr>se_sent := se_sent s @ replicate m ?rq, se_slept := se_slept s + w\<rparr>"
  have app: "replicate 2 x = [x, x]" "replicate 3 x = [x, x, x]" "replicate 4 x = [x, x, x, x]" for x :: orch_request
    by (simp_all add: numeral_eq_Suc)
  note loop = sendBlockToShardWithRetry_def BroadcastInitialBackoff_def send_loop_first send_loop_retry send_loop_end BroadcastMaxBackoff_def Let_def
  consider "accepted_send E ?n ?rq" | "\<not> accepted_send E ?n ?rq" "accepted_send E (?n + 1) ?rq"
    | "\<not> accepted_send E ?n ?rq" "\<not> accepted_send E (?n + 1) ?rq" "accepted_send E (?n + 2) ?rq"
    | "\<not> accepted_send E ?n ?rq" "\<not> accepted_send E (?n + 1) ?rq" "\<not> accepted_send E (?n + 2) ?rq"
    by blast
  then show ?thesis
  proof cases
    case 1
    then show ?thesis by (intro that [of 1 0]) (simp_all add: loop)
  next
    case 2
    then show ?thesis by (intro that [of 2 100]) (simp_all add: loop app)
  next
    case 3
    then show ?thesis by (intro that [of 3 300]) (simp_all add: loop app)
  next
    case 4
    then show ?thesis by (intro that [of 4 700]) (simp_all add: loop app)
  qed
qed

lemma broadcast_loop:
  "\<exists>m w. (\<forall>i < n. 1 \<le> m i \<and> m i \<le> 4) \<and> w \<le> 700 * n \<and>
     fold (\<lambda>i. sendBlockToShardWithRetry E (int i) block) [0..<n] s =
       s\<lparr>se_sent := se_sent s @ concat (map (\<lambda>i. replicate (m i) (block_request (int i) block)) [0..<n]), se_slept := se_slept s + w\<rparr>"
proof (induction n)
  case 0
  show ?case by simp
next
  case (Suc n)
  then obtain m w where m: "\<forall>i < n. 1 \<le> m i \<and> m i \<le> 4" "w \<le> 700 * n" and eq: "fold (\<lambda>i. sendBlockToShardWithRetry E (int i) block) [0..<n] s =
       s\<lparr>se_sent := se_sent s @ concat (map (\<lambda>i. replicate (m i) (block_request (int i) block)) [0..<n]), se_slept := se_slept s + w\<rparr>"
    by blast
  let ?s = "s\<lparr>se_sent := se_sent s @ concat (map (\<lambda>i. replicate (m i) (block_request (int i) block)) [0..<n]), se_slept := se_slept s + w\<rparr>"
  obtain k v where k: "1 \<le> k" "k \<le> 4" "v \<le> 700" "sendBlockToShardWithRetry E (int n) block ?s =
       ?s\<lparr>se_sent := se_sent ?s @ replicate k (block_request (int n) block), se_slept := se_slept ?s + v\<rparr>"
    by (rule send_block [of E ?s "int n" block])
  let ?f = "\<lambda>m i. replicate (m i) (block_request (int i) block)"
  have same: "map (?f (m(n := k))) [0..<n] = map (?f m) [0..<n]"
    by (rule map_cong) simp_all
  have "concat (map (?f (m(n := k))) [0..<Suc n]) = concat (map (?f m) [0..<n]) @ replicate k (block_request (int n) block)"
    unfolding upt_Suc_append [OF le0] map_append concat_append same by simp
  moreover have "fold (\<lambda>i. sendBlockToShardWithRetry E (int i) block) [0..<Suc n] s = s\<lparr>se_sent := se_sent s @
      concat (map (?f m) [0..<n]) @ replicate k (block_request (int n) block), se_slept := se_slept s + (w + v)\<rparr>"
    using eq k(4) by (simp add: add.assoc)
  moreover have "\<forall>i < Suc n. 1 \<le> (m(n := k)) i \<and> (m(n := k)) i \<le> 4" "w + v \<le> 700 * Suc n"
    using m k by (auto simp: less_Suc_eq)
  ultimately show ?case
    by (intro exI [of _ "m(n := k)"] exI [of _ "w + v"]) simp
qed

lemmas broadcast = broadcast_loop [of "nat (se_numShards s)" E block s for E block s, folded broadcastBlock_def]

lemma broadcastBlock_simps [simp]:
  "se_chain (broadcastBlock E block s) = se_chain s" "se_pending (broadcastBlock E block s) = se_pending s"
  "se_simulator (broadcastBlock E block s) = se_simulator s" "se_numShards (broadcastBlock E block s) = se_numShards s"
proof -
  obtain sent slept where "broadcastBlock E block s = s\<lparr>se_sent := sent, se_slept := slept\<rparr>"
    using broadcast [of s E block] by blast
  then show "se_chain (broadcastBlock E block s) = se_chain s" "se_pending (broadcastBlock E block s) = se_pending s"
    "se_simulator (broadcastBlock E block s) = se_simulator s" "se_numShards (broadcastBlock E block s) = se_numShards s"
    by simp_all
qed

lemma fold_settle_simps [simp]:
  "se_chain (fold settle_result rs s) = se_chain s" "se_numShards (fold settle_result rs s) = se_numShards s"
  "sm_queue (se_simulator (fold settle_result rs s)) = sm_queue (se_simulator s)"
  by (induction rs arbitrary: s) simp_all

subsection \<open>Simulations keep to the existing shards\<close>

text \<open>Whatever the network answers, the accounts of a simulation are placed on shards that exist.\<close>

definition placed :: "int \<Rightarrow> (address, accountState) gomap \<Rightarrow> bool" where
  "placed N A \<longleftrightarrow> (\<forall>a acct. mget A a = Some acct \<longrightarrow> 0 \<le> ac_ShardID acct \<and> ac_ShardID acct < N)"

definition sim_placed :: "int \<Rightarrow> 'd SimulationStateDB \<Rightarrow> bool" where
  "sim_placed N s \<longleftrightarrow> sf_numShards (sd_fetcher s) = N \<and> placed N (sd_accounts s) \<and> (\<forall>sn \<in> set (sd_snapshots s). placed N (sn_accounts sn))"

lemma placed_mput: "placed N A \<Longrightarrow> 0 \<le> ac_ShardID acct \<Longrightarrow> ac_ShardID acct < N \<Longrightarrow> placed N (mput a acct A)"
  by (simp add: placed_def mget_mput)

lemma owner_shard_range: "0 < N \<Longrightarrow> sf_numShards (sd_fetcher s) = N \<Longrightarrow> owner_shard a s = Some i \<Longrightarrow> 0 \<le> i \<and> i < N"
  by (auto simp: owner_shard_def AddressToShard_def)

lemma getOrFetchAccount_placed:
  assumes "0 < N" and "sim_placed N s" and "getOrFetchAccount E a s = Some ((acct, err), s1)"
  shows "sim_placed N s1" and "0 \<le> ac_ShardID acct \<and> ac_ShardID acct < N"
proof -
  have N: "sf_numShards (sd_fetcher s) = N"
    using assms(2) by (simp add: sim_placed_def)
  show "sim_placed N s1" "0 \<le> ac_ShardID acct \<and> ac_ShardID acct < N"
    using assms owner_shard_range [OF assms(1) N, of a]
    by (auto simp: getOrFetchAccount_def sim_placed_def fetched_account_def empty_account_def Let_def placed_def mget_mput
        dest: sf_numShards_FetchState split: option.splits prod.splits if_splits)
qed

lemma read_account_placed:
  assumes "0 < N" and "sim_placed N s" and "read_account E a f s = Some (x, s1)"
  shows "sim_placed N s1"
  using assms(3) getOrFetchAccount_placed(1) [OF assms(1,2)] by (auto simp: read_account_def split: option.splits)

lemma update_account_placed:
  assumes "0 < N" and "sim_placed N s" and "update_account E a f g s = Some (y, s1)" and "\<And>acct. ac_ShardID (g acct) = ac_ShardID acct"
  shows "sim_placed N s1"
proof -
  obtain acct err s2 where get: "getOrFetchAccount E a s = Some ((acct, err), s2)"
    and s1: "s1 = (if err = None then s2\<lparr>sd_accounts := mput a (g acct) (sd_accounts s2)\<rparr> else s2)"
    using assms(3) by (auto simp: update_account_def split: option.splits)
  show ?thesis
    using getOrFetchAccount_placed [OF assms(1,2) get] assms(4) by (auto simp: s1 sim_placed_def placed_mput)
qed

lemma GetState_placed:
  assumes "0 < N" and "sim_placed N s" and "Sim_GetState E a k s = Some (v, s1)"
  shows "sim_placed N s1"
proof (cases "s1 = s")
  case False
  then obtain acct err s2 res sf where "getOrFetchAccount E a s = Some ((acct, err), s2)"
    "fetcher_GetStorageAt E (sd_txID s2) (ac_ShardID acct) a k (sd_fetcher s2) = (res, sf)"
    "sd_fetcher s1 = sf" "sd_accounts s1 = sd_accounts s2" "sd_snapshots s1 = sd_snapshots s2"
    using assms(3) by (auto simp: Sim_GetState_def Let_def split: option.splits prod.splits)
  then show ?thesis
    using getOrFetchAccount_placed(1) [OF assms(1,2)] sf_numShards_storage
    unfolding fetcher_GetStorageAt_def sim_placed_def by metis
qed (use assms(2) in simp)

lemma sim_step_placed:
  assumes "0 < N" and "sim_placed N s" and "sim_step E c s = Some (r, s1)"
  shows "sim_placed N s1"
proof -
  note read = read_account_placed [OF assms(1,2)] and upd = update_account_placed [OF assms(1,2)]
  show ?thesis
  proof (cases c)
    case (RevertToSnapshot n)
    then show ?thesis
      using assms(2,3) by (auto simp: Sim_RevertToSnapshot_def Let_def sim_placed_def dest!: in_set_takeD split: if_splits)
  next
    case (CreateAccount a)
    then show ?thesis
      using assms owner_shard_range [OF assms(1), of s a]
      by (auto simp: Sim_CreateAccount_def sim_placed_def empty_account_def placed_mput split: option.splits)
  next
    case (CreateContract a)
    then show ?thesis
      using assms owner_shard_range [OF assms(1), of s a]
      by (auto simp: Sim_CreateContract_def Sim_CreateAccount_def sim_placed_def empty_account_def placed_mput split: option.splits)
  next
    case (SetState a k v)
    then obtain x s2 where get: "Sim_GetState E a k s = Some (x, s2)" and "sd_fetcher s1 = sd_fetcher s2" "sd_accounts s1 = sd_accounts s2"
      "sd_snapshots s1 = sd_snapshots s2"
      using assms(3) by (auto simp: ret_def Sim_SetState_def split: option.splits)
    then show ?thesis
      using GetState_placed [OF assms(1,2) get] by (simp add: sim_placed_def)
  next
    case (GetStateAndCommittedState a k)
    then show ?thesis
      using assms(3) GetState_placed [OF assms(1,2)] by (auto simp: ret_def Sim_GetStateAndCommittedState_def split: option.splits)
  next
    case (GetState a k)
    then show ?thesis
      using assms(3) GetState_placed [OF assms(1,2)] by (auto simp: ret_def)
  qed (use assms(2,3) in \<open>auto simp: ret_def Sim_GetBalance_def Sim_SubBalance_def Sim_AddBalance_def Sim_GetNonce_def Sim_SetNonce_def
        Sim_GetCodeHash_def Sim_GetCode_def Sim_SetCode_def Sim_GetCodeSize_def Sim_SelfDestruct_def Sim_SelfDestruct6780_def
        Sim_Exist_def Sim_Empty_def Sim_AddRefund_def Sim_SubRefund_def Sim_SetTransientState_def Sim_Snapshot_def Sim_AddLog_def
        Sim_Prepare_def Let_def intro: read upd split: if_splits\<close>,
     auto simp: sim_placed_def)
qed

lemma sim_db_placed:
  assumes "0 < N" and "\<forall>s. so = Some s \<longrightarrow> sim_placed N s" and "snd (sim_db E c so) = Some s1"
  shows "sim_placed N s1"
  using assms sim_step_placed [OF assms(1)] by (fastforce simp: sim_db_def split: option.splits)

lemma op_placed:
  assumes "0 < N" and "\<forall>s. so = Some s \<longrightarrow> sim_placed N s" and "snd (evm_op_run (sim_db E) c so) = Some s1"
  shows "sim_placed N s1"
proof (cases c)
  case (DB d)
  with assms show ?thesis by (simp add: sim_db_placed)
next
  case (CanTransfer a v)
  with assms show ?thesis
    by (cases "sim_db E (GetBalance a) so") (auto simp: can_transfer_def intro: sim_db_placed [OF assms(1,2), of E "GetBalance a"])
next
  case (Transfer a b v)
  have "\<forall>s. snd (sim_db E (SubBalance a v) so) = Some s \<longrightarrow> sim_placed N s"
    using sim_db_placed [OF assms(1,2)] by blast
  from sim_db_placed [OF assms(1) this] show ?thesis
    using assms(3) Transfer by (simp add: transfer_def)
qed

lemma run_placed:
  "0 < N \<Longrightarrow> \<forall>s. so = Some s \<longrightarrow> sim_placed N s \<Longrightarrow> snd (run_evm p (sim_db E) so) = Some s1 \<Longrightarrow> sim_placed N s1"
proof (induction p arbitrary: so)
  case (Op c k)
  have "\<forall>s. snd (evm_op_run (sim_db E) c so) = Some s \<longrightarrow> sim_placed N s"
    using op_placed [OF Op.prems(1,2)] by blast
  from Op.IH [OF rangeI Op.prems(1) this] show ?case
    using Op.prems(3) by simp
qed simp

lemma build_loop_range:
  "0 < N \<Longrightarrow> sim_placed N s \<Longrightarrow> build_loop hb addrs s = Some rw \<Longrightarrow> v \<in> set rw \<Longrightarrow>
     0 \<le> ShardNum (rw_ReferenceBlock v) \<and> ShardNum (rw_ReferenceBlock v) < N"
proof (induction addrs arbitrary: rw)
  case (Cons a addrs)
  obtain i rest where i: "(case mget (sd_accounts s) a of Some acct \<Rightarrow> Some (ac_ShardID acct) | None \<Rightarrow> owner_shard a s) = Some i"
    and rest: "build_loop hb addrs s = Some rest" and rw: "rw = rw_variable hb a i s # rest"
    using Cons.prems(3) by (auto split: option.splits)
  have "0 \<le> i \<and> i < N"
    using i Cons.prems(1,2) owner_shard_range [OF Cons.prems(1), of s a i] by (auto simp: sim_placed_def placed_def split: option.splits)
  then show ?case
    using Cons.IH [OF Cons.prems(1,2) rest] Cons.prems(4) by (auto simp: rw rw_variable_def)
qed simp

lemma simulate_placed:
  assumes "0 < N" and "sf_numShards sf = N" and "simulate E tx sf = Some (res, db)"
  shows "sim_placed N db"
proof -
  let ?s = "NewSimulationStateDB (ct_ID tx) sf"
  obtain db0 where prep: "Sim_Prepare (ct_From tx) 0 None [] [] ?s = Some db0"
    and run: "snd (run_evm (oe_Call E (sim_ctx tx) (ct_From tx) (sim_target tx) (ct_Data tx) (sim_gas tx) (oe_FromBig E (ToBigInt (ct_Value tx))))
      (sim_db E) (Some db0)) = Some db"
    using assms(3) by (auto simp: simulate_def split: option.splits prod.splits)
  have "sim_placed N db0"
    using prep assms(2) by (auto simp: Sim_Prepare_def Let_def sim_placed_def NewSimulationStateDB_def placed_def)
  then show ?thesis
    using run_placed [OF assms(1) _ run] by simp
qed

subsection \<open>The invariant of the service\<close>

definition in_range :: "int \<Rightarrow> int \<Rightarrow> bool" where
  "in_range N i \<longleftrightarrow> 0 \<le> i \<and> i < N"

definition decided_in :: "OrchestratorChain \<Rightarrow> txid \<Rightarrow> bool \<Rightarrow> bool" where
  "decided_in c t d \<longleftrightarrow> (\<exists>b \<in> set (oc_blocks c). (t, d) \<in> set (ob_TpcResult b))"

definition status_backed :: "OrchestratorChain \<Rightarrow> CrossShardTx \<Rightarrow> bool" where
  "status_backed c tx \<longleftrightarrow> (ct_Status tx = TxCommitted \<longrightarrow> decided_in c (ct_ID tx) True)
     \<and> (ct_Status tx = TxAborted \<longrightarrow> decided_in c (ct_ID tx) False) \<and> ct_Status tx \<noteq> TxStatusUnset"

definition service_inv :: "int \<Rightarrow> 'd Service \<Rightarrow> bool" where
  "service_inv N s \<longleftrightarrow> se_numShards s = N \<and> sf_numShards (sm_fetcher (se_simulator s)) = N
     \<and> length (sm_queue (se_simulator s)) \<le> QueueCapacity
     \<and> (\<forall>tx \<in> set (sm_queue (se_simulator s)). in_range N (ct_FromShard tx) \<and> ct_Status tx = TxPending)
     \<and> (\<forall>t tx. mget (se_pending s) t = Some tx \<longrightarrow> ct_ID tx = t \<and> status_backed (se_chain s) tx)"

text \<open>The transactions the service gives to its chain, and the events a step amounts to there.\<close>

definition proper_tx :: "int \<Rightarrow> CrossShardTx \<Rightarrow> bool" where
  "proper_tx N tx \<longleftrightarrow> in_range N (ct_FromShard tx) \<and> (ct_SimStatus tx = SimFailed \<or> list_all (in_range N) (InvolvedShards tx))"

fun explains :: "int \<Rightarrow> orch_input \<Rightarrow> oc_event \<Rightarrow> bool" where
  "explains N inp (EvAdd tx) \<longleftrightarrow> proper_tx N tx"
| "explains N inp (EvVote t i b) \<longleftrightarrow>
     (\<exists>now blk. inp = InServe now (OrStateBlock (Inr blk)) \<and> sb_ShardID blk = i \<and> (t, b) \<in> set (sb_TpcPrepare blk))"
| "explains N inp EvTimeouts \<longleftrightarrow> False"
| "explains N inp (EvProduce now) \<longleftrightarrow> inp = InTick now"

definition chain_step :: "'d orch_env \<Rightarrow> int \<Rightarrow> orch_input \<Rightarrow> OrchestratorChain \<Rightarrow> OrchestratorChain \<Rightarrow> bool" where
  "chain_step E N inp c c1 \<longleftrightarrow> (\<exists>es. run_machine (oc_step (oe_blockHash E)) c es = Some c1 \<and> produced es \<le> 1
     \<and> (\<forall>e \<in> set es. explains N inp e))"

lemma chain_step_refl: "chain_step E N inp c c"
  unfolding chain_step_def by (rule exI [of _ "[]"]) simp

lemma chain_step_event: "oc_step (oe_blockHash E) c e = Some c1 \<Longrightarrow> explains N inp e \<Longrightarrow> chain_step E N inp c c1"
  unfolding chain_step_def using produced_le [of "[e]"] by (intro exI [of _ "[e]"]) simp

subsection \<open>Blocks stay in the chain\<close>

lemma RecordVote_blocks [simp]: "oc_blocks (snd (RecordVote c t i b)) = oc_blocks c"
  by (simp add: RecordVote_def settle_def Let_def)

lemma Produce_blocks: "OC_ProduceBlock hashf now c = Some (block, c1) \<Longrightarrow> oc_blocks c1 = oc_blocks c @ [block]"
  by (auto simp: OC_ProduceBlock_def CheckTimeouts_def Let_def split: if_splits)

lemma status_backed_mono: "status_backed c tx \<Longrightarrow> set (oc_blocks c) \<subseteq> set (oc_blocks c1) \<Longrightarrow> status_backed c1 tx"
  by (auto simp: status_backed_def decided_in_def)

lemma pending_mono:
  assumes "service_inv N s" and "set (oc_blocks (se_chain s)) \<subseteq> set (oc_blocks c)"
  shows "service_inv N (s\<lparr>se_chain := c\<rparr>)"
  using assms status_backed_mono [OF _ assms(2)] by (simp add: service_inv_def)

lemma updateStatus_inv:
  assumes "service_inv N s" and "status = TxCommitted \<Longrightarrow> decided_in (se_chain s) t True"
    and "status = TxAborted \<Longrightarrow> decided_in (se_chain s) t False" and "status \<noteq> TxStatusUnset"
  shows "service_inv N (updateStatus t status s)"
  using assms by (auto simp: service_inv_def updateStatus_def status_backed_def mget_mput split: option.splits)

lemma add_pending_inv:
  assumes "service_inv N s" and "ct_Status tx = TxPending"
  shows "service_inv N (s\<lparr>se_pending := mput (ct_ID tx) (CrossShardTx_DeepCopy tx) (se_pending s)\<rparr>)"
  using assms by (auto simp: service_inv_def mget_mput status_backed_def CrossShardTx_DeepCopy_eq)

lemma add_chain_inv: "service_inv N s \<Longrightarrow> service_inv N (s\<lparr>se_chain := AddTransaction (se_chain s) tx\<rparr>)"
  by (rule pending_mono) (simp_all add: AddTransaction_def)

subsection \<open>Every step keeps the invariant and is a run of the chain\<close>

lemma with_idD:
  "with_id E tx s = (tx1, s1) \<Longrightarrow> (\<exists>n. s1 = s\<lparr>se_uuids := n\<rparr>) \<and> ct_Status tx1 = TxPending \<and> ct_FromShard tx1 = ct_FromShard tx
     \<and> ct_RwSet tx1 = ct_RwSet tx \<and> ct_Value tx1 = ct_Value tx"
  by (cases "ct_ID tx = []") (auto simp: with_id_def intro: exI [of _ "se_uuids s"])

lemma service_inv_uuids [simp]: "service_inv N (s\<lparr>se_uuids := n\<rparr>) = service_inv N s"
  by (simp add: service_inv_def)

lemma shard_valid_range: "service_inv N s \<Longrightarrow> shard_valid s i \<longleftrightarrow> in_range N i"
  by (auto simp: service_inv_def shard_valid_def in_range_def)

lemma proper_by_rw:
  assumes "in_range N (ct_FromShard tx)" and "\<And>rw. rw \<in> set (ct_RwSet tx) \<Longrightarrow> in_range N (ShardNum (rw_ReferenceBlock rw))"
  shows "proper_tx N tx"
proof -
  have "set (InvolvedShards tx) \<subseteq> insert (ct_FromShard tx) ((\<lambda>rw. ShardNum (rw_ReferenceBlock rw)) ` set (ct_RwSet tx))"
    by (auto simp: InvolvedShards_def Let_def set_TargetShards)
  with assms show ?thesis
    by (auto simp: proper_tx_def list_all_iff)
qed

lemma submit_step:
  assumes "service_inv N s" and "Service_handleSubmit E b s = (out, s1)"
  shows "service_inv N s1 \<and> chain_step E N inp (se_chain s) (se_chain s1)"
proof (cases b)
  case (Inl err)
  with assms show ?thesis by (simp add: Service_handleSubmit_def chain_step_refl)
next
  case (Inr tx0)
  obtain tx s0 where id: "with_id E tx0 s = (tx, s0)"
    by fastforce
  then obtain n where s0: "s0 = s\<lparr>se_uuids := n\<rparr>" and pend: "ct_Status tx = TxPending"
    using with_idD by blast
  have inv: "service_inv N s0"
    using assms(1) by (simp add: s0)
  let ?s1 = "s0\<lparr>se_pending := mput (ct_ID tx) (CrossShardTx_DeepCopy tx) (se_pending s0)\<rparr>"
  note add = add_pending_inv [OF inv pend]
  consider "s1 = s0" | "s1 = ?s1"
    | "s1 = ?s1\<lparr>se_chain := AddTransaction (se_chain ?s1) tx\<rparr>" "shard_valid s0 (ct_FromShard tx)"
      "\<not> list_ex (\<lambda>rw. \<not> shard_valid s0 (ShardNum (rw_ReferenceBlock rw))) (ct_RwSet tx)"
    using assms(2) Inr id by (auto simp: Service_handleSubmit_def Let_def split: if_splits)
  then show ?thesis
  proof cases
    case 3
    then have "proper_tx N tx"
      using shard_valid_range [OF inv] by (intro proper_by_rw) (auto simp: list_ex_iff)
    then have "chain_step E N inp (se_chain s) (AddTransaction (se_chain s) tx)"
      by (intro chain_step_event [of _ _ "EvAdd tx"]) simp_all
    moreover have "service_inv N s1"
      unfolding 3(1) by (rule add_chain_inv [OF add])
    ultimately show ?thesis
      by (simp add: 3(1) s0)
  qed (use inv add in \<open>simp_all add: s0 chain_step_refl\<close>)
qed

lemma call_step:
  assumes "service_inv N s" and "Service_handleCall E now b s = (out, s1)"
  shows "service_inv N s1 \<and> se_chain s1 = se_chain s"
proof (cases b)
  case (Inl err)
  with assms show ?thesis by (simp add: Service_handleCall_def)
next
  case (Inr tx0)
  obtain tx s0 where id: "with_id E tx0 s = (tx, s0)"
    by fastforce
  then obtain n where s0: "s0 = s\<lparr>se_uuids := n\<rparr>" and pend: "ct_Status tx = TxPending"
    using with_idD by blast
  have inv: "service_inv N s0"
    using assms(1) by (simp add: s0)
  consider "s1 = s0" | err sm where "s1 = s0\<lparr>se_simulator := sm\<rparr>" "Submit now tx (se_simulator s0) = (err, sm)" "shard_valid s0 (ct_FromShard tx)"
    using assms(2) Inr id by (auto simp: Service_handleCall_def Let_def split: if_splits option.splits prod.splits)
  then show ?thesis
  proof cases
    case 2
    then have "sm_fetcher sm = sm_fetcher (se_simulator s0)"
      "set (sm_queue sm) \<subseteq> insert tx (set (sm_queue (se_simulator s0)))" "length (sm_queue sm) \<le> QueueCapacity"
      using inv by (auto simp: Submit_def Let_def service_inv_def split: if_splits)
    with 2 inv shard_valid_range [OF inv, of "ct_FromShard tx"] pend show ?thesis
      by (auto simp: service_inv_def s0)
  qed (use inv in \<open>simp add: s0\<close>)
qed

lemma prepare_step:
  assumes "service_inv N s"
  shows "service_inv N (record_prepare i v s)"
proof -
  obtain rec c where vote: "RecordVote (se_chain s) (fst v) i (snd v) = (rec, c)"
    by fastforce
  have inv: "service_inv N (s\<lparr>se_chain := c\<rparr>)"
    using assms by (rule pending_mono) (use RecordVote_blocks [of "se_chain s" "fst v" i "snd v"] vote in simp)
  then show ?thesis
    using updateStatus_inv [OF inv, of TxPrepared "fst v"] by (simp add: record_prepare_def vote Let_def)
qed

lemma record_prepare_chain: "se_chain (record_prepare i v s) = snd (RecordVote (se_chain s) (fst v) i (snd v))"
  by (simp add: record_prepare_def Let_def split: prod.splits)

lemma prepares_step: "service_inv N s \<Longrightarrow> service_inv N (fold (record_prepare i) vs s)"
  by (induction vs arbitrary: s) (simp_all add: prepare_step)

lemma prepares_run:
  "run_machine (oc_step hashf) (se_chain s) (map (\<lambda>v. EvVote (fst v) i (snd v)) vs) = Some (se_chain (fold (record_prepare i) vs s))"
  by (induction vs arbitrary: s) (simp_all add: record_prepare_chain [symmetric])

lemma produced_votes [simp]: "produced (map (\<lambda>v. EvVote (f v) (g v) (h v)) vs) = 0"
  by (induction vs) simp_all

lemma block_step:
  assumes "service_inv N s"
  shows "service_inv N (snd (handleStateShardBlock b s))
    \<and> chain_step E N (InServe now (OrStateBlock b)) (se_chain s) (se_chain (snd (handleStateShardBlock b s)))"
proof (cases b)
  case (Inr blk)
  have "chain_step E N (InServe now (OrStateBlock b)) (se_chain s) (se_chain (fold (record_prepare (sb_ShardID blk)) (sb_TpcPrepare blk) s))"
    unfolding chain_step_def
    by (rule exI [of _ "map (\<lambda>v. EvVote (fst v) (sb_ShardID blk) (snd v)) (sb_TpcPrepare blk)"]) (simp add: prepares_run Inr)
  with Inr prepares_step [OF assms] show ?thesis
    by (simp add: handleStateShardBlock_def)
qed (use assms in \<open>simp add: handleStateShardBlock_def chain_step_refl\<close>)

lemma serve_step:
  assumes "service_inv N s"
  shows "service_inv N (snd (orch_serve E now rq s)) \<and> chain_step E N (InServe now rq) (se_chain s) (se_chain (snd (orch_serve E now rq s)))"
proof (cases rq)
  case (OrSubmit b)
  obtain out s1 where "Service_handleSubmit E b s = (out, s1)"
    by fastforce
  then show ?thesis
    using submit_step [OF assms, of E b out s1 "InServe now rq"] OrSubmit by simp
next
  case (OrCall b)
  obtain out s1 where "Service_handleCall E now b s = (out, s1)"
    by fastforce
  then show ?thesis
    using call_step [OF assms, of E now b out s1] OrCall by (simp add: chain_step_refl)
next
  case (OrStateBlock b)
  then show ?thesis
    using block_step [OF assms] by simp
qed (use assms in \<open>simp_all add: chain_step_refl\<close>)

lemma runSimulation_cases:
  assumes "runSimulation E now f (Some g) tx (sm, w) = Some (sm1, w1)"
  obtains (failed) err where "w1 = g (tx\<lparr>ct_SimStatus := SimFailed, ct_SimError := err\<rparr>) w" "sm_queue sm1 = sm_queue sm"
      "\<exists>res db. simulate E tx (sm_fetcher sm) = Some (res, db) \<and> sim_error res db = Some err \<and> sm_fetcher sm1 = ClearCache (ct_ID tx) (sd_fetcher db)"
  | (succeeded) rw gas where "w1 = f (tx\<lparr>ct_RwSet := rw, ct_Gas := gas\<rparr>) w" "sm_queue sm1 = sm_queue sm"
      "\<exists>res db. simulate E tx (sm_fetcher sm) = Some (res, db) \<and> sim_error res db = None \<and> sm_fetcher sm1 = ClearCache (ct_ID tx) (sd_fetcher db)
         \<and> BuildRwSet (vf_HashBytes (oe_verifier E)) db = Some rw"
proof -
  have same: "sm_queue (mark_running t sm) = sm_queue sm" "sm_fetcher (mark_running t sm) = sm_fetcher sm" for t
    by (simp_all add: mark_running_def split: option.splits)
  show ?thesis
    using assms failed succeeded by (auto simp: runSimulation_def Let_def same split: option.splits prod.splits)
qed

text \<open>The worker hands the transaction to the chain, whether its simulation has succeeded or failed.\<close>

lemma worker_cases:
  assumes "worker_step E now s = Some s1"
  obtains (idle) "s1 = s" "sm_queue (se_simulator s) = []"
  | (failed) tx rest err sm res db where "sm_queue (se_simulator s) = tx # rest" "sm_queue sm = rest"
      "s1 = (service_onError (tx\<lparr>ct_SimStatus := SimFailed, ct_SimError := err\<rparr>) s)\<lparr>se_simulator := sm\<rparr>"
      "simulate E tx (sm_fetcher (se_simulator s)) = Some (res, db)" "sim_error res db = Some err"
      "sm_fetcher sm = ClearCache (ct_ID tx) (sd_fetcher db)"
  | (succeeded) tx rest rw gas sm res db where "sm_queue (se_simulator s) = tx # rest" "sm_queue sm = rest"
      "s1 = (service_onSuccess (tx\<lparr>ct_RwSet := rw, ct_Gas := gas\<rparr>) s)\<lparr>se_simulator := sm\<rparr>"
      "simulate E tx (sm_fetcher (se_simulator s)) = Some (res, db)" "sim_error res db = None"
      "sm_fetcher sm = ClearCache (ct_ID tx) (sd_fetcher db)" "BuildRwSet (vf_HashBytes (oe_verifier E)) db = Some rw"
proof (cases "sm_queue (se_simulator s)")
  case Nil
  with assms idle show ?thesis by (simp add: worker_step_def)
next
  case (Cons tx rest)
  let ?st = "((se_simulator s)\<lparr>sm_queue := rest\<rparr>, s)"
  obtain sm w where run: "runSimulation E now service_onSuccess (Some service_onError) tx ?st = Some (sm, w)"
    and s1: "s1 = w\<lparr>se_simulator := sm\<rparr>"
    using assms Cons by (auto simp: worker_step_def split: option.splits)
  from run show ?thesis
  proof (cases rule: runSimulation_cases)
    case (failed err)
    with Cons s1 that(2) [where err = err and sm = sm] show ?thesis by auto
  next
    case (succeeded rw gas)
    with Cons s1 that(3) [where rw = rw and gas = gas and sm = sm] show ?thesis by auto
  qed
qed

lemma service_inv_simulator:
  "service_inv N s \<Longrightarrow> sf_numShards (sm_fetcher sm) = N \<Longrightarrow> sm_queue (se_simulator s) = tx # sm_queue sm \<Longrightarrow>
     service_inv N (s\<lparr>se_simulator := sm\<rparr>)"
  by (simp add: service_inv_def)

lemma worker_inv:
  assumes "service_inv N s" and "worker_step E now s = Some s1"
  shows "service_inv N s1 \<and> chain_step E N (InWorker now) (se_chain s) (se_chain s1)"
  using assms(2)
proof (cases rule: worker_cases)
  case idle
  with assms(1) show ?thesis by (simp add: chain_step_refl)
next
  case (failed tx rest err sm res db)
  let ?tx = "tx\<lparr>ct_SimStatus := SimFailed, ct_SimError := err\<rparr>"
  have fs: "in_range N (ct_FromShard tx)" and N: "0 < N" "sf_numShards (sm_fetcher (se_simulator s)) = N"
    using assms(1) failed(1) by (auto simp: service_inv_def in_range_def)
  have "sf_numShards (sm_fetcher sm) = N"
    using simulate_placed [OF N failed(4)] failed(6) by (simp add: sim_placed_def ClearCache_def)
  moreover have "service_inv N (service_onError ?tx s)"
    using add_chain_inv [OF assms(1), of ?tx] by (simp add: service_onError_def)
  ultimately have "service_inv N s1"
    using service_inv_simulator [of N "service_onError ?tx s" sm tx] failed(1-3) by (simp add: service_onError_def)
  moreover have "chain_step E N (InWorker now) (se_chain s) (se_chain s1)"
    using failed(3) fs by (intro chain_step_event [of _ _ "EvAdd ?tx"]) (simp_all add: service_onError_def proper_tx_def)
  ultimately show ?thesis by blast
next
  case (succeeded tx rest rw gas sm res db)
  let ?tx = "tx\<lparr>ct_RwSet := rw, ct_Gas := gas\<rparr>"
  have fs: "in_range N (ct_FromShard tx)" and N: "0 < N" "sf_numShards (sm_fetcher (se_simulator s)) = N" and st: "ct_Status tx = TxPending"
    using assms(1) succeeded(1) by (auto simp: service_inv_def in_range_def)
  note db = simulate_placed [OF N succeeded(4)]
  have "sf_numShards (sm_fetcher sm) = N"
    using db succeeded(6) by (simp add: sim_placed_def ClearCache_def)
  moreover have "service_inv N (service_onSuccess ?tx s)"
    using add_chain_inv [OF add_pending_inv [OF assms(1), of ?tx], of ?tx] st by (simp add: service_onSuccess_def)
  ultimately have "service_inv N s1"
    using service_inv_simulator [of N "service_onSuccess ?tx s" sm tx] succeeded(1-3) by (simp add: service_onSuccess_def)
  moreover have "proper_tx N ?tx"
    using fs build_loop_range [OF N(1) db] succeeded(7) by (intro proper_by_rw) (auto simp: BuildRwSet_def in_range_def)
  then have "chain_step E N (InWorker now) (se_chain s) (se_chain s1)"
    using succeeded(3) by (intro chain_step_event [of _ _ "EvAdd ?tx"]) (simp_all add: service_onSuccess_def)
  ultimately show ?thesis by blast
qed

lemma settle_results_inv:
  "service_inv N s \<Longrightarrow> (\<And>t d. (t, d) \<in> set rs \<Longrightarrow> decided_in (se_chain s) t d) \<Longrightarrow> service_inv N (fold settle_result rs s)"
proof (induction rs arbitrary: s)
  case (Cons r rs)
  obtain t d where r: "r = (t, d)"
    by fastforce
  have "decided_in (se_chain s) t d"
    using Cons.prems(2) r by simp
  then have "service_inv N (updateStatus t (if d then TxCommitted else TxAborted) s)"
    by (intro updateStatus_inv [OF Cons.prems(1)]) (auto split: if_splits)
  then have "service_inv N (settle_result r s)"
    by (simp add: settle_result_def r Let_def service_inv_def ClearCache_def)
  with Cons show ?case
    by simp
qed simp

lemma tick_inv:
  assumes "service_inv N s" and "service_tick E now s = Some s1"
  shows "service_inv N s1 \<and> chain_step E N (InTick now) (se_chain s) (se_chain s1)"
proof -
  obtain block c where prod: "OC_ProduceBlock (oe_blockHash E) now (se_chain s) = Some (block, c)"
    and s1: "s1 = broadcastBlock E block (fold settle_result (ob_TpcResult block) (s\<lparr>se_chain := c\<rparr>))"
    using assms(2) by (auto simp: service_tick_def split: option.splits)
  have "service_inv N (s\<lparr>se_chain := c\<rparr>)"
    using assms(1) by (rule pending_mono) (auto simp: Produce_blocks [OF prod])
  then have "service_inv N (fold settle_result (ob_TpcResult block) (s\<lparr>se_chain := c\<rparr>))"
    by (rule settle_results_inv) (auto simp: decided_in_def Produce_blocks [OF prod])
  moreover have "chain_step E N (InTick now) (se_chain s) (se_chain s1)"
    using prod by (intro chain_step_event [of _ _ "EvProduce now"]) (simp_all add: s1)
  ultimately show ?thesis
    by (simp add: s1 service_inv_def)
qed

lemma service_step_inv:
  assumes "service_inv N s" and "service_step E s inp = Some s1"
  shows "service_inv N s1 \<and> chain_step E N inp (se_chain s) (se_chain s1)"
proof (cases inp)
  case (InServe now rq)
  then show ?thesis
    using serve_step [OF assms(1), of E now rq] assms(2) by auto
next
  case InClose
  then show ?thesis
    using assms
    by (auto simp: Service_Close_def StateFetcher_Close_def Simulator_Stop_def Let_def service_inv_def chain_step_refl split: prod.splits if_splits)
qed (use assms worker_inv [OF assms(1)] tick_inv [OF assms(1)] in
  \<open>auto simp: cleanupExpiredResults_def service_inv_def chain_step_refl\<close>)

text \<open>The invariant of a run, for the shared scheme of machine invariants.\<close>

definition service_runs :: "'d orch_env \<Rightarrow> int \<Rightarrow> u64 \<Rightarrow> orch_input list \<Rightarrow> 'd Service \<Rightarrow> bool" where
  "service_runs E N now h s \<longleftrightarrow> service_inv N s \<and> (\<exists>es. run_machine (oc_step (oe_blockHash E)) (oc_init now DefaultVoteTimeout) es = Some (se_chain s)
     \<and> produced es \<le> length h \<and> (\<forall>e \<in> set es. \<exists>inp \<in> set h. explains N inp e))"

lemma service_runs_step:
  assumes "service_runs E N now h s" and "service_step E s inp = Some s1"
  shows "service_runs E N now (h @ [inp]) s1"
proof -
  obtain es where es: "run_machine (oc_step (oe_blockHash E)) (oc_init now DefaultVoteTimeout) es = Some (se_chain s)"
    "produced es \<le> length h" "\<forall>e \<in> set es. \<exists>inp \<in> set h. explains N inp e" and inv: "service_inv N s"
    using assms(1) unfolding service_runs_def by blast
  obtain fs where "service_inv N s1" "run_machine (oc_step (oe_blockHash E)) (se_chain s) fs = Some (se_chain s1)" "produced fs \<le> 1"
    "\<forall>e \<in> set fs. explains N inp e"
    using service_step_inv [OF inv assms(2)] unfolding chain_step_def by blast
  with es show ?thesis
    unfolding service_runs_def by (intro conjI exI [of _ "es @ fs"]) (auto simp: run_machine_append)
qed

lemma service_runs_init: "service_runs E N now [] (NewService now N bs)"
proof -
  have "oc_init now DefaultVoteTimeout = NewOrchestratorChain now"
    by (simp add: oc_init_def SetVoteTimeout_def NewOrchestratorChain_def)
  then show ?thesis
    unfolding service_runs_def
    by (intro conjI exI [of _ "[]"]) (simp_all add: service_inv_def NewService_def NewSimulator_def NewStateFetcher_def)
qed

lemma service_reach: "run_machine (service_step E) (NewService now N bs) h = Some s \<Longrightarrow> service_runs E N now h s"
proof (induction h arbitrary: s rule: rev_induct)
  case (snoc inp h)
  then show ?case
    by (auto simp: run_machine_append service_runs_step split: Option.bind_splits)
qed (simp add: service_runs_init)

subsection \<open>Where ordered transactions come from\<close>

definition ordered_all :: "(CrossShardTx \<Rightarrow> bool) \<Rightarrow> OrchestratorChain \<Rightarrow> bool" where
  "ordered_all P c \<longleftrightarrow> (\<forall>tx \<in> set (oc_pendingTxs c). P tx) \<and> (\<forall>b \<in> set (oc_blocks c). \<forall>tx \<in> set (ob_CtToOrder b). P tx)"

lemma ordered_all_step:
  assumes "ordered_all P c" and "\<And>tx. P tx \<Longrightarrow> P (CrossShardTx_DeepCopy tx)" and "\<And>tx. e = EvAdd tx \<Longrightarrow> P tx"
    and "oc_step hashf c e = Some c1"
  shows "ordered_all P c1"
proof (cases e)
  case (EvAdd tx)
  with assms show ?thesis
    by (auto simp: ordered_all_def AddTransaction_def)
next
  case (EvVote t i b)
  have "oc_pendingTxs (snd (RecordVote c t i b)) = oc_pendingTxs c"
    by (simp add: RecordVote_def settle_def Let_def)
  with EvVote assms show ?thesis
    by (auto simp: ordered_all_def)
next
  case EvTimeouts
  with assms show ?thesis
    by (auto simp: ordered_all_def CheckTimeouts_def)
next
  case (EvProduce now)
  then obtain block where prod: "OC_ProduceBlock hashf now c = Some (block, c1)"
    using assms(4) by auto
  then have "ob_CtToOrder block = map CrossShardTx_DeepCopy (oc_pendingTxs c)" "oc_pendingTxs c1 = []"
    by (auto simp: OC_ProduceBlock_def CheckTimeouts_def Let_def split: if_splits)
  with assms(1,2) show ?thesis
    by (auto simp: ordered_all_def Produce_blocks [OF prod])
qed

lemma ordered_all_run:
  "run_machine (oc_step hashf) c es = Some c1 \<Longrightarrow> ordered_all P c \<Longrightarrow> (\<And>tx. P tx \<Longrightarrow> P (CrossShardTx_DeepCopy tx)) \<Longrightarrow>
     (\<And>tx. EvAdd tx \<in> set es \<Longrightarrow> P tx) \<Longrightarrow> ordered_all P c1"
proof (induction es arbitrary: c)
  case (Cons e es)
  then obtain c2 where c2: "oc_step hashf c e = Some c2" "run_machine (oc_step hashf) c2 es = Some c1"
    by (auto split: Option.bind_splits)
  have "ordered_all P c2"
    using ordered_all_step [OF Cons.prems(2,3) _ c2(1)] Cons.prems(4) by auto
  then show ?case
    using Cons.IH [OF c2(2)] Cons.prems(3,4) by auto
qed simp

lemma proper_DeepCopy: "proper_tx N tx \<Longrightarrow> proper_tx N (CrossShardTx_DeepCopy tx)"
  unfolding proper_tx_def InvolvedShards_DeepCopy by (simp add: CrossShardTx_DeepCopy_eq)

subsection \<open>Properties\<close>

text \<open>C6. The service refines the chain: whatever requests are served and however the worker, the block
  producer and the cleanup are interleaved, what has happened to the chain is a run of the machine of
  chain operations; each vote of that run was in a block that a shard had sent, under that shard's number.\<close>

theorem service_refines_chain:
  assumes "run_machine (service_step E) (NewService now N bs) h = Some s"
  shows "\<exists>es. run_machine (oc_step (oe_blockHash E)) (oc_init now DefaultVoteTimeout) es = Some (se_chain s)
    \<and> (\<forall>t i b. EvVote t i b \<in> set es \<longrightarrow>
        (\<exists>now blk. InServe now (OrStateBlock (Inr blk)) \<in> set h \<and> sb_ShardID blk = i \<and> (t, b) \<in> set (sb_TpcPrepare blk)))"
proof -
  obtain es where es: "run_machine (oc_step (oe_blockHash E)) (oc_init now DefaultVoteTimeout) es = Some (se_chain s)"
    "\<forall>e \<in> set es. \<exists>inp \<in> set h. explains N inp e"
    using service_reach [OF assms] unfolding service_runs_def by blast
  have "\<exists>now blk. InServe now (OrStateBlock (Inr blk)) \<in> set h \<and> sb_ShardID blk = i \<and> (t, b) \<in> set (sb_TpcPrepare blk)"
    if "EvVote t i b \<in> set es" for t i b
    using es(2) that by (metis explains.simps(2))
  with es(1) show ?thesis by blast
qed

text \<open>A sample run: a call by an account without funds, simulated, ordered, voted on and decided.\<close>

definition poor_tx :: CrossShardTx where
  "poor_tx = CrossShardTx_zero\<lparr>ct_ID := ''t1'', ct_FromShard := 3, ct_From := 3, ct_To := 9, ct_Value := Some (Some 30)\<rparr>"

definition yes_block :: StateShardBlock where
  "yes_block = \<lparr>sb_ShardID = 3, sb_Height = 1, sb_PrevHash = 0, sb_Timestamp = 0, sb_StateRoot = 0, sb_TxOrdering = [], sb_PrepareTxs = [], sb_TpcPrepare = [(''t1'', True)]\<rparr>"

definition sample_bs :: "(byte list, byte list) gomap BytecodeStore" where
  "sample_bs = \<lparr>bs_db = [], bs_closed = False\<rparr>"

definition service_run :: "orch_input list \<Rightarrow> (byte list, byte list) gomap Service" where
  "service_run h = the (run_machine (service_step still_env) (NewService 0 4 sample_bs) h)"

definition poor_history :: "orch_input list" where
  "poor_history = [InServe 0 (OrCall (Inr poor_tx)), InWorker 1, InTick 2, InServe 3 (OrStateBlock (Inr yes_block)), InTick 4]"

lemma poor_run:
  "run_machine (service_step still_env) (NewService 0 4 sample_bs) poor_history = Some (service_run poor_history)"
  "map ob_TpcResult (oc_blocks (se_chain (service_run poor_history))) = [[], [], [(''t1'', True)]]"
  "map (\<lambda>b. map (\<lambda>tx. (ct_ID tx, ct_SimStatus tx)) (ob_CtToOrder b)) (oc_blocks (se_chain (service_run poor_history)))
     = [[], [(''t1'', SimFailed)], []]"
proof -
  have "case run_machine (service_step still_env) (NewService 0 4 sample_bs) poor_history of
      Some s \<Rightarrow> map ob_TpcResult (oc_blocks (se_chain s)) = [[], [], [(''t1'', True)]]
        \<and> map (\<lambda>b. map (\<lambda>tx. (ct_ID tx, ct_SimStatus tx)) (ob_CtToOrder b)) (oc_blocks (se_chain s)) = [[], [(''t1'', SimFailed)], []]
    | None \<Rightarrow> False"
    by code_simp
  then show "run_machine (service_step still_env) (NewService 0 4 sample_bs) poor_history = Some (service_run poor_history)"
    "map ob_TpcResult (oc_blocks (se_chain (service_run poor_history))) = [[], [], [(''t1'', True)]]"
    "map (\<lambda>b. map (\<lambda>tx. (ct_ID tx, ct_SimStatus tx)) (ob_CtToOrder b)) (oc_blocks (se_chain (service_run poor_history)))
       = [[], [(''t1'', SimFailed)], []]"
    by (auto simp: service_run_def split: option.splits)
qed

theorem service_refines_chain_witness:
  "\<exists>es. run_machine (oc_step (oe_blockHash still_env)) (oc_init 0 DefaultVoteTimeout) es = Some (se_chain (service_run poor_history))"
  using service_refines_chain [OF poor_run(1)] by blast

text \<open>A commit published by the service has the votes it needs: if a block of the chain commits a
  transaction, then every shard that the transaction involves has sent the service a block with a YES
  vote for it. (The bound keeps the block height within 64 bits.)\<close>

lemma service_commit_has_votes:
  assumes "run_machine (service_step E) (NewService now N bs) h = Some s" and "10 + length h < 2 ^ 64"
    and "b \<in> set (oc_blocks (se_chain s))" and "mget (ob_TpcResult b) t = Some True"
  shows "\<exists>tx. ct_ID tx = t \<and> (\<forall>i \<in> set (InvolvedShards tx). \<exists>now blk.
    InServe now (OrStateBlock (Inr blk)) \<in> set h \<and> sb_ShardID blk = i \<and> (t, True) \<in> set (sb_TpcPrepare blk))"
proof -
  obtain es where run: "run_machine (oc_step (oe_blockHash E)) (oc_init now DefaultVoteTimeout) es = Some (se_chain s)"
    and len: "produced es \<le> length h" and ex: "\<forall>e \<in> set es. \<exists>inp \<in> set h. explains N inp e"
    using service_reach [OF assms(1)] unfolding service_runs_def by blast
  have "oc_admissible DefaultVoteTimeout es"
    using len assms(2) by (simp add: oc_admissible_def DefaultVoteTimeout_def)
  then have "oc_evidence es (se_chain s)"
    using oc.run_reachable [OF _ run] by (simp add: oc_inv_def)
  from evidence_published [OF this assms(3,4)] obtain tx where "ct_ID tx = t" "\<forall>i \<in> set (InvolvedShards tx). EvVote t i True \<in> set es"
    by (auto simp: decided_ok_def)
  moreover have "\<exists>now blk. InServe now (OrStateBlock (Inr blk)) \<in> set h \<and> sb_ShardID blk = i \<and> (t, True) \<in> set (sb_TpcPrepare blk)"
    if "EvVote t i True \<in> set es" for i
    using ex that by (metis explains.simps(2))
  ultimately show ?thesis by blast
qed

text \<open>C19. The status the service reports is backed by its chain: in every reachable state the table of
  pending transactions is keyed by transaction ID, a transaction is reported committed or aborted only if
  a block of the chain carries that decision for it, and the queue of the simulator holds at most 100
  transactions.\<close>

theorem status_backed_by_chain:
  assumes "run_machine (service_step E) (NewService now N bs) h = Some s"
  shows "(\<forall>t tx. mget (se_pending s) t = Some tx \<longrightarrow> ct_ID tx = t)
    \<and> (GetTxStatus t s = TxCommitted \<longrightarrow> (\<exists>b \<in> set (oc_blocks (se_chain s)). (t, True) \<in> set (ob_TpcResult b)))
    \<and> (GetTxStatus t s = TxAborted \<longrightarrow> (\<exists>b \<in> set (oc_blocks (se_chain s)). (t, False) \<in> set (ob_TpcResult b)))
    \<and> length (sm_queue (se_simulator s)) \<le> 100"
proof -
  have inv: "service_inv N s"
    using service_reach [OF assms] by (simp add: service_runs_def)
  then show ?thesis
    by (fastforce simp: service_inv_def status_backed_def decided_in_def GetTxStatus_def QueueCapacity_def split: option.splits)
qed

definition paid_tx :: CrossShardTx where
  "paid_tx = CrossShardTx_zero\<lparr>ct_ID := ''t1'', ct_FromShard := 3, ct_From := 7, ct_To := 9, ct_Value := Some (Some 30)\<rparr>"

definition paid_history :: "orch_input list" where
  "paid_history = [InServe 0 (OrSubmit (Inr paid_tx)), InTick 2, InServe 3 (OrStateBlock (Inr yes_block)), InTick 4]"

lemma paid_run:
  "run_machine (service_step still_env) (NewService 0 4 sample_bs) paid_history = Some (service_run paid_history)"
  "GetTxStatus ''t1'' (service_run paid_history) = TxCommitted"
proof -
  have "case run_machine (service_step still_env) (NewService 0 4 sample_bs) paid_history of
      Some s \<Rightarrow> GetTxStatus ''t1'' s = TxCommitted | None \<Rightarrow> False"
    by code_simp
  then show "run_machine (service_step still_env) (NewService 0 4 sample_bs) paid_history = Some (service_run paid_history)"
    "GetTxStatus ''t1'' (service_run paid_history) = TxCommitted"
    by (auto simp: service_run_def split: option.splits)
qed

theorem status_backed_by_chain_witness:
  "\<exists>b. b \<in> set (oc_blocks (se_chain (service_run paid_history))) \<and> (''t1'', True) \<in> set (ob_TpcResult b)"
  using status_backed_by_chain [OF paid_run(1), of "''t1''"] paid_run(2) by blast

text \<open>C25. Ordered transactions are placed on existing shards: in every reachable state, every transaction in
  a block of the service has an existing source shard, and unless it is the record of a failed simulation
  it involves existing shards only, whatever the shards have answered during its simulation.\<close>

theorem ordered_shards_exist:
  assumes "run_machine (service_step E) (NewService now N bs) h = Some s"
    and "b \<in> set (oc_blocks (se_chain s))" and "tx \<in> set (ob_CtToOrder b)"
  shows "0 \<le> ct_FromShard tx \<and> ct_FromShard tx < N
    \<and> (ct_SimStatus tx = SimFailed \<or> list_all (\<lambda>i. 0 \<le> i \<and> i < N) (InvolvedShards tx))"
proof -
  obtain es where run: "run_machine (oc_step (oe_blockHash E)) (oc_init now DefaultVoteTimeout) es = Some (se_chain s)"
    and ex: "\<forall>e \<in> set es. \<exists>inp \<in> set h. explains N inp e"
    using service_reach [OF assms(1)] unfolding service_runs_def by blast
  have "ordered_all (proper_tx N) (oc_init now DefaultVoteTimeout)"
    by (simp add: ordered_all_def oc_init_def SetVoteTimeout_def NewOrchestratorChain_def)
  from ordered_all_run [OF run this proper_DeepCopy] ex have "proper_tx N tx"
    using assms(2,3) by (fastforce simp: ordered_all_def)
  then show ?thesis
    by (auto simp: proper_tx_def in_range_def list_all_iff)
qed

theorem ordered_shards_exist_witness:
  "case map ob_CtToOrder (oc_blocks (se_chain (service_run poor_history))) of
     [[], [tx], []] \<Rightarrow> 0 \<le> ct_FromShard tx \<and> ct_FromShard tx < 4 | _ \<Rightarrow> False"
proof -
  obtain b0 b1 b2 tx where bs: "oc_blocks (se_chain (service_run poor_history)) = [b0, b1, b2]"
    "ob_CtToOrder b0 = []" "ob_CtToOrder b1 = [tx]" "ob_CtToOrder b2 = []"
    using poor_run(3) by (auto simp: map_eq_Cons_conv)
  then show ?thesis
    using ordered_shards_exist [OF poor_run(1), of b1 tx] by simp
qed

text \<open>C29. Bounds of the broadcast: producing a block sends it to every shard from 0 to \<open>numShards - 1\<close>, in
  one to four attempts each and nothing to anyone else, and waits at most 700 milliseconds per shard; the
  block that is sent is the one just appended to the chain.\<close>

theorem broadcast_bounded:
  assumes "service_tick E now s = Some s1"
  shows "\<exists>m w. oc_blocks (se_chain s1) = oc_blocks (se_chain s) @ [last (oc_blocks (se_chain s1))]
    \<and> (\<forall>i < nat (se_numShards s). 1 \<le> m i \<and> m i \<le> 4)
    \<and> se_sent s1 = se_sent s @ concat (map (\<lambda>i. replicate (m i) (block_request (int i) (last (oc_blocks (se_chain s1))))) [0..<nat (se_numShards s)])
    \<and> se_slept s1 = se_slept s + w \<and> w \<le> 700 * nat (se_numShards s)"
proof -
  obtain block c where prod: "OC_ProduceBlock (oe_blockHash E) now (se_chain s) = Some (block, c)"
    and s1: "s1 = broadcastBlock E block (fold settle_result (ob_TpcResult block) (s\<lparr>se_chain := c\<rparr>))"
    using assms by (auto simp: service_tick_def split: option.splits)
  let ?s = "fold settle_result (ob_TpcResult block) (s\<lparr>se_chain := c\<rparr>)"
  have sent: "se_sent (fold settle_result rs s') = se_sent s'" "se_slept (fold settle_result rs s') = se_slept s'"
    for rs and s' :: "'a Service"
    by (induction rs arbitrary: s') simp_all
  have last: "last (oc_blocks (se_chain s1)) = block" "oc_blocks (se_chain s1) = oc_blocks (se_chain s) @ [block]"
    using Produce_blocks [OF prod] by (simp_all add: s1)
  obtain m w where m: "\<forall>i < nat (se_numShards s). 1 \<le> m i \<and> m i \<le> 4" "w \<le> 700 * nat (se_numShards s)"
    "broadcastBlock E block ?s = ?s\<lparr>se_sent := se_sent ?s @ concat (map (\<lambda>i. replicate (m i) (block_request (int i) block)) [0..<nat (se_numShards s)]),
       se_slept := se_slept ?s + w\<rparr>"
    using broadcast [of ?s E block] by auto
  show ?thesis
    by (rule exI [of _ m], rule exI [of _ w]) (use m last in \<open>simp add: s1 sent\<close>)
qed

theorem broadcast_bounded_witness:
  "case service_tick still_env 1 (NewService 0 2 sample_bs) of
     Some s1 \<Rightarrow> (\<exists>w. se_slept s1 = w \<and> w \<le> 1400) | None \<Rightarrow> False"
proof -
  have "service_tick still_env 1 (NewService 0 2 sample_bs) \<noteq> None"
    by (simp add: service_tick_def OC_ProduceBlock_def CheckTimeouts_def timed_out_def NewService_def NewOrchestratorChain_def Let_def)
  then obtain s1 where "service_tick still_env 1 (NewService 0 2 sample_bs) = Some s1"
    by blast
  from broadcast_bounded [OF this] this show ?thesis
    by (auto simp: NewService_def)
qed

text \<open>A submission without a value gets stuck: the handler panics after it has stored the transaction,
  so the status of the transaction is reported as pending while nothing of it reaches the chain.\<close>

lemma submit_without_value_stuck:
  assumes "ct_Value tx = None" and "ct_ID tx \<noteq> []" and "0 \<le> ct_FromShard tx" and "ct_FromShard tx < se_numShards s"
    and "list_all (\<lambda>rw. 0 \<le> ShardNum (rw_ReferenceBlock rw) \<and> ShardNum (rw_ReferenceBlock rw) < se_numShards s) (ct_RwSet tx)"
    and "Service_handleSubmit E (Inr tx) s = (out, s1)"
  shows "out = SPanic \<and> se_chain s1 = se_chain s
    \<and> handleStatus (ct_ID tx) s1 = SReply (SObject [(''tx_id'', SText (ct_ID tx)), (''status'', SText ''pending'')])"
proof -
  let ?tx = "tx\<lparr>ct_Status := TxPending\<rparr>"
  have id: "with_id E tx s = (?tx, s)"
    using assms(2) by (simp add: with_id_def)
  have valid: "shard_valid s (ct_FromShard ?tx)" "\<not> list_ex (\<lambda>rw. \<not> shard_valid s (ShardNum (rw_ReferenceBlock rw))) (ct_RwSet ?tx)"
    using assms(3-5) by (auto simp: shard_valid_def list_all_iff list_ex_iff)
  have "Service_handleSubmit E (Inr tx) s = (SPanic, s\<lparr>se_pending := mput (ct_ID tx) (CrossShardTx_DeepCopy ?tx) (se_pending s)\<rparr>)"
    using valid assms(1) by (simp add: Service_handleSubmit_def id)
  with assms(6) show ?thesis
    by (auto simp: handleStatus_def mget_mput CrossShardTx_DeepCopy_eq)
qed

lemma abort_all_votes: "mget (oc_votes (abort_all ts c)) t = (if t \<in> set ts then None else mget (oc_votes c) t)"
  by (induction ts arbitrary: c) (auto simp: gomap_simps)

text \<open>A failed simulation can be committed: the service puts the transaction of a failed simulation on the
  chain, the next block orders it like any other, and when it names no other shard, one YES vote of its
  source shard settles it as committed.\<close>

lemma failed_simulation_committed:
  assumes "oc_wf (se_chain s)" and "oc_pendingTxs (se_chain s) = []" and "mget (oc_votes (se_chain s)) (ct_ID tx) = None"
    and "sm_queue (se_simulator s) = tx # rest" and "ct_RwSet tx = []"
    and "simulate E tx (sm_fetcher (se_simulator s)) = Some (res, db)" and "sim_error res db = Some err"
    and "worker_step E now s = Some s1" and "service_tick E time s1 = Some s2"
    and "sb_ShardID blk = ct_FromShard tx" and "sb_TpcPrepare blk = [(ct_ID tx, True)]"
  shows "(\<exists>tx1. ob_CtToOrder (last (oc_blocks (se_chain s2))) = [tx1] \<and> ct_ID tx1 = ct_ID tx \<and> ct_SimStatus tx1 = SimFailed)
    \<and> mget (oc_pendingResult (se_chain (snd (handleStateShardBlock (Inr blk) s2)))) (ct_ID tx) = Some True"
proof -
  let ?tx = "tx\<lparr>ct_SimStatus := SimFailed, ct_SimError := err\<rparr>" and ?c = "se_chain s"
  have c1: "se_chain s1 = AddTransaction ?c ?tx"
    using assms(8) by (cases rule: worker_cases) (use assms(4,6,7) in \<open>auto simp: service_onError_def\<close>)
  have wf: "oc_wf (se_chain s1)"
    unfolding c1 by (rule oc_wf_Add [OF assms(1)])
  let ?cp = "CrossShardTx_DeepCopy ?tx" and ?t = "ct_ID tx"
  obtain block c2 where prod: "OC_ProduceBlock (oe_blockHash E) time (se_chain s1) = Some (block, c2)" and s2: "se_chain s2 = c2"
    using assms(9) by (auto simp: service_tick_def split: option.splits)
  have pend: "oc_pendingTxs (se_chain s1) = [?cp]"
    using assms(2) by (simp add: c1 AddTransaction_def)
  have none: "mget (oc_votes (abort_all ts (se_chain s1))) ?t = None" for ts
    using abort_all_votes [of ts "se_chain s1" ?t] assms(3) by (simp add: c1 AddTransaction_def)
  have inv: "InvolvedShards ?cp = [ct_FromShard tx]" "ct_ID ?cp = ?t"
    using assms(5) unfolding InvolvedShards_DeepCopy by (simp_all add: InvolvedShards_def TargetShards_def)
  have order: "ob_CtToOrder block = [CrossShardTx_DeepCopy ?cp]" "mget (oc_awaitingVotes c2) ?t \<noteq> None"
    "mget (oc_expectedVoters c2) ?t = Some [ct_FromShard tx]" "mget (oc_votes c2) ?t = None"
    using prod none inv unfolding ProduceBlock_result [OF wf] pend by (auto simp: Let_def await_votes_def mget_mput)
  have "RecordVote c2 ?t (ct_FromShard tx) True = (True, settle (c2\<lparr>oc_votes := mput ?t [(ct_FromShard tx, True)] (mput ?t [] (oc_votes c2))\<rparr>) ?t True)"
    using order(2-4) by (auto simp: RecordVote_def Let_def mgetd_def mget_mput)
  then have "mget (oc_pendingResult (se_chain (record_prepare (sb_ShardID blk) (?t, True) s2))) ?t = Some True"
    using assms(10) by (simp add: record_prepare_chain s2 mget_mput)
  moreover have "last (oc_blocks (se_chain s2)) = block"
    by (simp add: s2 Produce_blocks [OF prod])
  ultimately show ?thesis
    using assms(11) order(1) by (simp add: handleStateShardBlock_def CrossShardTx_DeepCopy_eq)
qed

end
