(* ===== verification/Slot_Locks.thy ===== *)
theory Slot_Locks
  imports Protocol_Types
begin

text \<open>
  Slot-level locks of a state shard (\<open>internal/shard/chain.go\<close>, fields \<open>slotLocks\<close>, and the
  validation of read sets): a two-level map from address and slot to the transaction that holds
  the lock. An address without locked slots has no entry.

  The contract of the table is the locale \<open>slot_lock_table\<close>, stated over the function that says
  who holds a slot. Its lemmas (a lock stays until its holder releases it; releasing the slots just
  acquired restores the table) are interpreted on the operations of the source, and carry the
  atomicity of \<open>validateAndLockReadSetLocked\<close>.

  Reading the current value of a slot is a parameter with its own state, as is the conversion of
  the bytes of a read-set item to a hash.
\<close>

type_synonym slot_table = "(address, (hash, txid) gomap) gomap"

datatype slot_error =
    SlotLockError address hash txid
  | ReadSetMismatchError address hash "byte list" hash

definition lockSlotLocked :: "slot_table \<Rightarrow> txid \<Rightarrow> address \<Rightarrow> hash \<Rightarrow> slot_error option \<times> slot_table" where
  "lockSlotLocked t txID addr slot =
     (let t1 = (if mget t addr = None then mput addr [] t else t);
          slots = mgetd [] t1 addr
      in case mget slots slot of
           Some existing \<Rightarrow>
             if existing \<noteq> txID then (Some (SlotLockError addr slot existing), t1) else (None, t1)
         | None \<Rightarrow> (None, mput addr (mput slot txID slots) t1))"

definition unlockSlotLocked :: "slot_table \<Rightarrow> txid \<Rightarrow> address \<Rightarrow> hash \<Rightarrow> slot_table" where
  "unlockSlotLocked t txID addr slot =
     (case mget t addr of
        None \<Rightarrow> t
      | Some slots \<Rightarrow>
          if mgetd [] slots slot = txID
          then let t1 = mput addr (mdel slot slots) t
               in if length (mgetd [] t1 addr) = 0 then mdel addr t1 else t1
          else t)"

text \<open>The three phases of \<open>unlockAllSlotsForTxLocked\<close>: collect, delete, drop empty addresses.\<close>

definition slots_held :: "slot_table \<Rightarrow> txid \<Rightarrow> (address \<times> hash) list" where
  "slots_held t txID = concat (map (\<lambda>(addr, slots).
     map (\<lambda>(slot, holder). (addr, slot)) (filter (\<lambda>(slot, holder). holder = txID) slots)) t)"

definition delete_slot :: "address \<times> hash \<Rightarrow> slot_table \<Rightarrow> slot_table" where
  "delete_slot sk t = (case mget t (fst sk) of
     None \<Rightarrow> t
   | Some slots \<Rightarrow> mput (fst sk) (mdel (snd sk) slots) t)"

definition drop_empty :: "slot_table \<Rightarrow> slot_table" where
  "drop_empty t = fold mdel (filter (\<lambda>addr. length (mgetd [] t addr) = 0) (mkeys t)) t"

definition unlockAllSlotsForTxLocked :: "slot_table \<Rightarrow> txid \<Rightarrow> slot_table" where
  "unlockAllSlotsForTxLocked t txID = drop_empty (fold delete_slot (slots_held t txID) t)"

definition IsSlotLocked :: "slot_table \<Rightarrow> address \<Rightarrow> hash \<Rightarrow> bool" where
  "IsSlotLocked t addr slot =
     (case mget t addr of None \<Rightarrow> False | Some slots \<Rightarrow> mget slots slot \<noteq> None)"

definition GetSlotLockHolder :: "slot_table \<Rightarrow> address \<Rightarrow> hash \<Rightarrow> txid" where
  "GetSlotLockHolder t addr slot =
     (case mget t addr of None \<Rightarrow> [] | Some slots \<Rightarrow> mgetd [] slots slot)"

definition IsAddressLocked :: "slot_table \<Rightarrow> address \<Rightarrow> bool" where
  "IsAddressLocked t addr = (0 < length (mgetd [] t addr))"

text \<open>Any holder of a slot of the address: the first one the \<open>range\<close> statement visits.\<close>

definition GetAddressLockHolder :: "slot_table \<Rightarrow> address \<Rightarrow> txid" where
  "GetAddressLockHolder t addr =
     (case mgetd [] t addr of [] \<Rightarrow> [] | (slot, holder) # _ \<Rightarrow> holder)"

text \<open>The nested loops of \<open>validateAndLockReadSetLocked\<close> over the addresses and their items.\<close>

definition read_items :: "RwVariable list \<Rightarrow> (address \<times> ReadSetItem) list" where
  "read_items rwSet = concat (map (\<lambda>rw. map (\<lambda>item. (rw_Address rw, item)) (rw_ReadSet rw)) rwSet)"

definition release :: "txid \<Rightarrow> (address \<times> hash) list \<Rightarrow> slot_table \<Rightarrow> slot_table" where
  "release txID sks t = fold (\<lambda>(addr, slot) t. unlockSlotLocked t txID addr slot) sks t"

fun lock_items :: "(address \<Rightarrow> hash \<Rightarrow> 'e \<Rightarrow> hash \<times> 'e) \<Rightarrow> (byte list \<Rightarrow> hash) \<Rightarrow> txid
    \<Rightarrow> (address \<times> ReadSetItem) list \<Rightarrow> (address \<times> hash) list \<Rightarrow> slot_table \<Rightarrow> 'e
    \<Rightarrow> slot_error option \<times> slot_table \<times> 'e" where
  "lock_items getState bytesToHash txID [] lockedSlots t e = (None, t, e)"
| "lock_items getState bytesToHash txID ((addr, item) # items) lockedSlots t e =
     (let (currentValue, e1) = getState addr (rs_Slot item) e in
      if currentValue \<noteq> bytesToHash (rs_Value item)
      then (Some (ReadSetMismatchError addr (rs_Slot item) (rs_Value item) currentValue),
            release txID lockedSlots t, e1)
      else case lockSlotLocked t txID addr (rs_Slot item) of
             (Some err, t1) \<Rightarrow> (Some err, release txID lockedSlots t1, e1)
           | (None, t1) \<Rightarrow>
               lock_items getState bytesToHash txID items (lockedSlots @ [(addr, rs_Slot item)]) t1 e1)"

subsection \<open>Who holds a slot\<close>

definition slot_holder :: "slot_table \<Rightarrow> address \<times> hash \<Rightarrow> txid option" where
  "slot_holder t sk = mget (mgetd [] t (fst sk)) (snd sk)"

definition slots_wf :: "slot_table \<Rightarrow> bool" where
  "slots_wf t \<longleftrightarrow> wfmap t \<and> (\<forall>addr slots. mget t addr = Some slots \<longrightarrow> wfmap slots \<and> slots \<noteq> [])"

lemma slots_wf_Nil [simp]: "slots_wf []"
  by (simp add: slots_wf_def)

lemma slot_holder_Nil [simp]: "slot_holder [] sk = None"
  by (simp add: slot_holder_def)

lemma slots_wf_put:
  "slots_wf t \<Longrightarrow> wfmap slots \<Longrightarrow> slots \<noteq> [] \<Longrightarrow> slots_wf (mput addr slots t)"
  by (auto simp: slots_wf_def gomap_simps)

lemma slots_wf_del: "slots_wf t \<Longrightarrow> slots_wf (mdel addr t)"
  by (auto simp: slots_wf_def gomap_simps)

lemma slots_wf_inner: "slots_wf t \<Longrightarrow> wfmap (mgetd [] t addr)"
  by (auto simp: slots_wf_def mgetd_def split: option.splits)

lemma lockSlotLocked_free:
  "slot_holder t (addr, slot) = None \<Longrightarrow>
     lockSlotLocked t txID addr slot = (None, mput addr (mput slot txID (mgetd [] t addr)) t)"
  by (auto simp: slot_holder_def lockSlotLocked_def Let_def mgetd_def gomap_simps split: option.splits)

lemma lockSlotLocked_held:
  assumes "slot_holder t (addr, slot) = Some x"
  shows "lockSlotLocked t txID addr slot = (if x = txID then None else Some (SlotLockError addr slot x), t)"
proof -
  obtain slots where "mget t addr = Some slots" "mget slots slot = Some x"
    using assms by (auto simp: slot_holder_def mgetd_def split: option.splits)
  then show ?thesis
    by (simp add: lockSlotLocked_def mgetd_def)
qed

lemma unlockSlotLocked_held:
  assumes "slot_holder t (addr, slot) = Some txID" and "slots = mdel slot (mgetd [] t addr)"
  shows "unlockSlotLocked t txID addr slot = (if slots = [] then mdel addr t else mput addr slots t)"
proof -
  obtain inner where "mget t addr = Some inner" "mget inner slot = Some txID"
    using assms(1) by (auto simp: slot_holder_def mgetd_def split: option.splits)
  then show ?thesis
    using assms(2) by (auto simp: unlockSlotLocked_def Let_def mgetd_def gomap_simps)
qed

lemma unlockSlotLocked_other:
  assumes "slots_wf t" and "slot_holder t (addr, slot) \<noteq> Some txID"
  shows "unlockSlotLocked t txID addr slot = t"
proof (cases "mget t addr")
  case (Some slots)
  show ?thesis
  proof (cases "mget slots slot")
    case None
    have "slots \<noteq> []"
      using assms(1) Some by (auto simp: slots_wf_def)
    then show ?thesis
      using Some None by (simp add: unlockSlotLocked_def mgetd_def)
  next
    case (Some x)
    with assms(2) \<open>mget t addr = Some slots\<close> show ?thesis
      by (simp add: unlockSlotLocked_def slot_holder_def mgetd_def)
  qed
qed (simp add: unlockSlotLocked_def)

lemma slot_holder_put:
  "slot_holder (mput addr slots t) sk = (if fst sk = addr then mget slots (snd sk) else slot_holder t sk)"
  by (simp add: slot_holder_def mgetd_mput)

lemma slot_holder_del:
  "slot_holder (mdel addr t) sk = (if fst sk = addr then None else slot_holder t sk)"
  by (simp add: slot_holder_def mgetd_mdel)

lemma mget_same_addr: "slot_holder t (addr, slot) = mget (mgetd [] t addr) slot"
  by (simp add: slot_holder_def)

lemma lockSlotLocked_law:
  assumes "slots_wf t"
  shows "slots_wf (snd (lockSlotLocked t x a s))
    \<and> (fst (lockSlotLocked t x a s) = None \<longleftrightarrow> slot_holder t (a, s) \<in> {None, Some x})
    \<and> slot_holder (snd (lockSlotLocked t x a s)) =
        (if slot_holder t (a, s) = None then (slot_holder t)((a, s) \<mapsto> x) else slot_holder t)"
proof (cases "slot_holder t (a, s)")
  case None
  then show ?thesis
    using assms slots_wf_inner [OF assms, of a]
    by (auto simp: lockSlotLocked_free slots_wf_put slot_holder_put gomap_simps fun_eq_iff mget_same_addr)
next
  case (Some y)
  with assms show ?thesis
    by (auto simp: lockSlotLocked_held)
qed

lemma unlockSlotLocked_law:
  assumes "slots_wf t"
  shows "slots_wf (unlockSlotLocked t x a s)
    \<and> slot_holder (unlockSlotLocked t x a s) =
        (if slot_holder t (a, s) = Some x then (slot_holder t)((a, s) := None) else slot_holder t)"
proof (cases "slot_holder t (a, s) = Some x")
  case True
  have "slots_wf (unlockSlotLocked t x a s)"
    using assms slots_wf_inner [OF assms, of a] unlockSlotLocked_held [OF True refl]
    by (simp add: slots_wf_put slots_wf_del)
  moreover have "mget (mdel s (mgetd [] t a)) s' = (if s' = s then None else slot_holder t (a, s'))" for s'
    by (simp add: gomap_simps mget_same_addr)
  then have "slot_holder (unlockSlotLocked t x a s) sk = ((slot_holder t)((a, s) := None)) sk" for sk
    using unlockSlotLocked_held [OF True refl]
    by (cases sk) (auto simp: slot_holder_put slot_holder_del, metis option.distinct(1) map_of.simps(1))
  ultimately show ?thesis
    using True by auto
next
  case False
  with assms show ?thesis
    by (simp add: unlockSlotLocked_other)
qed

lemma slot_holder_delete_slot: "slot_holder (delete_slot sk t) = (slot_holder t)(sk := None)"
proof
  fix sk'
  show "slot_holder (delete_slot sk t) sk' = ((slot_holder t)(sk := None)) sk'"
    by (cases sk; cases sk'; cases "mget t (fst sk)")
      (auto simp: delete_slot_def slot_holder_put gomap_simps, auto simp: slot_holder_def mgetd_def)
qed

lemma slot_holder_delete_slots:
  "slot_holder (fold delete_slot sks t) sk = (if sk \<in> set sks then None else slot_holder t sk)"
  by (induction sks arbitrary: t) (auto simp: slot_holder_delete_slot)

lemma delete_slots_wfmap:
  "wfmap t \<Longrightarrow> \<forall>a slots. mget t a = Some slots \<longrightarrow> wfmap slots \<Longrightarrow>
     wfmap (fold delete_slot sks t) \<and> (\<forall>a slots. mget (fold delete_slot sks t) a = Some slots \<longrightarrow> wfmap slots)"
proof (induction sks arbitrary: t)
  case (Cons sk sks)
  have "wfmap (delete_slot sk t)" "\<forall>a slots. mget (delete_slot sk t) a = Some slots \<longrightarrow> wfmap slots"
    using Cons.prems by (auto simp: delete_slot_def gomap_simps split: option.splits if_splits)
  then show ?case
    using Cons.IH by simp
qed simp

lemma mget_fold_mdel: "mget (fold mdel ks m) k = (if k \<in> set ks then None else mget m k)"
  by (induction ks arbitrary: m) (auto simp: gomap_simps)

lemma wfmap_fold_mdel: "wfmap m \<Longrightarrow> wfmap (fold mdel ks m)"
  by (induction ks arbitrary: m) auto

lemma mget_drop_empty: "mget (drop_empty t) a = (if mgetd [] t a = [] then None else mget t a)"
proof -
  have "a \<in> set (mkeys t)" if "mget t a \<noteq> None"
    using that by (simp only: mget_in_keys)
  then show ?thesis
    by (cases "mget t a") (auto simp: drop_empty_def mget_fold_mdel simp del: set_map)
qed

lemma slot_holder_drop_empty: "slot_holder (drop_empty t) = slot_holder t"
  by (rule ext) (simp add: slot_holder_def mgetd_def mget_drop_empty split: option.splits)

lemma set_slots_held:
  assumes "slots_wf t"
  shows "set (slots_held t x) = {sk. slot_holder t sk = Some x}"
proof -
  have "(a, s) \<in> set (slots_held t x) \<longleftrightarrow> (\<exists>slots. (a, slots) \<in> set t \<and> (s, x) \<in> set slots)" for a s
    by (force simp: slots_held_def)
  moreover have "(\<exists>slots. (a, slots) \<in> set t \<and> (s, x) \<in> set slots) \<longleftrightarrow>
      (\<exists>slots. mget t a = Some slots \<and> mget slots s = Some x)" for a s
    using assms by (auto simp: slots_wf_def wfmap_mget_iff)
  ultimately show ?thesis
    by (auto simp: slot_holder_def mgetd_def split: option.splits)
qed

lemma unlockAll_law:
  assumes "slots_wf t"
  shows "slots_wf (unlockAllSlotsForTxLocked t x)
    \<and> slot_holder (unlockAllSlotsForTxLocked t x) sk =
        (if slot_holder t sk = Some x then None else slot_holder t sk)"
proof -
  let ?d = "fold delete_slot (slots_held t x) t"
  have "wfmap ?d" "\<forall>a slots. mget ?d a = Some slots \<longrightarrow> wfmap slots"
    using delete_slots_wfmap [of t "slots_held t x"] assms by (simp_all add: slots_wf_def)
  moreover have "wfmap (drop_empty ?d)"
    using calculation(1) unfolding drop_empty_def by (rule wfmap_fold_mdel)
  ultimately have "slots_wf (drop_empty ?d)"
    by (auto simp: slots_wf_def mget_drop_empty mgetd_def split: if_splits)
  then show ?thesis
    by (simp add: unlockAllSlotsForTxLocked_def slot_holder_drop_empty slot_holder_delete_slots
        set_slots_held [OF assms])
qed

subsection \<open>The contract\<close>

datatype lock_op = OpLock txid address hash | OpUnlock txid address hash | OpUnlockAll txid

fun releases :: "txid \<Rightarrow> lock_op \<Rightarrow> bool" where
  "releases x (OpLock y a s) = False"
| "releases x (OpUnlock y a s) = (y = x)"
| "releases x (OpUnlockAll y) = (y = x)"

fun lock_op_step :: "('t \<Rightarrow> txid \<Rightarrow> address \<Rightarrow> hash \<Rightarrow> 'err option \<times> 't) \<Rightarrow> ('t \<Rightarrow> txid \<Rightarrow> address \<Rightarrow> hash \<Rightarrow> 't)
    \<Rightarrow> ('t \<Rightarrow> txid \<Rightarrow> 't) \<Rightarrow> lock_op \<Rightarrow> 't \<Rightarrow> 't" where
  "lock_op_step lock unlock unlock_all (OpLock x a s) t = snd (lock t x a s)"
| "lock_op_step lock unlock unlock_all (OpUnlock x a s) t = unlock t x a s"
| "lock_op_step lock unlock unlock_all (OpUnlockAll x) t = unlock_all t x"

locale slot_lock_table =
  fixes lock :: "'t \<Rightarrow> txid \<Rightarrow> address \<Rightarrow> hash \<Rightarrow> 'err option \<times> 't"
    and unlock :: "'t \<Rightarrow> txid \<Rightarrow> address \<Rightarrow> hash \<Rightarrow> 't"
    and unlock_all :: "'t \<Rightarrow> txid \<Rightarrow> 't"
    and holder :: "'t \<Rightarrow> address \<times> hash \<Rightarrow> txid option"
    and ok :: "'t \<Rightarrow> bool"
  assumes lock_ok: "ok t \<Longrightarrow> ok (snd (lock t x a s))"
    and lock_granted: "ok t \<Longrightarrow> fst (lock t x a s) = None \<longleftrightarrow> holder t (a, s) \<in> {None, Some x}"
    and lock_holder: "ok t \<Longrightarrow> holder (snd (lock t x a s)) =
          (if holder t (a, s) = None then (holder t)((a, s) \<mapsto> x) else holder t)"
    and unlock_ok: "ok t \<Longrightarrow> ok (unlock t x a s)"
    and unlock_holder: "ok t \<Longrightarrow> holder (unlock t x a s) =
          (if holder t (a, s) = Some x then (holder t)((a, s) := None) else holder t)"
    and unlock_all_ok: "ok t \<Longrightarrow> ok (unlock_all t x)"
    and unlock_all_holder: "ok t \<Longrightarrow> holder (unlock_all t x) sk =
          (if holder t sk = Some x then None else holder t sk)"
begin

lemma step_ok: "ok t \<Longrightarrow> ok (lock_op_step lock unlock unlock_all op t)"
  by (cases op) (simp_all add: lock_ok unlock_ok unlock_all_ok)

lemma step_keeps_holder:
  "ok t \<Longrightarrow> holder t sk = Some x \<Longrightarrow> \<not> releases x op \<Longrightarrow>
     holder (lock_op_step lock unlock unlock_all op t) sk = Some x"
  by (cases op) (auto simp: lock_holder unlock_holder unlock_all_holder)

lemma held_until_released:
  "ok t \<Longrightarrow> holder t sk = Some x \<Longrightarrow> \<forall>op \<in> set ops. \<not> releases x op \<Longrightarrow>
     holder (fold (lock_op_step lock unlock unlock_all) ops t) sk = Some x"
  by (induction ops arbitrary: t) (simp_all add: step_ok step_keeps_holder)

lemma unlock_many:
  "ok t \<Longrightarrow> ok (fold (\<lambda>(a, s) t. unlock t x a s) sks t)
     \<and> holder (fold (\<lambda>(a, s) t. unlock t x a s) sks t) sk =
         (if sk \<in> set sks \<and> holder t sk = Some x then None else holder t sk)"
proof (induction sks arbitrary: t)
  case (Cons k sks)
  obtain a s where k: "k = (a, s)"
    by (cases k)
  show ?case
    using Cons.IH [of "unlock t x a s"] Cons.prems by (auto simp: k unlock_ok unlock_holder)
qed simp

end

interpretation sl: slot_lock_table lockSlotLocked unlockSlotLocked unlockAllSlotsForTxLocked slot_holder slots_wf
  by unfold_locales (auto simp: lockSlotLocked_law unlockSlotLocked_law unlockAll_law)

lemma release_law:
  "slots_wf t \<Longrightarrow> slots_wf (release x sks t)
     \<and> slot_holder (release x sks t) sk =
         (if sk \<in> set sks \<and> slot_holder t sk = Some x then None else slot_holder t sk)"
  unfolding release_def by (rule sl.unlock_many)

subsection \<open>Validation of read sets\<close>

definition item_slots :: "(address \<times> ReadSetItem) list \<Rightarrow> (address \<times> hash) list" where
  "item_slots items = map (\<lambda>(a, i). (a, rs_Slot i)) items"

lemma item_slots_simps [simp]:
  "item_slots [] = []" "item_slots ((a, i) # items) = (a, rs_Slot i) # item_slots items"
  by (simp_all add: item_slots_def)

lemma lock_items_success:
  assumes "slots_wf t" and "lock_items g b x items done t e = (None, t', e')"
  shows "slots_wf t' \<and> slot_holder t' =
      (\<lambda>sk. if sk \<in> set (item_slots items) then Some x else slot_holder t sk)
    \<and> (\<forall>sk \<in> set (item_slots items). slot_holder t sk \<in> {None, Some x})"
  using assms
proof (induction g b x items "done" t e rule: lock_items.induct)
  case (2 g b x a i items "done" t e)
  obtain v e1 where v: "g a (rs_Slot i) e = (v, e1)"
    by fastforce
  obtain r t1 where l: "lockSlotLocked t x a (rs_Slot i) = (r, t1)"
    by fastforce
  have "v = b (rs_Value i)" "r = None"
    using "2.prems"(2) v l by (auto split: if_splits option.splits)
  note granted = sl.lock_granted [OF "2.prems"(1), of x a "rs_Slot i"]
    and holder = sl.lock_holder [OF "2.prems"(1), of x a "rs_Slot i"]
    and ok = sl.lock_ok [OF "2.prems"(1), of x a "rs_Slot i"]
  have "lock_items g b x items (done @ [(a, rs_Slot i)]) t1 e1 = (None, t', e')"
    using "2.prems"(2) v l \<open>v = b (rs_Value i)\<close> \<open>r = None\<close> by simp
  then have IH: "slots_wf t' \<and> slot_holder t' =
      (\<lambda>sk. if sk \<in> set (item_slots items) then Some x else slot_holder t1 sk)
    \<and> (\<forall>sk \<in> set (item_slots items). slot_holder t1 sk \<in> {None, Some x})"
    using "2.IH" [OF v [symmetric]] l ok \<open>v = b (rs_Value i)\<close> \<open>r = None\<close> by auto
  moreover have t1: "slot_holder t1 = (\<lambda>sk. if sk = (a, rs_Slot i) then Some x else slot_holder t sk)"
    using granted holder l \<open>r = None\<close> by (auto simp: fun_eq_iff)
  moreover have "slot_holder t sk \<in> {None, Some x}" if "sk \<in> set (item_slots items)" for sk
    using IH granted l \<open>r = None\<close> that by (cases "sk = (a, rs_Slot i)") (auto simp: t1)
  ultimately show ?case
    using granted l \<open>r = None\<close> by (auto simp: fun_eq_iff)
qed simp

lemma lock_items_failure:
  assumes "slots_wf t" and "lock_items g b x items done t e = (Some err, t', e')"
    and "\<forall>sk \<in> set done. slot_holder t sk = Some x"
  shows "slots_wf t'
    \<and> (\<forall>sk. slot_holder t' sk = slot_holder t sk \<or> slot_holder t sk = Some x \<and> slot_holder t' sk = None)
    \<and> (\<forall>sk \<in> set done. slot_holder t' sk = None)"
  using assms
proof (induction g b x items "done" t e rule: lock_items.induct)
  case (2 g b x a i items "done" t e)
  obtain v e1 where v: "g a (rs_Slot i) e = (v, e1)"
    by fastforce
  obtain r t1 where l: "lockSlotLocked t x a (rs_Slot i) = (r, t1)"
    by fastforce
  note granted = sl.lock_granted [OF "2.prems"(1), of x a "rs_Slot i"]
    and holder = sl.lock_holder [OF "2.prems"(1), of x a "rs_Slot i"]
    and ok = sl.lock_ok [OF "2.prems"(1), of x a "rs_Slot i"]
  consider (stop) t2 where "t' = release x done t2" "slots_wf t2" "slot_holder t2 = slot_holder t"
    | (go) "v = b (rs_Value i)" "r = None" "lock_items g b x items (done @ [(a, rs_Slot i)]) t1 e1 = (Some err, t', e')"
    using "2.prems"(1,2) v l granted holder ok by (auto split: if_splits option.splits)
  then show ?case
  proof cases
    case stop
    with release_law [OF stop(2), of x "done"] "2.prems"(3) show ?thesis
      by auto
  next
    case go
    have t1: "slot_holder t1 = (\<lambda>sk. if sk = (a, rs_Slot i) then Some x else slot_holder t sk)"
      using granted holder l go(2) by (auto simp: fun_eq_iff)
    with "2.prems"(3) have "\<forall>sk \<in> set (done @ [(a, rs_Slot i)]). slot_holder t1 sk = Some x"
      by auto
    then have IH: "(\<forall>sk. slot_holder t' sk = slot_holder t1 sk \<or> slot_holder t1 sk = Some x \<and> slot_holder t' sk = None)
      \<and> (\<forall>sk \<in> set (done @ [(a, rs_Slot i)]). slot_holder t' sk = None) \<and> slots_wf t'"
      using "2.IH" [OF v [symmetric]] l ok go by auto
    have "slot_holder t' sk = slot_holder t sk \<or> slot_holder t sk = Some x \<and> slot_holder t' sk = None" for sk
    proof (cases "sk = (a, rs_Slot i)")
      case True
      with IH have "slot_holder t' sk = None"
        by simp
      with True granted l go(2) show ?thesis
        by auto
    next
      case False
      with spec [OF conjunct1 [OF IH], of sk] show ?thesis
        by (simp add: t1)
    qed
    with IH show ?thesis
      by simp
  qed
qed simp

text \<open>
  Reading storage, as the validation relies on it: in every state that satisfies \<open>P\<close> the value of
  a slot is given by \<open>v\<close>, and reading keeps \<open>P\<close>.
\<close>

definition reads_as :: "(address \<Rightarrow> hash \<Rightarrow> 'e \<Rightarrow> hash \<times> 'e) \<Rightarrow> ('e \<Rightarrow> bool) \<Rightarrow> (address \<Rightarrow> hash \<Rightarrow> hash) \<Rightarrow> bool" where
  "reads_as g P v \<longleftrightarrow> (\<forall>a s e. P e \<longrightarrow> fst (g a s e) = v a s \<and> P (snd (g a s e)))"

lemma reads_asD: "reads_as g P v \<Longrightarrow> P e \<Longrightarrow> fst (g a s e) = v a s \<and> P (snd (g a s e))"
  by (simp add: reads_as_def)

definition items_valid :: "(address \<Rightarrow> hash \<Rightarrow> hash) \<Rightarrow> (byte list \<Rightarrow> hash) \<Rightarrow> (address \<times> ReadSetItem) list \<Rightarrow> bool" where
  "items_valid v b items \<longleftrightarrow> (\<forall>(a, i) \<in> set items. v a (rs_Slot i) = b (rs_Value i))"

lemma lock_items_reads:
  assumes "reads_as g P v"
  shows "P e \<Longrightarrow> P (snd (snd (lock_items g b x items done t e)))"
proof (induction items arbitrary: "done" t e)
  case (Cons item items)
  obtain a i where item: "item = (a, i)"
    by (cases item)
  have "P (snd (g a (rs_Slot i) e))"
    using reads_asD [OF assms Cons.prems] by simp
  then show ?case
    using Cons.IH by (auto simp: item split: prod.splits option.splits)
qed simp

lemma lock_items_accepts_iff:
  assumes "reads_as g P v"
  shows "P e \<Longrightarrow> slots_wf t \<Longrightarrow> fst (lock_items g b x items done t e) = None \<longleftrightarrow>
    items_valid v b items \<and> (\<forall>sk \<in> set (item_slots items). slot_holder t sk \<in> {None, Some x})"
proof (induction items arbitrary: "done" t e)
  case (Cons item items)
  obtain a i where item: "item = (a, i)"
    by (cases item)
  obtain w e1 where g: "g a (rs_Slot i) e = (w, e1)"
    by fastforce
  have w: "w = v a (rs_Slot i)" "P e1"
    using reads_asD [OF assms Cons.prems(1), of a "rs_Slot i"] g by simp_all
  obtain r t1 where l: "lockSlotLocked t x a (rs_Slot i) = (r, t1)"
    by fastforce
  have ok: "slots_wf t1" and granted: "r = None \<longleftrightarrow> slot_holder t (a, rs_Slot i) \<in> {None, Some x}"
    using sl.lock_ok [OF Cons.prems(2), of x a "rs_Slot i"] sl.lock_granted [OF Cons.prems(2), of x a "rs_Slot i"] l
    by simp_all
  show ?case
  proof (cases "w = b (rs_Value i) \<and> r = None")
    case True
    have t1: "slot_holder t1 = (\<lambda>sk. if sk = (a, rs_Slot i) then Some x else slot_holder t sk)"
      using True granted sl.lock_holder [OF Cons.prems(2), of x a "rs_Slot i"] l by (auto simp: fun_eq_iff)
    then have "slot_holder t1 sk \<in> {None, Some x} \<longleftrightarrow> slot_holder t sk \<in> {None, Some x}" for sk
      using True granted by (cases "sk = (a, rs_Slot i)") auto
    then show ?thesis
      using True granted w g l Cons.IH [OF w(2) ok] by (simp add: item items_valid_def)
  next
    case False
    then show ?thesis
      using granted w g l by (auto simp: item items_valid_def)
  qed
qed (simp add: items_valid_def)

subsection \<open>Properties\<close>

text \<open>Exclusive slot locks: once a transaction holds a slot, no sequence of lock and unlock
  operations of other transactions takes it away; only its own unlock operations release it.\<close>

lemma slot_lock_exclusive:
  assumes "slots_wf t" and "slot_holder t sk = Some x"
    and "\<forall>op \<in> set ops. \<not> releases x op"
  shows "slot_holder (fold (lock_op_step lockSlotLocked unlockSlotLocked unlockAllSlotsForTxLocked) ops t) sk = Some x"
  using assms by (rule sl.held_until_released)

text \<open>A slot that no transaction holds can be locked, a slot that another transaction holds
  cannot, and unlocking everything of a transaction frees exactly its slots.\<close>

lemma slot_lock_operations:
  assumes "slots_wf t"
  shows "(fst (lockSlotLocked t x a s) = None \<longleftrightarrow> slot_holder t (a, s) \<in> {None, Some x})
    \<and> (fst (lockSlotLocked t x a s) = None \<longrightarrow> slot_holder (snd (lockSlotLocked t x a s)) = (slot_holder t)((a, s) \<mapsto> x))
    \<and> slot_holder (unlockAllSlotsForTxLocked t x) sk = (if slot_holder t sk = Some x then None else slot_holder t sk)"
  using sl.lock_granted [OF assms, of x a s] sl.lock_holder [OF assms, of x a s] sl.unlock_all_holder [OF assms, of x sk]
  by (auto simp: fun_eq_iff)

end
