(* ===== verification/Configuration.thy ===== *)
theory Configuration
  imports Protocol_Types
begin

text \<open>
  The configuration file (\<open>config/config.go\<close>). Reading and decoding a file are given by what they yield
  for a path: an error of the file system, or an error of the JSON decoder, or the configuration. The
  text functions of the standard library that the programs use on settings and files are here too.
\<close>

subsection \<open>Text\<close>

text \<open>\<open>strconv.Atoi\<close>: a decimal number with an optional sign that fits 64 bits; \<open>None\<close> is an error.\<close>

definition Atoi :: "string \<Rightarrow> int option" where
  "Atoi s = (case set_string s 10 of
     None \<Rightarrow> None
   | Some i \<Rightarrow> if - (2 ^ 63) \<le> i \<and> i < 2 ^ 63 then Some i else None)"

text \<open>\<open>strings.TrimSpace\<close> on ASCII text.\<close>

definition is_space :: "char \<Rightarrow> bool" where
  "is_space c \<longleftrightarrow> c \<in> {CHR '' '', CHR 0x09, CHR 0x0A, CHR 0x0B, CHR 0x0C, CHR 0x0D}"

definition TrimSpace :: "string \<Rightarrow> string" where
  "TrimSpace s = rev (dropWhile is_space (rev (dropWhile is_space s)))"

lemma dropWhile_none: "\<forall>x \<in> set xs. \<not> P x \<Longrightarrow> dropWhile P xs = xs"
  by (cases xs) simp_all

lemma TrimSpace_id: "\<forall>c \<in> set s. \<not> is_space c \<Longrightarrow> TrimSpace s = s"
  by (simp add: TrimSpace_def dropWhile_none)

text \<open>\<open>strings.Split\<close> at the newlines: one more piece than there are newlines.\<close>

fun split_lines :: "string \<Rightarrow> string list" where
  "split_lines [] = [[]]"
| "split_lines (c # cs) =
     (if c = CHR 0x0A then [] # split_lines cs
      else case split_lines cs of [] \<Rightarrow> [[c]] | l # ls \<Rightarrow> (c # l) # ls)"

lemma split_lines_nonempty: "split_lines s \<noteq> []"
  by (cases s) (simp_all split: list.splits)

lemma split_lines_line: "\<forall>c \<in> set l. c \<noteq> CHR 0x0A \<Longrightarrow> split_lines (l @ CHR 0x0A # s) = l # split_lines s"
  by (induction l) simp_all

lemma split_lines_file: "\<forall>l \<in> set ls. \<forall>c \<in> set l. c \<noteq> CHR 0x0A \<Longrightarrow> split_lines (concat (map (\<lambda>l. l @ [CHR 0x0A]) ls)) = ls @ [[]]"
  by (induction ls) (simp_all add: split_lines_line)

subsection \<open>The configuration\<close>

record NetworkConfig =
  nc_DelayEnabled :: bool
  nc_MinDelayMs :: int
  nc_MaxDelayMs :: int

record Config =
  cf_ShardNum :: int
  cf_StorageDir :: string
  cf_TestAccountNum :: int
  cf_Network :: NetworkConfig

type_synonym config_reader = "string \<Rightarrow> string + (string + Config)"

definition Load :: "config_reader \<Rightarrow> string \<Rightarrow> string + Config" where
  "Load read configPath =
     (case read configPath of
        Inl err \<Rightarrow> Inl (''failed to read config file: '' @ err)
      | Inr (Inl err) \<Rightarrow> Inl (''failed to parse config file: '' @ err)
      | Inr (Inr cfg) \<Rightarrow> Inr cfg)"

definition config_paths :: "string list" where
  "config_paths = [''/config/config.json'', ''config/config.json'', ''../config/config.json'']"

fun load_first :: "config_reader \<Rightarrow> string list \<Rightarrow> string + Config" where
  "load_first read [] = Inl ''config.json not found in any expected location''"
| "load_first read (path # paths) = (case Load read path of Inr cfg \<Rightarrow> Inr cfg | Inl err \<Rightarrow> load_first read paths)"

definition LoadDefault :: "config_reader \<Rightarrow> string + Config" where
  "LoadDefault read = load_first read config_paths"

text \<open>The first path that holds a configuration decides; a broken file is passed over like a missing one.\<close>

lemma LoadDefault_first: "read ''/config/config.json'' = Inr (Inr cfg) \<Longrightarrow> LoadDefault read = Inr cfg"
  by (simp add: LoadDefault_def config_paths_def Load_def)

end
