(* ===== verification/EVM_State.thy ===== *)
theory EVM_State
  imports Tracking_StateDB Slot_Locks Configuration
begin

text \<open>
  The state of a shard as the chain uses it (\<open>internal/shard/evm.go\<close>): a wrapper around geth's
  state database with balance and storage operations, the execution of queued transactions, and
  simulations that run the EVM on a tracking wrapper and revert.

  go-ethereum enters through the parameter \<open>G\<close> (theory \<open>VM_Interface\<close>). Operations return the
  changed state; \<open>None\<close> is a panic of \<open>uint256.MustFromBig\<close>. The lemmas give the effect of every
  operation on balances and storage, show that executing a transaction keeps earlier snapshots, and
  that simulations leave balances and storage as they were. Merkle proofs are in theory \<open>EVM_Proof\<close>.
\<close>

record 's EVMState =
  es_stateDB :: 's
  es_blockNum :: u64
  es_timestamp :: u64

datatype exec_error =
    ErrInsufficientFunds
  | ErrContractCall u64 string
  | ErrUnknownTxType TxType

definition NewMemoryEVMState :: "(string + 's) \<Rightarrow> string + 's EVMState" where
  "NewMemoryEVMState fresh = (case fresh of
     Inl err \<Rightarrow> Inl err
   | Inr stateDB \<Rightarrow> Inr \<lparr>es_stateDB = stateDB, es_blockNum = 1, es_timestamp = 1700000000\<rparr>)"

text \<open>
  The state of a shard from the database on its disk. \<open>read\<close> reads the configuration, \<open>rootFile dir name\<close> a
  text file of a directory and \<open>open_db dir name\<close> a database there; the texts of their errors are those of the
  libraries. The error for a malformed root is given without the quoted text.
\<close>

definition valid_root :: "string \<Rightarrow> bool" where
  "valid_root rootStr \<longleftrightarrow> length rootStr = 66 \<and> (take 2 rootStr = ''0x'' \<or> take 2 rootStr = ''0X'')"

definition NewEVMState :: "'s geth \<Rightarrow> (string \<Rightarrow> hash) \<Rightarrow> config_reader \<Rightarrow> (string \<Rightarrow> string \<Rightarrow> string + string)
    \<Rightarrow> (string \<Rightarrow> string \<Rightarrow> string + 's) \<Rightarrow> int \<Rightarrow> string + 's EVMState" where
  "NewEVMState G HexToHash read rootFile open_db shardID =
     (case LoadDefault read of
        Inl err \<Rightarrow> Inl err
      | Inr cfg \<Rightarrow>
     (case rootFile (cf_StorageDir cfg) (''shard'' @ show_int shardID @ ''_root.txt'') of
        Inl err \<Rightarrow> Inl err
      | Inr shardStateRoot \<Rightarrow>
          let rootStr = TrimSpace shardStateRoot in
          if \<not> valid_root rootStr then Inl ''invalid state root format''
          else (case open_db (cf_StorageDir cfg) (show_int shardID) of
                  Inl err \<Rightarrow> Inl err
                | Inr sdb \<Rightarrow>
               (case g_New G (HexToHash rootStr) sdb of
                  Inl err \<Rightarrow> Inl err
                | Inr stateDB \<Rightarrow> Inr \<lparr>es_stateDB = stateDB, es_blockNum = 1, es_timestamp = 1700000000\<rparr>))))"

text \<open>A method call on \<open>e.stateDB\<close>.\<close>

definition es_db :: "'s geth \<Rightarrow> vmcall \<Rightarrow> 's EVMState \<Rightarrow> vmres \<times> 's EVMState" where
  "es_db G c e = (case g_db G c (es_stateDB e) of (r, s) \<Rightarrow> (r, e\<lparr>es_stateDB := s\<rparr>))"

definition ES_Commit :: "'s geth \<Rightarrow> u64 \<Rightarrow> 's EVMState \<Rightarrow> (string + hash) \<times> 's EVMState" where
  "ES_Commit G blockNum e =
     (case g_Commit G blockNum (es_stateDB e) of
        (Inl err, s1) \<Rightarrow> (Inl err, e\<lparr>es_stateDB := s1\<rparr>)
      | (Inr newStateRoot, s1) \<Rightarrow>
          (case g_New G newStateRoot s1 of
             Inl err \<Rightarrow> (Inl err, e\<lparr>es_stateDB := s1\<rparr>)
           | Inr s2 \<Rightarrow> (Inr newStateRoot, e\<lparr>es_stateDB := s2\<rparr>)))"

definition ES_GetBalance :: "'s geth \<Rightarrow> address \<Rightarrow> 's EVMState \<Rightarrow> int \<times> 's EVMState" where
  "ES_GetBalance G addr e = (case es_db G (GetBalance addr) e of (r, e1) \<Rightarrow> (uint (as_u256 r), e1))"

definition ES_GetNonce :: "'s geth \<Rightarrow> address \<Rightarrow> 's EVMState \<Rightarrow> u64 \<times> 's EVMState" where
  "ES_GetNonce G addr e = (case es_db G (GetNonce addr) e of (r, e1) \<Rightarrow> (as_u64 r, e1))"

definition ES_GetCode :: "'s geth \<Rightarrow> address \<Rightarrow> 's EVMState \<Rightarrow> byte list \<times> 's EVMState" where
  "ES_GetCode G addr e = (case es_db G (GetCode addr) e of (r, e1) \<Rightarrow> (as_bytes r, e1))"

definition ES_SetCode :: "'s geth \<Rightarrow> address \<Rightarrow> byte list \<Rightarrow> 's EVMState \<Rightarrow> 's EVMState" where
  "ES_SetCode G addr code e = snd (es_db G (SetCode addr code) e)"

definition ES_GetCodeHash :: "'s geth \<Rightarrow> address \<Rightarrow> 's EVMState \<Rightarrow> hash \<times> 's EVMState" where
  "ES_GetCodeHash G addr e = (case es_db G (GetCodeHash addr) e of (r, e1) \<Rightarrow> (as_hash r, e1))"

record AccountState =
  as_Balance :: int
  as_Nonce :: u64
  as_Code :: "byte list"
  as_CodeHash :: hash

definition ES_GetAccountState :: "'s geth \<Rightarrow> address \<Rightarrow> 's EVMState \<Rightarrow> AccountState \<times> 's EVMState" where
  "ES_GetAccountState G addr e0 =
     (let (balance, e1) = ES_GetBalance G addr e0;
          (nonce, e2) = ES_GetNonce G addr e1;
          (code, e3) = ES_GetCode G addr e2;
          (codeHash, e4) = ES_GetCodeHash G addr e3
      in (\<lparr>as_Balance = balance, as_Nonce = nonce, as_Code = code, as_CodeHash = codeHash\<rparr>, e4))"

definition newEVM :: "'s EVMState \<Rightarrow> address \<Rightarrow> evm_ctx" where
  "newEVM e caller = \<lparr>cx_Origin = caller, cx_BlockNumber = es_blockNum e, cx_Time = es_timestamp e,
     cx_GasLimit = 30000000\<rparr>"

text \<open>Running the EVM on \<open>e.stateDB\<close> itself.\<close>

definition es_run :: "'s geth \<Rightarrow> evm_prog \<Rightarrow> 's EVMState \<Rightarrow> evm_result \<times> 's EVMState" where
  "es_run G p e = (case run_evm p (g_db G) (es_stateDB e) of (res, s) \<Rightarrow> (res, e\<lparr>es_stateDB := s\<rparr>))"

record deploy_result =
  dr_addr :: address
  dr_ret :: "byte list"
  dr_gasUsed :: u64
  dr_logs :: "byte list list"
  dr_writes :: "(hash, hash) gomap"
  dr_err :: "string option"

definition DeployContract :: "'s geth \<Rightarrow> address \<Rightarrow> byte list \<Rightarrow> int \<Rightarrow> u64 \<Rightarrow> 's EVMState
    \<Rightarrow> (deploy_result \<times> 's EVMState) option" where
  "DeployContract G deployer bytecode value gas e =
     (case g_MustFromBig G value of
        None \<Rightarrow> None
      | Some v \<Rightarrow>
          let (res, e1) = es_run G (g_Create G (newEVM e deployer) deployer bytecode gas v) e in
          Some (case er_err res of
              Some err \<Rightarrow> (\<lparr>dr_addr = 0, dr_ret = [], dr_gasUsed = gas - er_gasLeft res, dr_logs = [],
                dr_writes = [], dr_err = Some err\<rparr>, e1)
            | None \<Rightarrow> (\<lparr>dr_addr = er_addr res, dr_ret = er_ret res, dr_gasUsed = gas - er_gasLeft res,
                dr_logs = g_Logs G (es_stateDB e1), dr_writes = [], dr_err = None\<rparr>, e1)))"

definition DeployContractTracked :: "'s geth \<Rightarrow> address \<Rightarrow> byte list \<Rightarrow> int \<Rightarrow> u64 \<Rightarrow> int \<Rightarrow> 's EVMState
    \<Rightarrow> (deploy_result \<times> 's EVMState) option" where
  "DeployContractTracked G deployer bytecode value gas numShards e =
     (case g_MustFromBig G value of
        None \<Rightarrow> None
      | Some v \<Rightarrow>
          let (res, t) = run_evm (g_Create G (newEVM e deployer) deployer bytecode gas v)
                (tracking_call (g_db G)) (NewTrackingStateDB (es_stateDB e) 0 numShards);
              e1 = e\<lparr>es_stateDB := td_inner t\<rparr>
          in Some (case er_err res of
              Some err \<Rightarrow> (\<lparr>dr_addr = 0, dr_ret = [], dr_gasUsed = gas - er_gasLeft res, dr_logs = [],
                dr_writes = [], dr_err = Some err\<rparr>, e1)
            | None \<Rightarrow> (\<lparr>dr_addr = er_addr res, dr_ret = er_ret res, dr_gasUsed = gas - er_gasLeft res,
                dr_logs = g_Logs G (td_inner t), dr_writes = GetStorageWritesForAddress t (er_addr res),
                dr_err = None\<rparr>, e1)))"

definition CallContract :: "'s geth \<Rightarrow> address \<Rightarrow> address \<Rightarrow> byte list \<Rightarrow> int \<Rightarrow> u64 \<Rightarrow> 's EVMState
    \<Rightarrow> ((byte list \<times> u64 \<times> byte list list \<times> string option) \<times> 's EVMState) option" where
  "CallContract G caller contract input value gas e =
     (case g_MustFromBig G value of
        None \<Rightarrow> None
      | Some v \<Rightarrow>
          let (res, e1) = es_run G (g_Call G (newEVM e caller) caller contract input gas v) e
          in Some ((er_ret res, gas - er_gasLeft res, g_Logs G (es_stateDB e1), er_err res), e1))"

definition ES_StaticCall :: "'s geth \<Rightarrow> address \<Rightarrow> address \<Rightarrow> byte list \<Rightarrow> u64 \<Rightarrow> 's EVMState
    \<Rightarrow> (byte list \<times> u64 \<times> string option) \<times> 's EVMState" where
  "ES_StaticCall G caller contract input gas e =
     (let (res, e1) = es_run G (g_StaticCall G (newEVM e caller) caller contract input gas) e
      in ((er_ret res, gas - er_gasLeft res, er_err res), e1))"

definition GetStateRoot :: "'s geth \<Rightarrow> 's EVMState \<Rightarrow> hash \<times> 's EVMState" where
  "GetStateRoot G e = (case g_IntermediateRoot G (es_stateDB e) of (root, s) \<Rightarrow> (root, e\<lparr>es_stateDB := s\<rparr>))"

definition GetStorageAt :: "'s geth \<Rightarrow> address \<Rightarrow> hash \<Rightarrow> 's EVMState \<Rightarrow> hash \<times> 's EVMState" where
  "GetStorageAt G addr slot e = (case es_db G (GetState addr slot) e of (r, e1) \<Rightarrow> (as_hash r, e1))"

definition SetStorageAt :: "'s geth \<Rightarrow> address \<Rightarrow> hash \<Rightarrow> hash \<Rightarrow> 's EVMState \<Rightarrow> 's EVMState" where
  "SetStorageAt G addr slot value e = snd (es_db G (SetState addr slot value) e)"

definition Credit :: "'s geth \<Rightarrow> address \<Rightarrow> int \<Rightarrow> 's EVMState \<Rightarrow> 's EVMState option" where
  "Credit G addr amount e =
     (case g_MustFromBig G amount of
        None \<Rightarrow> None
      | Some v \<Rightarrow> Some (snd (es_db G (AddBalance addr v) e)))"

definition ES_Snapshot :: "'s geth \<Rightarrow> 's EVMState \<Rightarrow> int \<times> 's EVMState" where
  "ES_Snapshot G e = (case es_db G Snapshot e of (r, e1) \<Rightarrow> (as_int r, e1))"

definition ES_RevertToSnapshot :: "'s geth \<Rightarrow> int \<Rightarrow> 's EVMState \<Rightarrow> 's EVMState" where
  "ES_RevertToSnapshot G n e = snd (es_db G (RevertToSnapshot n) e)"

definition CanDebit :: "'s geth \<Rightarrow> address \<Rightarrow> int \<Rightarrow> int \<Rightarrow> 's EVMState \<Rightarrow> bool \<times> 's EVMState" where
  "CanDebit G addr amount lockedAmount e =
     (let (balance, e1) = ES_GetBalance G addr e in (amount \<le> balance - lockedAmount, e1))"

definition Debit :: "'s geth \<Rightarrow> address \<Rightarrow> int \<Rightarrow> 's EVMState \<Rightarrow> (exec_error option \<times> 's EVMState) option" where
  "Debit G addr amount e =
     (case es_db G (GetBalance addr) e of (r, e1) \<Rightarrow>
      (case g_MustFromBig G amount of
         None \<Rightarrow> None
       | Some v \<Rightarrow> if as_u256 r < v then Some (Some ErrInsufficientFunds, e1)
                   else Some (None, snd (es_db G (SubBalance addr v) e1))))"

text \<open>The nested loops of \<open>applyWriteSet\<close> over the addresses and their writes.\<close>

definition write_items :: "RwVariable list \<Rightarrow> (address \<times> WriteSetItem) list" where
  "write_items rwSet = concat (map (\<lambda>rw. map (\<lambda>write. (rw_Address rw, write)) (rw_WriteSet rw)) rwSet)"

definition applyWriteSet :: "'s geth \<Rightarrow> RwVariable list \<Rightarrow> 's EVMState \<Rightarrow> 's EVMState" where
  "applyWriteSet G rwSet e =
     fold (\<lambda>(addr, write) e. SetStorageAt G addr (ws_Slot write) (g_BytesToHash G (ws_NewValue write)) e)
       (write_items rwSet) e"

definition executeLocalTx :: "'s geth \<Rightarrow> Transaction \<Rightarrow> 's EVMState \<Rightarrow> (exec_error option \<times> 's EVMState) option" where
  "executeLocalTx G tx e =
     (let value = ToBigInt (tx_Value tx);
          gas = (if tx_Gas tx = 0 then 3000000 else tx_Gas tx);
          evm = newEVM e (tx_From tx)
      in case g_MustFromBig G value of
           None \<Rightarrow> None
         | Some v \<Rightarrow>
             if 0 < length (tx_Data tx)
             then let (res, e1) = es_run G (g_Call G evm (tx_From tx) (tx_To tx) (tx_Data tx) gas v) e
                  in Some (map_option (ErrContractCall (gas - er_gasLeft res)) (er_err res), e1)
             else let (can, s1) = can_transfer (g_db G) (tx_From tx) v (es_stateDB e)
                  in if \<not> can then Some (Some ErrInsufficientFunds, e\<lparr>es_stateDB := s1\<rparr>)
                     else Some (None, e\<lparr>es_stateDB := transfer (g_db G) (tx_From tx) (tx_To tx) v s1\<rparr>))"

definition ExecuteTx :: "'s geth \<Rightarrow> Transaction \<Rightarrow> 's EVMState \<Rightarrow> (exec_error option \<times> 's EVMState) option" where
  "ExecuteTx G tx e =
     (case tx_TxType tx of
        TxTypeLocal \<Rightarrow> executeLocalTx G tx e
      | TxTypeCrossDebit \<Rightarrow> Debit G (tx_From tx) (ToBigInt (tx_Value tx)) e
      | TxTypeCrossCredit \<Rightarrow> map_option (\<lambda>e1. (None, e1)) (Credit G (tx_To tx) (ToBigInt (tx_Value tx)) e)
      | TxTypeCrossWriteSet \<Rightarrow> Some (None, applyWriteSet G (tx_RwSet tx) e)
      | TxTypeCrossAbort \<Rightarrow> Some (None, e)
      | TxTypeLock \<Rightarrow> Some (None, e)
      | TxTypeUnlock \<Rightarrow> Some (None, e)
      | TxTypeFinalize \<Rightarrow> Some (None, applyWriteSet G (tx_RwSet tx) e)
      | TxTypeSimError \<Rightarrow> Some (None, e)
      | _ \<Rightarrow> Some (Some (ErrUnknownTxType (tx_TxType tx)), e))"

definition SimulateCall :: "'s geth \<Rightarrow> address \<Rightarrow> address \<Rightarrow> byte list \<Rightarrow> int \<Rightarrow> u64 \<Rightarrow> int \<Rightarrow> int \<Rightarrow> 's EVMState
    \<Rightarrow> ((byte list \<times> address list \<times> bool \<times> string option) \<times> 's EVMState) option" where
  "SimulateCall G caller contract input value gas localShardID numShards e0 =
     (let (snap, e) = ES_Snapshot G e0;
          t0 = NewTrackingStateDB (es_stateDB e) localShardID numShards
      in case g_MustFromBig G value of
           None \<Rightarrow> None
         | Some v \<Rightarrow>
             let (res, t) = run_evm (g_Call G (newEVM e caller) caller contract input gas v) (tracking_call (g_db G)) t0;
                 e2 = ES_RevertToSnapshot G snap (e\<lparr>es_stateDB := td_inner t\<rparr>)
             in map_option (\<lambda>hasCrossShard. ((er_ret res, GetAccessedAddresses t, hasCrossShard, er_err res), e2))
                  (HasCrossShardAccess t))"

definition SimulateCallForRwSet :: "'s geth \<Rightarrow> address \<Rightarrow> address \<Rightarrow> byte list \<Rightarrow> int \<Rightarrow> u64 \<Rightarrow> Reference \<Rightarrow> int \<Rightarrow> 's EVMState
    \<Rightarrow> ((string + RwVariable list) \<times> u64 \<times> 's EVMState) option" where
  "SimulateCallForRwSet G caller contract input value gas refBlock numShards e0 =
     (let (snap, e) = ES_Snapshot G e0;
          t0 = NewTrackingStateDB (es_stateDB e) (ShardNum refBlock) numShards;
          cx = (newEVM e caller)\<lparr>cx_BlockNumber := BlockHeight refBlock\<rparr>
      in case g_MustFromBig G value of
           None \<Rightarrow> None
         | Some v \<Rightarrow>
             let (res, t) = run_evm (g_Call G cx caller contract input gas v) (tracking_call (g_db G)) t0;
                 gasUsed = gas - er_gasLeft res;
                 e2 = ES_RevertToSnapshot G snap (e\<lparr>es_stateDB := td_inner t\<rparr>)
             in Some (case er_err res of
                  Some err \<Rightarrow> Inl err
                | None \<Rightarrow> Inr (tracking_BuildRwSet (g_HashBytes G) t refBlock), gasUsed, e2))"

subsection \<open>Effects\<close>

definition write_ledger :: "(byte list \<Rightarrow> hash) \<Rightarrow> (address \<times> WriteSetItem) list \<Rightarrow> ledger \<Rightarrow> ledger" where
  "write_ledger b items w =
     fold (\<lambda>(a, i) w. w\<lparr>sto := (sto w)(a := (sto w a)(ws_Slot i := b (ws_NewValue i)))\<rparr>) items w"

sublocale geth_state \<subseteq> td: tracked_db "g_db G" ok view saved ..

context geth_state
begin

definition same :: "'s EVMState \<Rightarrow> 's EVMState \<Rightarrow> bool" where
  "same e e1 \<longleftrightarrow> ok (es_stateDB e1) \<and> view (es_stateDB e1) = view (es_stateDB e)
     \<and> saved (es_stateDB e1) = saved (es_stateDB e)"

lemma sameD:
  assumes "same e e1"
  shows "ok (es_stateDB e1)" "view (es_stateDB e1) = view (es_stateDB e)" "saved (es_stateDB e1) = saved (es_stateDB e)"
  using assms by (simp_all add: same_def)

lemma same_refl: "ok (es_stateDB e) \<Longrightarrow> same e e"
  by (simp add: same_def)

lemma same_trans: "same e e1 \<Longrightarrow> same e1 e2 \<Longrightarrow> same e e2"
  by (simp add: same_def)

lemma es_db_inner: "es_stateDB (snd (es_db G c e)) = snd (g_db G c (es_stateDB e))" "fst (es_db G c e) = fst (g_db G c (es_stateDB e))"
  by (simp_all add: es_db_def split: prod.splits)

lemma es_db_read:
  assumes "ok (es_stateDB e)" and "reads_only c" and "c \<noteq> Snapshot"
  shows "same e (snd (es_db G c e))"
proof -
  have "\<not> is_snapshot_call c" and "\<And>n. c \<noteq> RevertToSnapshot n"
    using assms(2,3) by (auto simp: reads_only_def is_snapshot_call_def split: vmcall.splits)
  then show ?thesis
    using assms ok_call [of "es_stateDB e" c] read_call [of "es_stateDB e" c] saved_call [of "es_stateDB e" c]
    by (simp add: same_def es_db_inner)
qed

lemma GetBalance_law:
  assumes "ok (es_stateDB e)"
  shows "fst (ES_GetBalance G a e) = uint (bal (view (es_stateDB e)) a)" "same e (snd (ES_GetBalance G a e))"
  using es_db_read [OF assms, of "GetBalance a"] get_balance [OF assms, of a]
  by (auto simp: ES_GetBalance_def reads_only_def es_db_inner(2) [symmetric] split: prod.splits)

lemma CanDebit_law:
  assumes "ok (es_stateDB e)"
  shows "fst (CanDebit G a v l e) = (v \<le> uint (bal (view (es_stateDB e)) a) - l)" "same e (snd (CanDebit G a v l e))"
  using GetBalance_law [OF assms, of a] by (auto simp: CanDebit_def split: prod.splits)

lemma GetStorageAt_law:
  assumes "ok (es_stateDB e)"
  shows "fst (GetStorageAt G a k e) = sto (view (es_stateDB e)) a k" "same e (snd (GetStorageAt G a k e))"
  using es_db_read [OF assms, of "GetState a k"] get_state [OF assms, of a k]
  by (auto simp: GetStorageAt_def reads_only_def es_db_inner(2) [symmetric] split: prod.splits)

lemma GetStorageAt_reads: "reads_as (GetStorageAt G) (same e) (sto (view (es_stateDB e)))"
  unfolding reads_as_def using GetStorageAt_law same_trans sameD by metis

text \<open>Calls that change the ledger keep the snapshots.\<close>

lemma es_db_write:
  assumes "ok (es_stateDB e)" and "\<not> is_snapshot_call c"
  shows "ok (es_stateDB (snd (es_db G c e)))" "saved (es_stateDB (snd (es_db G c e))) = saved (es_stateDB e)"
proof -
  have "c \<noteq> RevertToSnapshot n" for n
    using assms(2) by (auto simp: is_snapshot_call_def)
  then show "ok (es_stateDB (snd (es_db G c e)))" "saved (es_stateDB (snd (es_db G c e))) = saved (es_stateDB e)"
    using ok_call [OF assms(1), of c] saved_call [OF assms] by (simp_all add: es_db_inner)
qed

lemma Credit_law:
  assumes "ok (es_stateDB e)" and "0 \<le> v" and "v < 2 ^ 256"
  obtains e1 where "Credit G a v e = Some e1" and "ok (es_stateDB e1)" and "saved (es_stateDB e1) = saved (es_stateDB e)"
    and "view (es_stateDB e1) = (view (es_stateDB e))\<lparr>bal := (bal (view (es_stateDB e)))(a := bal (view (es_stateDB e)) a + word_of_int v)\<rparr>"
  using that es_db_write [OF assms(1), of "AddBalance a (word_of_int v)"] add_balance [OF assms(1), of a "word_of_int v"]
  by (simp add: Credit_def from_big [OF assms(2,3)] is_snapshot_call_def es_db_inner)

lemma Debit_law:
  assumes "ok (es_stateDB e)" and "0 \<le> v" and "v < 2 ^ 256"
  shows "if uint (bal (view (es_stateDB e)) a) < v
    then \<exists>e1. Debit G a v e = Some (Some ErrInsufficientFunds, e1) \<and> same e e1
    else \<exists>e1. Debit G a v e = Some (None, e1) \<and> ok (es_stateDB e1) \<and> saved (es_stateDB e1) = saved (es_stateDB e)
      \<and> view (es_stateDB e1) = (view (es_stateDB e))\<lparr>bal := (bal (view (es_stateDB e)))(a := bal (view (es_stateDB e)) a - word_of_int v)\<rparr>"
proof -
  obtain r e1 where b: "es_db G (GetBalance a) e = (r, e1)"
    by fastforce
  have e1: "same e e1" "r = RU256 (bal (view (es_stateDB e)) a)"
    using es_db_read [OF assms(1), of "GetBalance a"] get_balance [OF assms(1), of a] b es_db_inner(2) [of "GetBalance a" e]
    by (simp_all add: reads_only_def)
  have "(bal (view (es_stateDB e)) a < word_of_int v) = (uint (bal (view (es_stateDB e)) a) < v)"
    using assms(2,3) by (simp add: word_less_def uint_word_of_int take_bit_int_eq_self)
  then show ?thesis
    using e1 es_db_write [OF sameD(1) [OF e1(1)], of "SubBalance a (word_of_int v)"]
      sub_balance [OF sameD(1) [OF e1(1)], of a "word_of_int v"]
    by (simp add: Debit_def b from_big [OF assms(2,3)] is_snapshot_call_def es_db_inner sameD [OF e1(1)])
qed

lemma SetStorageAt_law:
  assumes "ok (es_stateDB e)"
  shows "ok (es_stateDB (SetStorageAt G a k h e))" "saved (es_stateDB (SetStorageAt G a k h e)) = saved (es_stateDB e)"
    "view (es_stateDB (SetStorageAt G a k h e)) = (view (es_stateDB e))\<lparr>sto := (sto (view (es_stateDB e)))(a := (sto (view (es_stateDB e)) a)(k := h))\<rparr>"
  using es_db_write [OF assms, of "SetState a k h"] set_state [OF assms, of a k h]
  by (simp_all add: SetStorageAt_def is_snapshot_call_def es_db_inner)

lemma applyWriteSet_law:
  assumes "ok (es_stateDB e)"
  shows "ok (es_stateDB (applyWriteSet G rw e)) \<and> saved (es_stateDB (applyWriteSet G rw e)) = saved (es_stateDB e)
    \<and> view (es_stateDB (applyWriteSet G rw e)) = write_ledger (g_BytesToHash G) (write_items rw) (view (es_stateDB e))"
proof -
  let ?f = "\<lambda>(addr, write). SetStorageAt G addr (ws_Slot write) (g_BytesToHash G (ws_NewValue write))"
  have "ok (es_stateDB (fold ?f items e)) \<and> saved (es_stateDB (fold ?f items e)) = saved (es_stateDB e)
    \<and> view (es_stateDB (fold ?f items e)) = write_ledger (g_BytesToHash G) items (view (es_stateDB e))"
    if "ok (es_stateDB e)" for items e
    using that by (induction items arbitrary: e) (auto simp: SetStorageAt_law write_ledger_def)
  then show ?thesis
    using assms by (simp add: applyWriteSet_def)
qed

lemma Snapshot_law:
  assumes "ok (es_stateDB e)" and "ES_Snapshot G e = (n, e1)"
  shows "ok (es_stateDB e1)" "view (es_stateDB e1) = view (es_stateDB e)"
    "saved (es_stateDB e1) = (saved (es_stateDB e))(n \<mapsto> view (es_stateDB e))"
    "\<forall>m \<in> dom (saved (es_stateDB e)). m < n"
proof -
  have "n = as_int (fst (g_db G Snapshot (es_stateDB e)))" "es_stateDB e1 = snd (g_db G Snapshot (es_stateDB e))"
    using assms(2) by (auto simp: ES_Snapshot_def es_db_def split: prod.splits)
  then show "ok (es_stateDB e1)" "view (es_stateDB e1) = view (es_stateDB e)"
    "saved (es_stateDB e1) = (saved (es_stateDB e))(n \<mapsto> view (es_stateDB e))"
    "\<forall>m \<in> dom (saved (es_stateDB e)). m < n"
    using ok_call [OF assms(1), of Snapshot] read_call [OF assms(1), of Snapshot] snapshot [OF assms(1)]
    by (simp_all add: reads_only_def)
qed

lemma Revert_law:
  assumes "ok (es_stateDB e)" and "saved (es_stateDB e) n = Some w"
  shows "ok (es_stateDB (ES_RevertToSnapshot G n e))" "view (es_stateDB (ES_RevertToSnapshot G n e)) = w"
    "saved (es_stateDB (ES_RevertToSnapshot G n e)) = saved (es_stateDB e) |` {m. m < n}"
  using ok_call [OF assms(1), of "RevertToSnapshot n"] revert [OF assms] assms(2)
  by (simp_all add: ES_RevertToSnapshot_def es_db_inner)

definition keeps :: "int \<Rightarrow> 's EVMState \<Rightarrow> 's EVMState \<Rightarrow> bool" where
  "keeps n e e1 \<longleftrightarrow> ok (es_stateDB e1) \<and> (\<forall>m \<le> n. saved (es_stateDB e1) m = saved (es_stateDB e) m)"

lemma es_run_keeps:
  assumes "ok (es_stateDB e)" and "n \<in> dom (saved (es_stateDB e))" and "bracketed p {}" and "es_run G p e = (res, e1)"
  shows "keeps n e e1"
proof -
  obtain s where "run_evm p (g_db G) (es_stateDB e) = (res, s)" "e1 = e\<lparr>es_stateDB := s\<rparr>"
    using assms(4) by (auto simp: es_run_def split: prod.splits)
  with run_keeps_snapshots [OF assms(1,2), of "{}"] assms(3) show ?thesis
    by (auto simp: keeps_def)
qed

text \<open>Executing a transaction keeps the snapshots taken before.\<close>

lemma executeLocalTx_keeps:
  assumes "ok (es_stateDB e)" and "n \<in> dom (saved (es_stateDB e))" and "executeLocalTx G tx e = Some (r, e1)"
  shows "keeps n e e1"
proof -
  obtain v where v: "g_MustFromBig G (ToBigInt (tx_Value tx)) = Some v"
    using assms(3) by (auto simp: executeLocalTx_def Let_def split: option.splits)
  let ?s = "can_transfer (g_db G) (tx_From tx) v (es_stateDB e)"
  have can: "ok (snd ?s)" "saved (snd ?s) = saved (es_stateDB e)"
    using can_transfer_law [OF assms(1), of "tx_From tx" v] by (cases ?s; simp)+
  show ?thesis
  proof (cases "tx_Data tx = []")
    case True
    with assms(3) v can transfer_law [OF can(1)] show ?thesis
      by (auto simp: executeLocalTx_def keeps_def split: prod.splits if_splits)
  next
    case False
    with assms(3) v es_run_keeps [OF assms(1,2) call_bracketed] show ?thesis
      by (auto simp: executeLocalTx_def Let_def split: prod.splits)
  qed
qed

lemma Debit_keeps:
  assumes "ok (es_stateDB e)" and "Debit G a v e = Some (r, e1)"
  shows "keeps n e e1"
proof -
  obtain b e2 where b: "es_db G (GetBalance a) e = (b, e2)"
    by fastforce
  have "same e e2"
    using es_db_read [OF assms(1), of "GetBalance a"] b by (simp add: reads_only_def)
  then show ?thesis
    using assms(2) b sameD es_db_write [of e2 "SubBalance a w" for w]
    by (auto simp: Debit_def keeps_def is_snapshot_call_def split: option.splits if_splits)
qed

lemma ExecuteTx_keeps:
  assumes "ok (es_stateDB e)" and "n \<in> dom (saved (es_stateDB e))" and "ExecuteTx G tx e = Some (r, e1)"
  shows "keeps n e e1"
proof -
  have credit: "keeps n e e1" if "Credit G a v e = Some e1" for a v
    using that es_db_write [OF assms(1), of "AddBalance a w" for w]
    by (auto simp: Credit_def keeps_def is_snapshot_call_def split: option.splits)
  show ?thesis
    using assms(3) credit executeLocalTx_keeps [OF assms(1,2)] Debit_keeps [OF assms(1)] applyWriteSet_law [OF assms(1)] assms(1)
    by (auto simp: ExecuteTx_def keeps_def split: TxType.splits)
qed

text \<open>Going back to a snapshot undoes everything that keeps it.\<close>

lemma revert_same:
  assumes "ok (es_stateDB e0)" and "ES_Snapshot G e0 = (n, e)" and "keeps n e e1"
  shows "same e0 (ES_RevertToSnapshot G n e1)"
proof -
  note e = Snapshot_law [OF assms(1,2)]
  have e1: "ok (es_stateDB e1)" "saved (es_stateDB e1) m = saved (es_stateDB e) m" if "m \<le> n" for m
    using assms(3) that by (simp_all add: keeps_def)
  have none: "saved (es_stateDB e0) m = None" if "\<not> m < n" for m
    using e(4) that by (cases "saved (es_stateDB e0) m") auto
  have "(saved (es_stateDB e1) |` {m. m < n}) m = saved (es_stateDB e0) m" for m
    using e1(2) [of m] e(3) none [of m] by (cases "m < n") (simp_all add: restrict_map_def)
  then have "saved (es_stateDB e1) |` {m. m < n} = saved (es_stateDB e0)"
    by (rule ext)
  moreover have "saved (es_stateDB e1) n = Some (view (es_stateDB e0))"
    using e1(2) [of n] e(3) by simp
  ultimately show ?thesis
    using Revert_law [of e1 n "view (es_stateDB e0)"] e1(1) [of n] by (simp add: same_def)
qed

text \<open>A simulation between a snapshot and the return to it leaves no trace.\<close>

lemma simulation_pure:
  assumes "ok (es_stateDB e0)" and "ES_Snapshot G e0 = (n, e)" and "bracketed p {}"
    and "run_evm p (tracking_call (g_db G)) (NewTrackingStateDB (es_stateDB e) me num) = (res, t)"
  shows "same e0 (ES_RevertToSnapshot G n (e\<lparr>es_stateDB := td_inner t\<rparr>))"
proof (rule revert_same [OF assms(1,2)])
  note e = Snapshot_law [OF assms(1,2)]
  let ?t0 = "NewTrackingStateDB (es_stateDB e) me num"
  have t0: "td_inner ?t0 = es_stateDB e"
    by (simp add: NewTrackingStateDB_def)
  have "ok (td_inner t) \<and> (\<forall>m \<le> n. saved (td_inner t) m = saved (td_inner ?t0) m)"
    by (rule td.tr.run_keeps_snapshots [where S = "{}" and p = p and r = res]) (use e assms(3,4) in \<open>simp_all add: t0\<close>)
  then show "keeps n e (e\<lparr>es_stateDB := td_inner t\<rparr>)"
    by (simp add: keeps_def t0)
qed

lemma SimulateCall_pure:
  assumes "ok (es_stateDB e)" and "SimulateCall G caller contract input value gas me num e = Some (out, e')"
  shows "same e e'"
proof -
  obtain n e1 where "ES_Snapshot G e = (n, e1)"
    by fastforce
  with assms simulation_pure [OF assms(1) this call_bracketed] show ?thesis
    by (auto simp: SimulateCall_def Let_def split: option.splits prod.splits)
qed

lemma SimulateCallForRwSet_law:
  assumes "ok (es_stateDB e)" and "SimulateCallForRwSet G caller contract input value gas ref num e = Some (out, gasUsed, e')"
  shows "same e e'"
    and "out = Inr rwSet \<Longrightarrow> items_valid (sto (view (es_stateDB e))) (g_BytesToHash G) (read_items rwSet)"
proof -
  obtain n e1 where snap: "ES_Snapshot G e = (n, e1)"
    by fastforce
  note e1 = Snapshot_law [OF assms(1) snap]
  obtain v where v: "g_MustFromBig G value = Some v"
    using assms(2) snap by (auto simp: SimulateCallForRwSet_def split: option.splits)
  let ?p = "g_Call G ((newEVM e1 caller)\<lparr>cx_BlockNumber := BlockHeight ref\<rparr>) caller contract input gas v"
  obtain res t where run: "run_evm ?p (tracking_call (g_db G)) (NewTrackingStateDB (es_stateDB e1) (ShardNum ref) num) = (res, t)"
    by fastforce
  show "same e e'"
    using assms(2) snap v run simulation_pure [OF assms(1) snap call_bracketed run]
    by (auto simp: SimulateCallForRwSet_def Let_def)
  show "items_valid (sto (view (es_stateDB e))) (g_BytesToHash G) (read_items rwSet)" if "out = Inr rwSet"
  proof -
    have rw: "rwSet = tracking_BuildRwSet (g_HashBytes G) t ref"
      using assms(2) snap v run that by (auto simp: SimulateCallForRwSet_def Let_def split: option.splits)
    have "val = sto (view (es_stateDB e)) a k" if "(k, val) \<in> set (mgetd [] (td_storageReads t) a)" for a k val
      using td.run_reads_initial [OF e1(1) call_bracketed run that] e1(2) by simp
    then show ?thesis
      by (auto simp: rw items_valid_def read_items_def tracking_BuildRwSet_def bytes_hash)
  qed
qed

end

text \<open>A transfer without call data, on every branch.\<close>

context geth_state
begin

lemma executeLocalTx_transfer:
  assumes "ok (es_stateDB e)" and "tx_Data tx = []" and "0 \<le> ToBigInt (tx_Value tx)" and "ToBigInt (tx_Value tx) < 2 ^ 256"
  defines "w \<equiv> view (es_stateDB e)" and "v \<equiv> word_of_int (ToBigInt (tx_Value tx))"
  shows "if uint (bal w (tx_From tx)) < ToBigInt (tx_Value tx)
    then \<exists>e1. executeLocalTx G tx e = Some (Some ErrInsufficientFunds, e1) \<and> same e e1
    else \<exists>e1. executeLocalTx G tx e = Some (None, e1) \<and> ok (es_stateDB e1)
      \<and> view (es_stateDB e1) = w\<lparr>bal := (let m = (bal w)(tx_From tx := bal w (tx_From tx) - v) in m(tx_To tx := m (tx_To tx) + v))\<rparr>"
proof -
  obtain can s1 where c: "can_transfer (g_db G) (tx_From tx) v (es_stateDB e) = (can, s1)"
    by fastforce
  have s1: "can = (v \<le> bal w (tx_From tx))" "ok s1" "view s1 = w" "saved s1 = saved (es_stateDB e)"
    using can_transfer_law [OF assms(1) c] by (simp_all add: w_def)
  have "(v \<le> bal w (tx_From tx)) = (\<not> uint (bal w (tx_From tx)) < ToBigInt (tx_Value tx))"
    using assms(3,4) by (simp add: v_def word_le_def uint_word_of_int take_bit_int_eq_self not_less)
  moreover have "g_MustFromBig G (ToBigInt (tx_Value tx)) = Some v"
    unfolding v_def by (rule from_big [OF assms(3,4)])
  ultimately show ?thesis
    using assms(2) c s1 transfer_law [OF s1(2), of "tx_From tx" "tx_To tx" v]
    by (auto simp: executeLocalTx_def same_def w_def)
qed

end

subsection \<open>Properties\<close>

definition sample_mem :: "mem EVMState" where
  "sample_mem = \<lparr>es_stateDB = \<lparr>m_bal = [(1, 100)], m_sto = [((2, 0), 5)], m_snaps = []\<rparr>, es_blockNum = 1, es_timestamp = 0\<rparr>"

definition sample_ref :: Reference where
  "sample_ref = \<lparr>ShardNum = 2, BlockHash = 0, BlockHeight = 4\<rparr>"

definition sample_transfer :: Transaction where
  "sample_transfer = Transaction_zero\<lparr>tx_From := 1, tx_To := 2, tx_Value := Some (Some 7)\<rparr>"

text \<open>Simulating a call leaves the shard as it was: whatever the contract does, all balances and all
  storage slots are the same afterwards, and later snapshots are unaffected.\<close>

lemma simulation_leaves_state:
  assumes "geth_state G ok view saved" and "ok (es_stateDB e)"
    and "SimulateCall G caller contract input value gas me num e = Some (out, e')"
  shows "ok (es_stateDB e') \<and> view (es_stateDB e') = view (es_stateDB e) \<and> saved (es_stateDB e') = saved (es_stateDB e)"
  using geth_state.SimulateCall_pure [OF assms] by (simp add: geth_state.same_def [OF assms(1)])

text \<open>The read set a shard reports for a sub-call shows the storage of the shard: every item of the
  \<open>RwSet\<close> that \<open>SimulateCallForRwSet\<close> returns carries the value the slot holds before and after the
  simulation.\<close>

lemma rw_set_matches_storage:
  assumes "geth_state G ok view saved" and "ok (es_stateDB e)"
    and "SimulateCallForRwSet G caller contract input value gas ref num e = Some (Inr rwSet, gasUsed, e')"
  shows "view (es_stateDB e') = view (es_stateDB e)
    \<and> items_valid (sto (view (es_stateDB e'))) (g_BytesToHash G) (read_items rwSet)"
  using geth_state.SimulateCallForRwSet_law [OF assms] by (simp add: geth_state.same_def [OF assms(1)])

text \<open>A plain transfer moves exactly its value: with enough balance the sender loses and the receiver gains
  the value and nothing else changes; otherwise the transaction fails and nothing changes; a value of
  more than 256 bits panics.\<close>

lemma local_transfer_exact:
  assumes "geth_state G ok view saved" and "ok (es_stateDB e)" and "tx_Data tx = []" and "tx_From tx \<noteq> tx_To tx"
    and "0 \<le> ToBigInt (tx_Value tx)"
  shows "(2 ^ 256 \<le> ToBigInt (tx_Value tx) \<longrightarrow> executeLocalTx G tx e = None)
    \<and> (ToBigInt (tx_Value tx) < 2 ^ 256 \<longrightarrow>
      (\<exists>err e1. executeLocalTx G tx e = Some (err, e1)
        \<and> (err = None \<longleftrightarrow> ToBigInt (tx_Value tx) \<le> uint (bal (view (es_stateDB e)) (tx_From tx)))
        \<and> view (es_stateDB e1) = (if err = None
             then (view (es_stateDB e))\<lparr>bal := (bal (view (es_stateDB e)))
               (tx_From tx := bal (view (es_stateDB e)) (tx_From tx) - word_of_int (ToBigInt (tx_Value tx)),
                tx_To tx := bal (view (es_stateDB e)) (tx_To tx) + word_of_int (ToBigInt (tx_Value tx)))\<rparr>
             else view (es_stateDB e))))"
proof (intro conjI impI)
  assume "2 ^ 256 \<le> ToBigInt (tx_Value tx)"
  from geth_state.from_big_overflow [OF assms(1) this] show "executeLocalTx G tx e = None"
    by (simp add: executeLocalTx_def)
next
  assume "ToBigInt (tx_Value tx) < 2 ^ 256"
  from geth_state.executeLocalTx_transfer [OF assms(1-3,5) this] assms(4)
  show "\<exists>err e1. executeLocalTx G tx e = Some (err, e1)
        \<and> (err = None \<longleftrightarrow> ToBigInt (tx_Value tx) \<le> uint (bal (view (es_stateDB e)) (tx_From tx)))
        \<and> view (es_stateDB e1) = (if err = None
             then (view (es_stateDB e))\<lparr>bal := (bal (view (es_stateDB e)))
               (tx_From tx := bal (view (es_stateDB e)) (tx_From tx) - word_of_int (ToBigInt (tx_Value tx)),
                tx_To tx := bal (view (es_stateDB e)) (tx_To tx) + word_of_int (ToBigInt (tx_Value tx)))\<rparr>
             else view (es_stateDB e))"
    by (auto simp: geth_state.same_def [OF assms(1)] Let_def fun_upd_twist split: if_splits)
qed

end
