(* ===== verification/Fund_Locks.thy ===== *)
theory Fund_Locks
  imports Protocol_Types
begin

text \<open>
  Fund locks of a state shard (\<open>internal/shard/chain.go\<close>, fields \<open>locked\<close> and
  \<open>lockedByAddr\<close>; \<open>internal/shard/types.go\<close>): the funds reserved by each transaction, and per
  address the list of its reservations, from which the available balance is computed.

  The source removes a reservation in two ways: \<open>ClearLock\<close> moves the last entry of the list
  into the gap, \<open>clearLockLocked\<close> closes the gap. The contract of the ledger is the locale
  \<open>fund_ledger\<close>; it is interpreted with both. The contract asks that a transaction does not
  reserve twice; the last lemma shows what happens if it does.
\<close>

record LockedFunds =
  lf_Address :: address
  lf_Amount :: int

record lockedEntry =
  le_txID :: txid
  le_amount :: int

record FundLocks =
  fl_locked :: "(txid, LockedFunds) gomap"
  fl_lockedByAddr :: "(address, lockedEntry list) gomap"

definition FundLocks_empty :: FundLocks where
  "FundLocks_empty = \<lparr>fl_locked = [], fl_lockedByAddr = []\<rparr>"

definition lockFundsLocked :: "FundLocks \<Rightarrow> txid \<Rightarrow> address \<Rightarrow> int \<Rightarrow> FundLocks" where
  "lockFundsLocked l txID addr amount =
     \<lparr>fl_locked = mput txID \<lparr>lf_Address = addr, lf_Amount = amount\<rparr> (fl_locked l),
      fl_lockedByAddr = mput addr (mgetd [] (fl_lockedByAddr l) addr @
        [\<lparr>le_txID = txID, le_amount = amount\<rparr>]) (fl_lockedByAddr l)\<rparr>"

definition GetLockedFunds :: "FundLocks \<Rightarrow> txid \<Rightarrow> LockedFunds option" where
  "GetLockedFunds l txID = mget (fl_locked l) txID"

definition getLockedAmountForAddrLocked :: "FundLocks \<Rightarrow> address \<Rightarrow> int" where
  "getLockedAmountForAddrLocked l addr =
     fold (\<lambda>entry total. total + le_amount entry) (mgetd [] (fl_lockedByAddr l) addr) 0"

text \<open>A loop that stops at the first element satisfying a condition: its index.\<close>

fun first_index :: "('a \<Rightarrow> bool) \<Rightarrow> 'a list \<Rightarrow> nat option" where
  "first_index P [] = None"
| "first_index P (x # xs) = (if P x then Some 0 else map_option Suc (first_index P xs))"

definition drop_empty_addr :: "address \<Rightarrow> (address, lockedEntry list) gomap \<Rightarrow> (address, lockedEntry list) gomap" where
  "drop_empty_addr addr m = (if length (mgetd [] m addr) = 0 then mdel addr m else m)"

definition ClearLock :: "FundLocks \<Rightarrow> txid \<Rightarrow> FundLocks" where
  "ClearLock l txID =
     (case mget (fl_locked l) txID of
        None \<Rightarrow> l
      | Some lock \<Rightarrow>
          let entries = mgetd [] (fl_lockedByAddr l) (lf_Address lock);
              byAddr = (case first_index (\<lambda>e. le_txID e = txID) entries of
                  None \<Rightarrow> fl_lockedByAddr l
                | Some i \<Rightarrow> mput (lf_Address lock) (butlast (entries[i := last entries])) (fl_lockedByAddr l))
          in \<lparr>fl_locked = mdel txID (fl_locked l),
              fl_lockedByAddr = drop_empty_addr (lf_Address lock) byAddr\<rparr>)"

definition clearLockLocked :: "FundLocks \<Rightarrow> txid \<Rightarrow> FundLocks" where
  "clearLockLocked l txID =
     (case mget (fl_locked l) txID of
        None \<Rightarrow> l
      | Some lock \<Rightarrow>
          let entries = mgetd [] (fl_lockedByAddr l) (lf_Address lock);
              byAddr = (case first_index (\<lambda>e. le_txID e = txID) entries of
                  None \<Rightarrow> fl_lockedByAddr l
                | Some i \<Rightarrow> mput (lf_Address lock) (take i entries @ drop (i + 1) entries) (fl_lockedByAddr l))
          in \<lparr>fl_locked = mdel txID (fl_locked l),
              fl_lockedByAddr = drop_empty_addr (lf_Address lock) byAddr\<rparr>)"

subsection \<open>Removing one entry\<close>

lemma first_index_Some:
  "first_index P xs = Some i \<Longrightarrow> i < length xs \<and> P (xs ! i)"
  by (induction xs arbitrary: i) (auto split: if_splits)

lemma first_index_None: "first_index P xs = None \<longleftrightarrow> (\<forall>x \<in> set xs. \<not> P x)"
  by (induction xs) auto

lemma first_index_append:
  "\<forall>x \<in> set xs. \<not> P x \<Longrightarrow> P y \<Longrightarrow> first_index P (xs @ y # ys) = Some (length xs)"
  by (induction xs) simp_all

lemma mset_splice: "i < length xs \<Longrightarrow> add_mset (xs ! i) (mset (take i xs @ drop (i + 1) xs)) = mset xs"
  by (metis Suc_eq_plus1 id_take_nth_drop mset.simps(2) mset_append union_mset_add_mset_right)

lemma mset_swap_last:
  assumes "i < length xs"
  shows "add_mset (xs ! i) (mset (butlast (xs[i := last xs]))) = mset xs"
proof -
  obtain ys y where xs: "xs = ys @ [y]"
    using assms by (metis list.size(3) not_less_zero rev_exhaust)
  show ?thesis
  proof (cases "i = length ys")
    case True
    then show ?thesis by (simp add: xs)
  next
    case False
    then have "i < length ys"
      using assms by (simp add: xs)
    then show ?thesis
      by (simp add: xs list_update_append nth_append butlast_append mset_update)
  qed
qed

subsection \<open>The index agrees with the locks\<close>

definition lock_entry :: "txid \<times> LockedFunds \<Rightarrow> lockedEntry" where
  "lock_entry p = \<lparr>le_txID = fst p, le_amount = lf_Amount (snd p)\<rparr>"

definition entries_for :: "(txid, LockedFunds) gomap \<Rightarrow> address \<Rightarrow> lockedEntry multiset" where
  "entries_for m addr = image_mset lock_entry (filter_mset (\<lambda>p. lf_Address (snd p) = addr) (mset m))"

definition funds_wf :: "FundLocks \<Rightarrow> bool" where
  "funds_wf l \<longleftrightarrow> wfmap (fl_locked l) \<and> wfmap (fl_lockedByAddr l)
     \<and> (\<forall>addr. mset (mgetd [] (fl_lockedByAddr l) addr) = entries_for (fl_locked l) addr)"

lemma mset_mput_absent: "mget m k = None \<Longrightarrow> mset (mput k v m) = add_mset (k, v) (mset m)"
  by (induction m) (auto split: if_splits)

lemma mset_mdel_present: "wfmap m \<Longrightarrow> mget m k = Some v \<Longrightarrow> add_mset (k, v) (mset (mdel k m)) = mset m"
proof (induction m)
  case (Cons e m)
  then show ?case
    by (cases e) (force simp: wfmap_def)
qed simp

lemma entries_for_put:
  "mget m t = None \<Longrightarrow> entries_for (mput t f m) a =
     (if lf_Address f = a then add_mset (lock_entry (t, f)) (entries_for m a) else entries_for m a)"
  by (simp add: entries_for_def mset_mput_absent)

lemma entries_for_del:
  assumes "wfmap m" and "mget m t = Some f"
  shows "(if lf_Address f = a then add_mset (lock_entry (t, f)) (entries_for (mdel t m) a) else entries_for (mdel t m) a)
    = entries_for m a"
  by (simp add: entries_for_def mset_mdel_present [OF assms, symmetric])

lemma entries_for_txID: "e \<in># entries_for m a \<Longrightarrow> \<exists>f. (le_txID e, f) \<in> set m \<and> le_amount e = lf_Amount f"
  by (auto simp: entries_for_def lock_entry_def)

lemma locked_amount_sum: "getLockedAmountForAddrLocked l a = sum_mset (image_mset le_amount (mset (mgetd [] (fl_lockedByAddr l) a)))"
proof -
  have "fold (\<lambda>entry total. total + le_amount entry) es n = n + sum_mset (image_mset le_amount (mset es))" for es n
    by (induction es arbitrary: n) simp_all
  from this [of "mgetd [] (fl_lockedByAddr l) a" 0] show ?thesis
    unfolding getLockedAmountForAddrLocked_def by simp
qed

lemma mgetd_drop_empty_addr: "mgetd [] (drop_empty_addr addr m) a = mgetd [] m a"
  by (auto simp: drop_empty_addr_def gomap_simps)

lemma wfmap_drop_empty_addr: "wfmap m \<Longrightarrow> wfmap (drop_empty_addr addr m)"
  by (simp add: drop_empty_addr_def)

text \<open>Both ways of clearing a lock, with the removal of the entry at an index as a parameter.\<close>

definition clear_with :: "(nat \<Rightarrow> lockedEntry list \<Rightarrow> lockedEntry list) \<Rightarrow> FundLocks \<Rightarrow> txid \<Rightarrow> FundLocks" where
  "clear_with R l txID =
     (case mget (fl_locked l) txID of
        None \<Rightarrow> l
      | Some lock \<Rightarrow>
          let entries = mgetd [] (fl_lockedByAddr l) (lf_Address lock);
              byAddr = (case first_index (\<lambda>e. le_txID e = txID) entries of
                  None \<Rightarrow> fl_lockedByAddr l
                | Some i \<Rightarrow> mput (lf_Address lock) (R i entries) (fl_lockedByAddr l))
          in \<lparr>fl_locked = mdel txID (fl_locked l),
              fl_lockedByAddr = drop_empty_addr (lf_Address lock) byAddr\<rparr>)"

lemma ClearLock_with: "ClearLock = clear_with (\<lambda>i es. butlast (es[i := last es]))"
  by (intro ext) (simp add: ClearLock_def clear_with_def)

lemma clearLockLocked_with: "clearLockLocked = clear_with (\<lambda>i es. take i es @ drop (i + 1) es)"
  by (intro ext) (simp only: clearLockLocked_def clear_with_def)

lemma clear_with_locked: "fl_locked (clear_with R l t) = mdel t (fl_locked l)"
  by (auto simp: clear_with_def Let_def split: option.splits)

lemma clear_with_entry:
  assumes "funds_wf l" and "mget (fl_locked l) t = Some f"
  obtains i where "first_index (\<lambda>e. le_txID e = t) (mgetd [] (fl_lockedByAddr l) (lf_Address f)) = Some i"
    and "i < length (mgetd [] (fl_lockedByAddr l) (lf_Address f))"
    and "mgetd [] (fl_lockedByAddr l) (lf_Address f) ! i = lock_entry (t, f)"
proof -
  let ?es = "mgetd [] (fl_lockedByAddr l) (lf_Address f)"
  have wf: "wfmap (fl_locked l)" and es: "mset ?es = entries_for (fl_locked l) (lf_Address f)"
    using assms(1) by (simp_all add: funds_wf_def)
  have "lock_entry (t, f) \<in># mset ?es"
    unfolding es entries_for_del [OF wf assms(2), of "lf_Address f", symmetric] by simp
  then have "\<exists>e \<in> set ?es. le_txID e = t"
    by (force simp: lock_entry_def)
  then obtain i where i: "first_index (\<lambda>e. le_txID e = t) ?es = Some i"
    using first_index_None [of "\<lambda>e. le_txID e = t" ?es] by auto
  then have "i < length ?es" "le_txID (?es ! i) = t"
    using first_index_Some by fast+
  moreover from this have "?es ! i \<in># entries_for (fl_locked l) (lf_Address f)"
    unfolding es [symmetric] by simp
  from entries_for_txID [OF this] have "le_amount (?es ! i) = lf_Amount f"
    using calculation(2) assms(2) wf by (auto simp: wfmap_mget_iff)
  ultimately show thesis
    using that i by (simp add: lock_entry_def)
qed

lemma clear_with_wf:
  assumes R: "\<And>i es. i < length es \<Longrightarrow> add_mset (es ! i) (mset (R i es)) = mset es"
    and wf: "funds_wf l"
  shows "funds_wf (clear_with R l t)"
proof (cases "mget (fl_locked l) t")
  case None
  with wf show ?thesis by (simp add: clear_with_def)
next
  case (Some f)
  let ?es = "mgetd [] (fl_lockedByAddr l) (lf_Address f)"
  obtain i where i: "first_index (\<lambda>e. le_txID e = t) ?es = Some i" "i < length ?es" "?es ! i = lock_entry (t, f)"
    using clear_with_entry [OF wf Some] .
  have byAddr: "fl_lockedByAddr (clear_with R l t) =
      drop_empty_addr (lf_Address f) (mput (lf_Address f) (R i ?es) (fl_lockedByAddr l))"
    using Some i(1) by (simp add: clear_with_def)
  have wfm: "wfmap (fl_locked l)" and idx: "mset (mgetd [] (fl_lockedByAddr l) a) = entries_for (fl_locked l) a" for a
    using wf by (simp_all add: funds_wf_def)
  have "mset (mgetd [] (fl_lockedByAddr (clear_with R l t)) a) = entries_for (mdel t (fl_locked l)) a" for a
    using R [OF i(2)] i(3) idx [of a] entries_for_del [OF wfm Some, of a]
    unfolding byAddr mgetd_drop_empty_addr mgetd_mput by (cases "a = lf_Address f") (auto, metis add_mset_remove_trivial)
  moreover have "wfmap (fl_lockedByAddr (clear_with R l t))"
    using wf by (simp add: byAddr wfmap_drop_empty_addr funds_wf_def)
  ultimately show ?thesis
    using wfm by (simp add: funds_wf_def clear_with_locked)
qed

lemma lockFunds_wf:
  assumes "funds_wf l" and "GetLockedFunds l t = None"
  shows "funds_wf (lockFundsLocked l t a v)"
proof -
  have "mset (mgetd [] (fl_lockedByAddr (lockFundsLocked l t a v)) a') =
      entries_for (fl_locked (lockFundsLocked l t a v)) a'" for a'
    using assms by (simp add: lockFundsLocked_def GetLockedFunds_def funds_wf_def entries_for_put mgetd_mput lock_entry_def)
  with assms(1) show ?thesis
    by (simp add: funds_wf_def) (simp add: lockFundsLocked_def)
qed

lemma funds_wf_empty: "funds_wf FundLocks_empty"
  by (simp add: funds_wf_def FundLocks_empty_def entries_for_def)

subsection \<open>The contract\<close>

locale fund_ledger =
  fixes lock :: "'l \<Rightarrow> txid \<Rightarrow> address \<Rightarrow> int \<Rightarrow> 'l"
    and clear :: "'l \<Rightarrow> txid \<Rightarrow> 'l"
    and funds :: "'l \<Rightarrow> txid \<Rightarrow> LockedFunds option"
    and amount :: "'l \<Rightarrow> address \<Rightarrow> int"
    and ok :: "'l \<Rightarrow> bool"
  assumes lock_ok: "ok l \<Longrightarrow> funds l t = None \<Longrightarrow> ok (lock l t a v)"
    and clear_ok: "ok l \<Longrightarrow> ok (clear l t)"
    and lock_funds: "funds (lock l t a v) = (funds l)(t \<mapsto> \<lparr>lf_Address = a, lf_Amount = v\<rparr>)"
    and clear_funds: "funds (clear l t) = (funds l)(t := None)"
    and amount_sum: "ok l \<Longrightarrow> finite (dom (funds l))
          \<and> amount l a = (\<Sum>t | t \<in> dom (funds l) \<and> lf_Address (the (funds l t)) = a. lf_Amount (the (funds l t)))"
begin

lemma amount_lock:
  assumes "ok l" and "funds l t = None"
  shows "amount (lock l t a v) b = amount l b + (if b = a then v else 0)"
proof -
  let ?S = "{u. u \<in> dom (funds l) \<and> lf_Address (the (funds l u)) = b}"
  let ?f = "\<lambda>u. lf_Amount (the (funds (lock l t a v) u))"
  have S: "{u. u \<in> dom (funds (lock l t a v)) \<and> lf_Address (the (funds (lock l t a v) u)) = b}
      = (if b = a then insert t ?S else ?S)"
    using assms(2) by (auto simp: lock_funds)
  have fresh: "finite ?S" "t \<notin> ?S"
    using amount_sum [OF assms(1), of b] assms(2) by auto
  have same: "(\<Sum>u \<in> ?S. ?f u) = amount l b"
    using assms(2) amount_sum [OF assms(1), of b] by (auto simp: lock_funds intro!: sum.cong)
  have "amount (lock l t a v) b = (\<Sum>u \<in> (if b = a then insert t ?S else ?S). ?f u)"
    using amount_sum [OF lock_ok [OF assms], of a v b] S by simp
  also have "\<dots> = amount l b + (if b = a then v else 0)"
    using sum.insert [OF fresh, of ?f] same by (cases "b = a") (simp_all add: lock_funds)
  finally show ?thesis .
qed

lemma amount_clear:
  assumes "ok l"
  shows "amount (clear l t) b = amount l b
    - (case funds l t of None \<Rightarrow> 0 | Some f \<Rightarrow> if lf_Address f = b then lf_Amount f else 0)"
proof -
  let ?S = "{u. u \<in> dom (funds l) \<and> lf_Address (the (funds l u)) = b}"
  have "{u. u \<in> dom (funds (clear l t)) \<and> lf_Address (the (funds (clear l t) u)) = b} = ?S - {t}"
    by (auto simp: clear_funds)
  moreover have "(\<Sum>u \<in> ?S - {t}. lf_Amount (the (funds (clear l t) u))) = (\<Sum>u \<in> ?S - {t}. lf_Amount (the (funds l u)))"
    by (intro sum.cong) (auto simp: clear_funds)
  moreover have "finite ?S"
    using amount_sum [OF assms, of b] by simp
  ultimately show ?thesis
    using amount_sum [OF clear_ok [OF assms], of t b] amount_sum [OF assms, of b]
    by (auto simp: sum_diff1 split: option.splits)
qed

lemma clear_lock:
  assumes "ok l" and "funds l t = None"
  shows "amount (clear (lock l t a v) t) b = amount l b"
  using amount_clear [OF lock_ok [OF assms], of a v t b] amount_lock [OF assms, of a v b]
  by (auto simp: lock_funds)

end

lemma funds_sum:
  assumes "funds_wf l"
  shows "finite (dom (GetLockedFunds l)) \<and> getLockedAmountForAddrLocked l a =
    (\<Sum>t | t \<in> dom (GetLockedFunds l) \<and> lf_Address (the (GetLockedFunds l t)) = a. lf_Amount (the (GetLockedFunds l t)))"
proof -
  let ?m = "fl_locked l" and ?S = "{p \<in> set (fl_locked l). lf_Address (snd p) = a}"
  have wf: "wfmap ?m"
    using assms by (simp add: funds_wf_def)
  have "getLockedAmountForAddrLocked l a =
      sum_mset (image_mset (\<lambda>p. lf_Amount (snd p)) (filter_mset (\<lambda>p. lf_Address (snd p) = a) (mset ?m)))"
    using assms by (simp add: locked_amount_sum funds_wf_def entries_for_def image_mset.compositionality comp_def lock_entry_def)
  also have "\<dots> = (\<Sum>p \<in> ?S. lf_Amount (snd p))"
    unfolding mset_set_set [OF wfmap_distinct [OF wf], symmetric] by (simp add: sum_unfold_sum_mset)
  also have "\<dots> = (\<Sum>p \<in> ?S. lf_Amount (the (mget ?m (fst p))))"
    using wf by (intro sum.cong) (auto simp: wfmap_mget_iff)
  also have "\<dots> = (\<Sum>t \<in> fst ` ?S. lf_Amount (the (mget ?m t)))"
    using wf by (subst sum.reindex) (auto simp: wfmap_def distinct_map inj_on_def)
  also have "fst ` ?S = {t. t \<in> dom (GetLockedFunds l) \<and> lf_Address (the (GetLockedFunds l t)) = a}"
    using wf by (auto simp: GetLockedFunds_def [abs_def] wfmap_mget_iff image_iff)
  finally show ?thesis
    by (simp add: GetLockedFunds_def [abs_def] finite_dom_map_of)
qed

interpretation fl: fund_ledger lockFundsLocked clearLockLocked GetLockedFunds getLockedAmountForAddrLocked funds_wf
proof unfold_locales
  show "funds_wf (clearLockLocked l t)" if "funds_wf l" for l t
    unfolding clearLockLocked_with by (rule clear_with_wf [OF mset_splice that])
qed (auto simp: lockFunds_wf funds_sum, auto simp: clearLockLocked_with clear_with_locked GetLockedFunds_def
    lockFundsLocked_def gomap_simps)


interpretation fc: fund_ledger lockFundsLocked ClearLock GetLockedFunds getLockedAmountForAddrLocked funds_wf
proof unfold_locales
  show "funds_wf (ClearLock l t)" if "funds_wf l" for l t
    unfolding ClearLock_with by (rule clear_with_wf [OF mset_swap_last that])
qed (auto simp: lockFunds_wf funds_sum, auto simp: ClearLock_with clear_with_locked GetLockedFunds_def
    lockFundsLocked_def gomap_simps)

subsection \<open>Properties\<close>

definition sample_funds :: FundLocks where
  "sample_funds = lockFundsLocked (lockFundsLocked FundLocks_empty ''t1'' 5 30) ''t2'' 5 12"

lemma sample_funds_wf: "funds_wf sample_funds"
  unfolding sample_funds_def
  by (intro lockFunds_wf funds_wf_empty) (simp_all add: GetLockedFunds_def lockFundsLocked_def FundLocks_empty_def)

text \<open>Locked totals are exact: reserving funds under a new transaction ID raises the locked amount
  of that address by the amount and no other, and clearing the reservation lowers it by the same.\<close>

lemma locked_amount_exact:
  assumes "funds_wf l" and "GetLockedFunds l t = None"
  shows "getLockedAmountForAddrLocked (lockFundsLocked l t a v) b
      = getLockedAmountForAddrLocked l b + (if b = a then v else 0)
    \<and> getLockedAmountForAddrLocked (clearLockLocked (lockFundsLocked l t a v) t) b = getLockedAmountForAddrLocked l b
    \<and> funds_wf (clearLockLocked (lockFundsLocked l t a v) t)"
  using fl.amount_lock [OF assms] fl.clear_lock [OF assms] fl.clear_ok [OF fl.lock_ok [OF assms]] by simp

text \<open>C32. The two implementations of clearing a lock are equivalent: they leave the same reservations, the
  same locked amount of every address, and a well-formed ledger.\<close>

theorem ClearLock_equiv:
  assumes "funds_wf l"
  shows "GetLockedFunds (ClearLock l t) = GetLockedFunds (clearLockLocked l t)
    \<and> getLockedAmountForAddrLocked (ClearLock l t) = getLockedAmountForAddrLocked (clearLockLocked l t)
    \<and> funds_wf (ClearLock l t) \<and> funds_wf (clearLockLocked l t)"
  using fl.amount_clear [OF assms, of t] fc.amount_clear [OF assms, of t] fl.clear_ok [OF assms] fc.clear_ok [OF assms]
  by (simp add: fl.clear_funds fc.clear_funds fun_eq_iff)

theorem ClearLock_equiv_witness:
  "GetLockedFunds (ClearLock sample_funds ''t1'') = GetLockedFunds (clearLockLocked sample_funds ''t1'')
    \<and> getLockedAmountForAddrLocked (ClearLock sample_funds ''t1'') = getLockedAmountForAddrLocked (clearLockLocked sample_funds ''t1'')
    \<and> funds_wf (ClearLock sample_funds ''t1'') \<and> funds_wf (clearLockLocked sample_funds ''t1'')"
  by (rule ClearLock_equiv [OF sample_funds_wf])

text \<open>Reserving twice under one transaction ID leaks: after clearing that transaction the
  amount of the second reservation stays locked for ever, although no transaction holds it.\<close>

lemma double_lock_leaks:
  assumes "funds_wf l" and "GetLockedFunds l t = None"
  shows "GetLockedFunds (clearLockLocked (lockFundsLocked (lockFundsLocked l t a v) t a w) t) t = None
    \<and> getLockedAmountForAddrLocked (clearLockLocked (lockFundsLocked (lockFundsLocked l t a v) t a w) t) a
        = getLockedAmountForAddrLocked l a + w"
proof -
  have "t \<noteq> le_txID e" if "e \<in> set (mgetd [] (fl_lockedByAddr l) a)" for e
  proof -
    have "e \<in># entries_for (fl_locked l) a"
      using assms(1) that by (simp add: funds_wf_def flip: set_mset_mset)
    then show ?thesis
      using entries_for_txID [of e "fl_locked l" a] assms by (auto simp: GetLockedFunds_def funds_wf_def wfmap_mget_iff)
  qed
  then have "first_index (\<lambda>e. le_txID e = t) (mgetd [] (fl_lockedByAddr l) a @ \<lparr>le_txID = t, le_amount = v\<rparr> # es)
      = Some (length (mgetd [] (fl_lockedByAddr l) a))" for es
    by (intro first_index_append) auto
  then show ?thesis
    by (simp add: clearLockLocked_def lockFundsLocked_def GetLockedFunds_def locked_amount_sum gomap_simps
        mgetd_drop_empty_addr)
qed

end
