(* ===== verification/Shard_Chain.thy ===== *)
theory Shard_Chain
  imports EVM_State Fund_Locks
begin

text \<open>
  The chain of a state shard (\<open>internal/shard/chain.go\<close>): the queue of the next block, the votes
  of the shard, and what a cross-shard transaction leaves on the shard until it is decided: fund
  locks, pending credits, pending calls, slot locks and pending read-write sets.

  \<open>ProduceBlock\<close> is the whole function: it sorts the queue by priority, runs every transaction
  (\<open>exec_one\<close> is the body of the loop), commits the state and appends the block. The clock and the
  hash of a block are parameters. \<open>None\<close> is a panic, \<open>Inl\<close> an error of the commit.

  The lemmas give the outcome of a Lock transaction on every branch, show that a transaction that is
  left out of the block leaves balances and storage as they were, that the slot locks stay well
  formed and change only for the transaction executed, and that the blocks are linked.
\<close>

record PendingCredit =
  pc_Address :: address
  pc_Amount :: int

record Chain =
  c_shardID :: int
  c_blocks :: "StateShardBlock list"
  c_height :: u64
  c_currentTxs :: "Transaction list"
  c_prepareTxs :: "Transaction list"
  c_prepares :: "(txid, bool) gomap"
  c_funds :: FundLocks
  c_pendingCredits :: "(txid, PendingCredit list) gomap"
  c_pendingCalls :: "(txid, CrossShardTx) gomap"
  c_slotLocks :: slot_table
  c_pendingRwSets :: "(txid, RwVariable list) gomap"
  c_lastOrchestratorHeight :: u64
  c_processedCommits :: "(txid, bool) gomap"

definition NewChain :: "u64 \<Rightarrow> int \<Rightarrow> Chain" where
  "NewChain now shardID =
     (let genesis = \<lparr>sb_ShardID = shardID, sb_Height = 0, sb_PrevHash = 0, sb_Timestamp = now, sb_StateRoot = 0,
            sb_TxOrdering = [], sb_PrepareTxs = [], sb_TpcPrepare = []\<rparr>
      in \<lparr>c_shardID = shardID, c_blocks = [genesis], c_height = 0, c_currentTxs = [], c_prepareTxs = [],
          c_prepares = [], c_funds = FundLocks_empty, c_pendingCredits = [], c_pendingCalls = [],
          c_slotLocks = [], c_pendingRwSets = [], c_lastOrchestratorHeight = 0, c_processedCommits = []\<rparr>)"

definition AddTx :: "Transaction \<Rightarrow> Chain \<Rightarrow> Chain" where
  "AddTx tx c = c\<lparr>c_currentTxs := c_currentTxs c @ [Transaction_DeepCopy tx]\<rparr>"

text \<open>An invalid type is only logged.\<close>

definition RecordPrepareTx :: "Transaction \<Rightarrow> Chain \<Rightarrow> Chain" where
  "RecordPrepareTx tx c = c\<lparr>c_prepareTxs := c_prepareTxs c @ [Transaction_DeepCopy tx]\<rparr>"

definition AddPrepareResult :: "txid \<Rightarrow> bool \<Rightarrow> Chain \<Rightarrow> Chain" where
  "AddPrepareResult txID canCommit c = c\<lparr>c_prepares := mput txID canCommit (c_prepares c)\<rparr>"

text \<open>\<open>sort.SliceStable\<close> by \<open>Priority\<close>.\<close>

definition sortTransactionsByPriority :: "Transaction list \<Rightarrow> Transaction list" where
  "sortTransactionsByPriority txs = sort_key (\<lambda>tx. Priority (tx_TxType tx)) txs"

definition LockFunds :: "txid \<Rightarrow> address \<Rightarrow> int \<Rightarrow> Chain \<Rightarrow> Chain" where
  "LockFunds txID addr amount c = c\<lparr>c_funds := lockFundsLocked (c_funds c) txID addr amount\<rparr>"

definition GetLockedAmountForAddress :: "address \<Rightarrow> Chain \<Rightarrow> int" where
  "GetLockedAmountForAddress addr c = getLockedAmountForAddrLocked (c_funds c) addr"

definition chain_ClearLock :: "txid \<Rightarrow> Chain \<Rightarrow> Chain" where
  "chain_ClearLock txID c = c\<lparr>c_funds := ClearLock (c_funds c) txID\<rparr>"

definition StorePendingCredit :: "txid \<Rightarrow> address \<Rightarrow> int \<Rightarrow> Chain \<Rightarrow> Chain" where
  "StorePendingCredit txID addr amount c =
     c\<lparr>c_pendingCredits := mput txID (mgetd [] (c_pendingCredits c) txID @
        [\<lparr>pc_Address = addr, pc_Amount = amount\<rparr>]) (c_pendingCredits c)\<rparr>"

definition GetPendingCredits :: "Chain \<Rightarrow> txid \<Rightarrow> PendingCredit list option" where
  "GetPendingCredits c txID = (case mget (c_pendingCredits c) txID of
     None \<Rightarrow> None
   | Some credits \<Rightarrow> Some (map (\<lambda>credit. \<lparr>pc_Address = pc_Address credit, pc_Amount = pc_Amount credit\<rparr>) credits))"

definition ClearPendingCredit :: "txid \<Rightarrow> Chain \<Rightarrow> Chain" where
  "ClearPendingCredit txID c = c\<lparr>c_pendingCredits := mdel txID (c_pendingCredits c)\<rparr>"

definition StorePendingCall :: "CrossShardTx \<Rightarrow> Chain \<Rightarrow> Chain" where
  "StorePendingCall tx c = c\<lparr>c_pendingCalls := mput (ct_ID tx) (CrossShardTx_DeepCopy tx) (c_pendingCalls c)\<rparr>"

definition GetPendingCall :: "Chain \<Rightarrow> txid \<Rightarrow> CrossShardTx option" where
  "GetPendingCall c txID = (case mget (c_pendingCalls c) txID of
     None \<Rightarrow> None
   | Some tx \<Rightarrow> Some (CrossShardTx_DeepCopy tx))"

definition ClearPendingCall :: "txid \<Rightarrow> Chain \<Rightarrow> Chain" where
  "ClearPendingCall txID c = c\<lparr>c_pendingCalls := mdel txID (c_pendingCalls c)\<rparr>"

definition clearPendingRwSetLocked :: "txid \<Rightarrow> Chain \<Rightarrow> Chain" where
  "clearPendingRwSetLocked txID c = c\<lparr>c_pendingRwSets := mdel txID (c_pendingRwSets c)\<rparr>"

definition ClearPendingRwSet :: "txid \<Rightarrow> Chain \<Rightarrow> Chain" where
  "ClearPendingRwSet txID c = clearPendingRwSetLocked txID c"

definition GetPendingRwSet :: "Chain \<Rightarrow> txid \<Rightarrow> RwVariable list option" where
  "GetPendingRwSet c txID = (case mget (c_pendingRwSets c) txID of
     None \<Rightarrow> None
   | Some rwSet \<Rightarrow> Some (map RwVariable_DeepCopy rwSet))"

subsection \<open>Cleaning up after a transaction\<close>

definition clear_lock :: "txid \<Rightarrow> Chain \<Rightarrow> Chain" where
  "clear_lock txID c = c\<lparr>c_funds := clearLockLocked (c_funds c) txID\<rparr>"

definition clearPendingCreditLocked :: "txid \<Rightarrow> Chain \<Rightarrow> Chain" where
  "clearPendingCreditLocked txID c = c\<lparr>c_pendingCredits := mdel txID (c_pendingCredits c)\<rparr>"

definition clearPendingCreditForAddressLocked :: "txid \<Rightarrow> address \<Rightarrow> Chain \<Rightarrow> Chain" where
  "clearPendingCreditForAddressLocked txID addr c =
     (case mget (c_pendingCredits c) txID of
        None \<Rightarrow> c
      | Some credits \<Rightarrow>
          let remaining = filter (\<lambda>credit. pc_Address credit \<noteq> addr) credits
          in if length remaining = 0 then c\<lparr>c_pendingCredits := mdel txID (c_pendingCredits c)\<rparr>
             else c\<lparr>c_pendingCredits := mput txID remaining (c_pendingCredits c)\<rparr>)"

definition clearPendingCallLocked :: "txid \<Rightarrow> Chain \<Rightarrow> Chain" where
  "clearPendingCallLocked txID c = c\<lparr>c_pendingCalls := mdel txID (c_pendingCalls c)\<rparr>"

definition unlock_all_slots :: "txid \<Rightarrow> Chain \<Rightarrow> Chain" where
  "unlock_all_slots txID c = c\<lparr>c_slotLocks := unlockAllSlotsForTxLocked (c_slotLocks c) txID\<rparr>"

definition clearAllMetadataLocked :: "txid \<Rightarrow> Chain \<Rightarrow> Chain" where
  "clearAllMetadataLocked txID c0 =
     (let c1 = clear_lock txID c0;
          c2 = clearPendingCreditLocked txID c1;
          c3 = clearPendingCallLocked txID c2;
          c4 = unlock_all_slots txID c3
      in clearPendingRwSetLocked txID c4)"

definition cleanupAfterExecutionLocked :: "Transaction \<Rightarrow> Chain \<Rightarrow> Chain" where
  "cleanupAfterExecutionLocked tx c =
     (let id = tx_CrossShardTxID tx in
      if id = [] then c
      else case tx_TxType tx of
             TxTypeCrossDebit \<Rightarrow> clear_lock id c
           | TxTypeCrossCredit \<Rightarrow> clearPendingCreditForAddressLocked id (tx_To tx) c
           | TxTypeCrossWriteSet \<Rightarrow> clearPendingCallLocked id c
           | TxTypeCrossAbort \<Rightarrow> clearAllMetadataLocked id c
           | TxTypeLock \<Rightarrow> c\<lparr>c_prepares := mput id True (c_prepares c)\<rparr>
           | TxTypeFinalize \<Rightarrow> clearPendingRwSetLocked id (unlock_all_slots id c)
           | TxTypeUnlock \<Rightarrow> clearAllMetadataLocked id (clearPendingRwSetLocked id (unlock_all_slots id c))
           | _ \<Rightarrow> c)"

definition cleanupAfterFailureLocked :: "Transaction \<Rightarrow> Chain \<Rightarrow> Chain" where
  "cleanupAfterFailureLocked tx c =
     (case tx_TxType tx of
        TxTypeLock \<Rightarrow>
          let c1 = clearAllMetadataLocked (tx_CrossShardTxID tx) c
          in c1\<lparr>c_prepares := mput (tx_CrossShardTxID tx) False (c_prepares c1)\<rparr>
      | _ \<Rightarrow> c)"

subsection \<open>Producing a block\<close>

definition LockSlot :: "txid \<Rightarrow> address \<Rightarrow> hash \<Rightarrow> Chain \<Rightarrow> slot_error option \<times> Chain" where
  "LockSlot txID addr slot c =
     (case lockSlotLocked (c_slotLocks c) txID addr slot of (err, t) \<Rightarrow> (err, c\<lparr>c_slotLocks := t\<rparr>))"

definition UnlockSlot :: "txid \<Rightarrow> address \<Rightarrow> hash \<Rightarrow> Chain \<Rightarrow> Chain" where
  "UnlockSlot txID addr slot c = c\<lparr>c_slotLocks := unlockSlotLocked (c_slotLocks c) txID addr slot\<rparr>"

definition UnlockAllSlotsForTx :: "txid \<Rightarrow> Chain \<Rightarrow> Chain" where
  "UnlockAllSlotsForTx txID c = unlock_all_slots txID c"

text \<open>The error names the address and one of the holders: the first the \<open>range\<close> statement visits.\<close>

definition checkLocalTxLockConflict :: "Transaction \<Rightarrow> Chain \<Rightarrow> (address \<times> txid) option" where
  "checkLocalTxLockConflict tx c =
     (if tx_TxType tx \<noteq> TxTypeLocal then None
      else if IsAddressLocked (c_slotLocks c) (tx_From tx)
      then Some (tx_From tx, GetAddressLockHolder (c_slotLocks c) (tx_From tx))
      else if IsAddressLocked (c_slotLocks c) (tx_To tx)
      then Some (tx_To tx, GetAddressLockHolder (c_slotLocks c) (tx_To tx))
      else None)"

definition validateAndLockReadSetLocked :: "'s geth \<Rightarrow> txid \<Rightarrow> RwVariable list \<Rightarrow> Chain \<Rightarrow> 's EVMState
    \<Rightarrow> slot_error option \<times> Chain \<times> 's EVMState" where
  "validateAndLockReadSetLocked G txID rwSet c e =
     (case lock_items (GetStorageAt G) (g_BytesToHash G) txID (read_items rwSet) [] (c_slotLocks c) e of
        (Some err, t, e1) \<Rightarrow> (Some err, c\<lparr>c_slotLocks := t\<rparr>, e1)
      | (None, t, e1) \<Rightarrow>
          (None, c\<lparr>c_slotLocks := t, c_pendingRwSets := mput txID rwSet (c_pendingRwSets c)\<rparr>, e1))"

definition ValidateAndLockReadSet :: "'s geth \<Rightarrow> txid \<Rightarrow> RwVariable list \<Rightarrow> Chain \<Rightarrow> 's EVMState
    \<Rightarrow> slot_error option \<times> Chain \<times> 's EVMState" where
  "ValidateAndLockReadSet G txID rwSet c e = validateAndLockReadSetLocked G txID rwSet c e"

definition ApplyWriteSet :: "'s geth \<Rightarrow> txid \<Rightarrow> Chain \<Rightarrow> 's EVMState \<Rightarrow> bool \<times> 's EVMState" where
  "ApplyWriteSet G txID c e =
     (case mget (c_pendingRwSets c) txID of
        None \<Rightarrow> (False, e)
      | Some rwSet \<Rightarrow>
          (True, fold (\<lambda>(addr, item) e. SetStorageAt G addr (ws_Slot item) (g_BytesToHash G (ws_NewValue item)) e)
             (write_items rwSet) e))"

text \<open>
  The branch of the loop for Lock transactions, its second step first: \<open>True\<close> when the transaction
  joins the block.
\<close>

definition lock_read_set :: "'s geth \<Rightarrow> Transaction \<Rightarrow> Chain \<Rightarrow> 's EVMState \<Rightarrow> bool \<times> Chain \<times> 's EVMState" where
  "lock_read_set G tx c e =
     (case validateAndLockReadSetLocked G (tx_CrossShardTxID tx) (tx_RwSet tx) c e of
        (Some err, c1, e1) \<Rightarrow> (False, cleanupAfterFailureLocked tx (clear_lock (tx_CrossShardTxID tx) c1), e1)
      | (None, c1, e1) \<Rightarrow> (True, cleanupAfterExecutionLocked tx c1, e1))"

definition exec_lock :: "'s geth \<Rightarrow> Transaction \<Rightarrow> Chain \<Rightarrow> 's EVMState \<Rightarrow> bool \<times> Chain \<times> 's EVMState" where
  "exec_lock G tx c e =
     (if tx_Value tx \<noteq> None \<and> 0 < ToBigInt (tx_Value tx)
      then let amount = ToBigInt (tx_Value tx);
               lockedAmount = getLockedAmountForAddrLocked (c_funds c) (tx_From tx);
               (can, e1) = CanDebit G (tx_From tx) amount lockedAmount e
           in if \<not> can then (False, cleanupAfterFailureLocked tx c, e1)
              else lock_read_set G tx
                (c\<lparr>c_funds := lockFundsLocked (c_funds c) (tx_CrossShardTxID tx) (tx_From tx) amount\<rparr>) e1
      else lock_read_set G tx c e)"

text \<open>The body of the loop.\<close>

definition exec_one :: "'s geth \<Rightarrow> Transaction \<Rightarrow> Chain \<Rightarrow> 's EVMState \<Rightarrow> (bool \<times> Chain \<times> 's EVMState) option" where
  "exec_one G tx c e =
     (if checkLocalTxLockConflict tx c \<noteq> None then Some (False, c, e)
      else if tx_TxType tx = TxTypeLock then Some (exec_lock G tx c e)
      else let (snapshot, e1) = ES_Snapshot G e in
        case ExecuteTx G tx e1 of
          None \<Rightarrow> None
        | Some (Some err, e2) \<Rightarrow> Some (False, cleanupAfterFailureLocked tx c, ES_RevertToSnapshot G snapshot e2)
        | Some (None, e2) \<Rightarrow> Some (True, cleanupAfterExecutionLocked tx c, e2))"

fun exec_all :: "'s geth \<Rightarrow> Transaction list \<Rightarrow> Transaction list \<Rightarrow> Chain \<Rightarrow> 's EVMState
    \<Rightarrow> (Transaction list \<times> Chain \<times> 's EVMState) option" where
  "exec_all G [] successfulTxs c e = Some (successfulTxs, c, e)"
| "exec_all G (tx # txs) successfulTxs c e =
     (case exec_one G tx c e of
        None \<Rightarrow> None
      | Some (included, c1, e1) \<Rightarrow>
          exec_all G txs (if included then successfulTxs @ [tx] else successfulTxs) c1 e1)"

definition ProduceBlock :: "'s geth \<Rightarrow> (StateShardBlock \<Rightarrow> hash) \<Rightarrow> u64 \<Rightarrow> Chain \<Rightarrow> 's EVMState
    \<Rightarrow> ((string + StateShardBlock) \<times> Chain \<times> 's EVMState) option" where
  "ProduceBlock G blockHash now c0 e0 =
     (case exec_all G (sortTransactionsByPriority (c_currentTxs c0)) [] c0 e0 of
        None \<Rightarrow> None
      | Some (successfulTxs, c, e) \<Rightarrow>
          (case ES_Commit G (c_height c + 1) e of
             (Inl err, e1) \<Rightarrow> Some (Inl err, c, e1)
           | (Inr stateRoot, e1) \<Rightarrow>
               if unat (c_height c) < length (c_blocks c)
               then let block = \<lparr>sb_ShardID = c_shardID c, sb_Height = c_height c + 1,
                          sb_PrevHash = blockHash (c_blocks c ! unat (c_height c)), sb_Timestamp = now,
                          sb_StateRoot = stateRoot, sb_TxOrdering = successfulTxs,
                          sb_PrepareTxs = c_prepareTxs c, sb_TpcPrepare = c_prepares c\<rparr>
                    in Some (Inr block, c\<lparr>c_blocks := c_blocks c @ [block], c_height := c_height c + 1,
                         c_currentTxs := [], c_prepareTxs := [], c_prepares := []\<rparr>, e1)
               else None))"

subsection \<open>Crash recovery\<close>

definition GetLastOrchestratorHeight :: "Chain \<Rightarrow> u64" where
  "GetLastOrchestratorHeight c = c_lastOrchestratorHeight c"

definition SetLastOrchestratorHeight :: "u64 \<Rightarrow> Chain \<Rightarrow> Chain" where
  "SetLastOrchestratorHeight height c = c\<lparr>c_lastOrchestratorHeight := height\<rparr>"

definition IsCommitProcessed :: "Chain \<Rightarrow> txid \<Rightarrow> bool" where
  "IsCommitProcessed c txID = mgetd False (c_processedCommits c) txID"

definition MarkCommitProcessed :: "txid \<Rightarrow> Chain \<Rightarrow> Chain" where
  "MarkCommitProcessed txID c = c\<lparr>c_processedCommits := mput txID True (c_processedCommits c)\<rparr>"

definition CheckAndMarkCommitProcessed :: "txid \<Rightarrow> Chain \<Rightarrow> bool \<times> Chain" where
  "CheckAndMarkCommitProcessed txID c =
     (if mgetd False (c_processedCommits c) txID then (False, c)
      else (True, c\<lparr>c_processedCommits := mput txID True (c_processedCommits c)\<rparr>))"

subsection \<open>What executing a transaction leaves alone\<close>

lemmas chain_ops = clear_lock_def clearPendingCreditLocked_def clearPendingCallLocked_def unlock_all_slots_def
  clearPendingRwSetLocked_def clearAllMetadataLocked_def Let_def

lemma clearAllMetadata_fields [simp]:
  "c_funds (clearAllMetadataLocked x c) = clearLockLocked (c_funds c) x"
  "c_slotLocks (clearAllMetadataLocked x c) = unlockAllSlotsForTxLocked (c_slotLocks c) x"
  "c_pendingCredits (clearAllMetadataLocked x c) = mdel x (c_pendingCredits c)"
  "c_pendingCalls (clearAllMetadataLocked x c) = mdel x (c_pendingCalls c)"
  "c_pendingRwSets (clearAllMetadataLocked x c) = mdel x (c_pendingRwSets c)"
  "c_prepares (clearAllMetadataLocked x c) = c_prepares c"
  by (simp_all add: chain_ops)

definition chain_frame :: "Chain \<Rightarrow> Chain \<Rightarrow> bool" where
  "chain_frame c c1 \<longleftrightarrow> c_shardID c1 = c_shardID c \<and> c_blocks c1 = c_blocks c \<and> c_height c1 = c_height c
     \<and> c_currentTxs c1 = c_currentTxs c \<and> c_prepareTxs c1 = c_prepareTxs c
     \<and> c_lastOrchestratorHeight c1 = c_lastOrchestratorHeight c \<and> c_processedCommits c1 = c_processedCommits c"

lemma chain_frame_refl [simp]: "chain_frame c c"
  by (simp add: chain_frame_def)

lemma chain_frame_trans: "chain_frame c c1 \<Longrightarrow> chain_frame c1 c2 \<Longrightarrow> chain_frame c c2"
  by (simp add: chain_frame_def)

lemma cleanup_frame:
  "chain_frame c (clearAllMetadataLocked x c)"
  "chain_frame c (cleanupAfterFailureLocked tx c)"
  "chain_frame c (cleanupAfterExecutionLocked tx c)"
  by (auto simp: chain_frame_def chain_ops cleanupAfterFailureLocked_def cleanupAfterExecutionLocked_def
      clearPendingCreditForAddressLocked_def split: TxType.splits option.splits)

lemma lock_read_set_frame: "lock_read_set G tx c e = (inc, c1, e1) \<Longrightarrow> chain_frame c c1"
  using cleanup_frame
  by (auto simp: lock_read_set_def validateAndLockReadSetLocked_def clear_lock_def chain_frame_def
      split: prod.splits option.splits)

lemma exec_lock_frame: "exec_lock G tx c e = (inc, c1, e1) \<Longrightarrow> chain_frame c c1"
  using lock_read_set_frame [of G tx] cleanup_frame(2) [of c tx]
  by (fastforce simp: exec_lock_def Let_def chain_frame_def split: prod.splits if_splits)

lemma exec_one_frame: "exec_one G tx c e = Some (inc, c1, e1) \<Longrightarrow> chain_frame c c1"
  using exec_lock_frame [of G tx c e] cleanup_frame(2,3) [of c tx]
  by (auto simp: exec_one_def Let_def split: prod.splits if_splits option.splits)

text \<open>Properties of single steps carry over to the loop.\<close>

lemma exec_all_induct:
  assumes "exec_all G txs done c e = Some (done1, c1, e1)" and "P done c e"
    and "\<And>tx done c e inc c1 e1. tx \<in> set txs \<Longrightarrow> P done c e \<Longrightarrow> exec_one G tx c e = Some (inc, c1, e1) \<Longrightarrow>
          P (if inc then done @ [tx] else done) c1 e1"
  shows "P done1 c1 e1"
  using assms
proof (induction txs arbitrary: "done" c e)
  case (Cons tx txs)
  then obtain inc c2 e2 where step: "exec_one G tx c e = Some (inc, c2, e2)"
    and rest: "exec_all G txs (if inc then done @ [tx] else done) c2 e2 = Some (done1, c1, e1)"
    by (auto split: option.splits)
  show ?case
    by (rule Cons.IH [OF rest]) (use Cons.prems step in \<open>auto split del: if_split\<close>)
qed simp

lemma exec_all_frame: "exec_all G txs done c e = Some (done1, c1, e1) \<Longrightarrow> chain_frame c c1"
  by (rule exec_all_induct [where P = "\<lambda>_ c1 _. chain_frame c c1"])
    (auto intro: chain_frame_trans dest: exec_one_frame)

subsection \<open>Lock transactions\<close>

lemma clearLock_absent: "GetLockedFunds l t = None \<Longrightarrow> clearLockLocked l t = l"
  by (simp add: clearLockLocked_def GetLockedFunds_def)

lemma clearLock_twice [simp]: "clearLockLocked (clearLockLocked l t) t = clearLockLocked l t"
  by (rule clearLock_absent) (simp add: fl.clear_funds)

lemma cleanup_failed_lock:
  "tx_TxType tx = TxTypeLock \<Longrightarrow> cleanupAfterFailureLocked tx c =
     (clearAllMetadataLocked (tx_CrossShardTxID tx) c)\<lparr>c_prepares := mput (tx_CrossShardTxID tx) False (c_prepares c)\<rparr>"
  by (simp add: cleanupAfterFailureLocked_def Let_def)

text \<open>
  When a Lock transaction is accepted: the available balance covers its value, its read set shows
  the current storage, and no other transaction holds one of its slots.
\<close>

definition read_set_ok :: "(byte list \<Rightarrow> hash) \<Rightarrow> ledger \<Rightarrow> slot_table \<Rightarrow> Transaction \<Rightarrow> bool" where
  "read_set_ok b w t tx \<longleftrightarrow> items_valid (sto w) b (read_items (tx_RwSet tx))
     \<and> (\<forall>sk \<in> set (item_slots (read_items (tx_RwSet tx))). slot_holder t sk \<in> {None, Some (tx_CrossShardTxID tx)})"

definition funds_ok :: "ledger \<Rightarrow> FundLocks \<Rightarrow> Transaction \<Rightarrow> bool" where
  "funds_ok w l tx \<longleftrightarrow> (0 < ToBigInt (tx_Value tx) \<longrightarrow>
     ToBigInt (tx_Value tx) \<le> uint (bal w (tx_From tx)) - getLockedAmountForAddrLocked l (tx_From tx))"

definition lock_slots :: "Transaction \<Rightarrow> (address \<times> hash) set" where
  "lock_slots tx = set (item_slots (read_items (tx_RwSet tx)))"

text \<open>The effect on the chain in both cases.\<close>

definition lock_granted_on :: "Transaction \<Rightarrow> FundLocks \<Rightarrow> Chain \<Rightarrow> Chain \<Rightarrow> bool" where
  "lock_granted_on tx l c c1 \<longleftrightarrow>
     (let x = tx_CrossShardTxID tx in
      slots_wf (c_slotLocks c1)
      \<and> slot_holder (c_slotLocks c1) = (\<lambda>sk. if sk \<in> lock_slots tx then Some x else slot_holder (c_slotLocks c) sk)
      \<and> c_funds c1 = l \<and> mget (c_pendingRwSets c1) x = Some (tx_RwSet tx)
      \<and> c_pendingCredits c1 = c_pendingCredits c \<and> c_pendingCalls c1 = c_pendingCalls c
      \<and> c_prepares c1 = (if x = [] then c_prepares c else mput x True (c_prepares c)))"

definition lock_refused_on :: "Transaction \<Rightarrow> FundLocks \<Rightarrow> Chain \<Rightarrow> Chain \<Rightarrow> bool" where
  "lock_refused_on tx l c c1 \<longleftrightarrow>
     (let x = tx_CrossShardTxID tx in
      slots_wf (c_slotLocks c1)
      \<and> slot_holder (c_slotLocks c1) =
          (\<lambda>sk. if slot_holder (c_slotLocks c) sk = Some x then None else slot_holder (c_slotLocks c) sk)
      \<and> c_funds c1 = clearLockLocked l x \<and> c_pendingRwSets c1 = mdel x (c_pendingRwSets c)
      \<and> c_pendingCredits c1 = mdel x (c_pendingCredits c) \<and> c_pendingCalls c1 = mdel x (c_pendingCalls c)
      \<and> c_prepares c1 = mput x False (c_prepares c))"

lemma lock_outcome_funds [simp]:
  "lock_granted_on tx l (c\<lparr>c_funds := f\<rparr>) c1 = lock_granted_on tx l c c1"
  "lock_refused_on tx l (c\<lparr>c_funds := f\<rparr>) c1 = lock_refused_on tx l c c1"
  by (simp_all add: lock_granted_on_def lock_refused_on_def Let_def cong: if_cong)

context geth_state
begin

lemma lock_read_set_law:
  assumes "ok (es_stateDB e)" and "slots_wf (c_slotLocks c)" and "tx_TxType tx = TxTypeLock"
    and "lock_read_set G tx c e = (inc, c1, e1)"
  shows "inc = read_set_ok (g_BytesToHash G) (view (es_stateDB e)) (c_slotLocks c) tx" and "same e e1"
    and "if inc then lock_granted_on tx (c_funds c) c c1 else lock_refused_on tx (c_funds c) c c1"
proof -
  let ?x = "tx_CrossShardTxID tx" and ?b = "g_BytesToHash G" and ?items = "read_items (tx_RwSet tx)"
  obtain r t e2 where run: "lock_items (GetStorageAt G) ?b ?x ?items [] (c_slotLocks c) e = (r, t, e2)"
    by (metis surj_pair)
  have e1: "e1 = e2" and inc: "inc = (r = None)"
    using assms(4) run by (auto simp: lock_read_set_def validateAndLockReadSetLocked_def split: option.splits)
  have "fst (lock_items (GetStorageAt G) ?b ?x ?items [] (c_slotLocks c) e) = None \<longleftrightarrow>
      read_set_ok ?b (view (es_stateDB e)) (c_slotLocks c) tx"
    unfolding read_set_ok_def
    by (rule lock_items_accepts_iff [OF GetStorageAt_reads same_refl]) (fact assms)+
  then show "inc = read_set_ok ?b (view (es_stateDB e)) (c_slotLocks c) tx"
    using run inc by simp
  have "same e (snd (snd (lock_items (GetStorageAt G) ?b ?x ?items [] (c_slotLocks c) e)))"
    by (rule lock_items_reads [OF GetStorageAt_reads same_refl]) (fact assms)
  then show "same e e1"
    using run e1 by simp
  show "if inc then lock_granted_on tx (c_funds c) c c1 else lock_refused_on tx (c_funds c) c c1"
  proof (cases r)
    case None
    with lock_items_success [OF assms(2), of "GetStorageAt G" ?b ?x ?items "[]" e t e2] run inc assms(3,4)
    show ?thesis
      by (auto simp: lock_read_set_def validateAndLockReadSetLocked_def cleanupAfterExecutionLocked_def
          lock_granted_on_def lock_slots_def gomap_simps)
  next
    case (Some err)
    have t: "slots_wf t" "\<And>sk. slot_holder t sk = slot_holder (c_slotLocks c) sk
        \<or> slot_holder (c_slotLocks c) sk = Some ?x \<and> slot_holder t sk = None"
      using lock_items_failure [OF assms(2) run [unfolded Some]] unfolding list.set by blast+
    have "slot_holder (unlockAllSlotsForTxLocked t ?x) sk =
        (if slot_holder (c_slotLocks c) sk = Some ?x then None else slot_holder (c_slotLocks c) sk)" for sk
      using unlockAll_law [OF t(1), of ?x sk] t(2) [of sk] by auto
    with Some run inc assms(3,4) unlockAll_law [OF t(1), of ?x] show ?thesis
      by (auto simp: lock_read_set_def validateAndLockReadSetLocked_def cleanup_failed_lock lock_refused_on_def
          fun_eq_iff clear_lock_def)
  qed
qed

lemma exec_lock_law:
  assumes "ok (es_stateDB e)" and "slots_wf (c_slotLocks c)" and "tx_TxType tx = TxTypeLock"
    and "exec_lock G tx c e = (inc, c1, e1)"
  defines "l \<equiv> if 0 < ToBigInt (tx_Value tx)
    then lockFundsLocked (c_funds c) (tx_CrossShardTxID tx) (tx_From tx) (ToBigInt (tx_Value tx)) else c_funds c"
  shows "inc = (funds_ok (view (es_stateDB e)) (c_funds c) tx
      \<and> read_set_ok (g_BytesToHash G) (view (es_stateDB e)) (c_slotLocks c) tx)"
    and "same e e1"
    and "if inc then lock_granted_on tx l c c1
      else lock_refused_on tx (if funds_ok (view (es_stateDB e)) (c_funds c) tx then l else c_funds c) c c1"
proof -
  let ?w = "view (es_stateDB e)" and ?x = "tx_CrossShardTxID tx"
  have pos: "(tx_Value tx \<noteq> None \<and> 0 < ToBigInt (tx_Value tx)) = (0 < ToBigInt (tx_Value tx))"
    by (cases "tx_Value tx") (simp_all add: ToBigInt_def)
  obtain can e2 where d: "CanDebit G (tx_From tx) (ToBigInt (tx_Value tx))
      (getLockedAmountForAddrLocked (c_funds c) (tx_From tx)) e = (can, e2)"
    by fastforce
  have e2: "same e e2" and can: "0 < ToBigInt (tx_Value tx) \<Longrightarrow> can = funds_ok ?w (c_funds c) tx"
    using CanDebit_law [OF assms(1), of "tx_From tx" "ToBigInt (tx_Value tx)"
        "getLockedAmountForAddrLocked (c_funds c) (tx_From tx)"] d by (simp_all add: funds_ok_def)
  consider (refused) "\<not> funds_ok ?w (c_funds c) tx" "inc = False" "c1 = cleanupAfterFailureLocked tx c" "e1 = e2"
    | (go) e3 where "funds_ok ?w (c_funds c) tx" "same e e3" "lock_read_set G tx (c\<lparr>c_funds := l\<rparr>) e3 = (inc, c1, e1)"
    using assms(4) [unfolded exec_lock_def pos] can d e2 same_refl [OF assms(1)]
    by (auto simp: l_def funds_ok_def Let_def split: if_splits)
  then have "inc = (funds_ok ?w (c_funds c) tx \<and> read_set_ok (g_BytesToHash G) ?w (c_slotLocks c) tx) \<and> same e e1
    \<and> (if inc then lock_granted_on tx l c c1
       else lock_refused_on tx (if funds_ok ?w (c_funds c) tx then l else c_funds c) c c1)"
  proof cases
    case refused
    with e2 unlockAll_law [OF assms(2), of ?x] show ?thesis
      by (auto simp: lock_refused_on_def cleanup_failed_lock [OF assms(3)] fun_eq_iff)
  next
    case go
    have "slots_wf (c_slotLocks (c\<lparr>c_funds := l\<rparr>))"
      using assms(2) by simp
    from lock_read_set_law [OF sameD(1) [OF go(2)] this assms(3) go(3)] go(1,2) show ?thesis
      by (auto simp: sameD(2) [OF go(2)] intro: same_trans split: if_splits)
  qed
  then show "inc = (funds_ok ?w (c_funds c) tx \<and> read_set_ok (g_BytesToHash G) ?w (c_slotLocks c) tx)" and "same e e1"
    and "if inc then lock_granted_on tx l c c1
      else lock_refused_on tx (if funds_ok ?w (c_funds c) tx then l else c_funds c) c c1"
    by blast+
qed

end

subsection \<open>Running a block\<close>

lemma cleanup_slots_wf: "slots_wf (c_slotLocks c) \<Longrightarrow> slots_wf (c_slotLocks (cleanupAfterExecutionLocked tx c))"
  using sl.unlock_all_ok
  by (auto simp: cleanupAfterExecutionLocked_def clearPendingCreditForAddressLocked_def chain_ops
      split: TxType.splits option.splits)

lemma cleanup_failure_other: "tx_TxType tx \<noteq> TxTypeLock \<Longrightarrow> cleanupAfterFailureLocked tx c = c"
  by (cases "tx_TxType tx") (simp_all add: cleanupAfterFailureLocked_def)

lemma cleanup_prepares_other:
  "tx_TxType tx \<noteq> TxTypeLock \<Longrightarrow> c_prepares (cleanupAfterExecutionLocked tx c) = c_prepares c"
  by (auto simp: cleanupAfterExecutionLocked_def clearPendingCreditForAddressLocked_def chain_ops
      split: TxType.splits option.splits)

lemma lock_granted_onD:
  assumes "lock_granted_on tx l c c1"
  shows "slots_wf (c_slotLocks c1)" and "c_funds c1 = l"
    and "slot_holder (c_slotLocks c1) sk = (if sk \<in> lock_slots tx then Some (tx_CrossShardTxID tx) else slot_holder (c_slotLocks c) sk)"
    and "mget (c_pendingRwSets c1) (tx_CrossShardTxID tx) = Some (tx_RwSet tx)"
    and "c_prepares c1 = (if tx_CrossShardTxID tx = [] then c_prepares c else mput (tx_CrossShardTxID tx) True (c_prepares c))"
  using assms unfolding lock_granted_on_def Let_def by simp_all

lemma lock_refused_onD:
  assumes "lock_refused_on tx l c c1"
  shows "slots_wf (c_slotLocks c1)" and "c_funds c1 = clearLockLocked l (tx_CrossShardTxID tx)"
    and "slot_holder (c_slotLocks c1) sk =
      (if slot_holder (c_slotLocks c) sk = Some (tx_CrossShardTxID tx) then None else slot_holder (c_slotLocks c) sk)"
    and "c_prepares c1 = mput (tx_CrossShardTxID tx) False (c_prepares c)"
  using assms unfolding lock_refused_on_def Let_def by simp_all

context geth_state
begin

lemma exec_one_other:
  assumes "ok (es_stateDB e)" and "tx_TxType tx \<noteq> TxTypeLock" and "exec_one G tx c e = Some (inc, c1, e1)"
  shows "ok (es_stateDB e1)" and "\<not> inc \<Longrightarrow> same e e1 \<and> c1 = c" and "inc \<Longrightarrow> c1 = cleanupAfterExecutionLocked tx c"
proof -
  have "ok (es_stateDB e1) \<and> (\<not> inc \<longrightarrow> same e e1 \<and> c1 = c) \<and> (inc \<longrightarrow> c1 = cleanupAfterExecutionLocked tx c)"
  proof (cases "checkLocalTxLockConflict tx c")
    case None
    obtain n e2 where n: "ES_Snapshot G e = (n, e2)"
      by fastforce
    obtain r e3 where r: "ExecuteTx G tx e2 = Some (r, e3)"
      using assms(2,3) None n by (auto simp: exec_one_def split: option.splits)
    note e2 = Snapshot_law [OF assms(1) n]
    have "n \<in> dom (saved (es_stateDB e2))"
      using e2(3) by simp
    from ExecuteTx_keeps [OF e2(1) this r] have "keeps n e2 e3" .
    with revert_same [OF assms(1) n] have "same e (ES_RevertToSnapshot G n e3)" "ok (es_stateDB e3)"
      by (simp_all add: keeps_def)
    then show ?thesis
      using assms(2,3) None n r
      by (auto simp: exec_one_def cleanup_failure_other same_def split: option.splits)
  qed (use assms same_refl in \<open>auto simp: exec_one_def\<close>)
  then show "ok (es_stateDB e1)" and "\<not> inc \<Longrightarrow> same e e1 \<and> c1 = c" and "inc \<Longrightarrow> c1 = cleanupAfterExecutionLocked tx c"
    by blast+
qed

lemma exec_one_lock:
  "tx_TxType tx = TxTypeLock \<Longrightarrow> exec_one G tx c e = Some (exec_lock G tx c e)"
  by (simp add: exec_one_def checkLocalTxLockConflict_def)

lemma exec_one_excluded:
  assumes "ok (es_stateDB e)" and "slots_wf (c_slotLocks c)" and "exec_one G tx c e = Some (False, c1, e1)"
  shows "same e e1"
proof (cases "tx_TxType tx = TxTypeLock")
  case True
  then have "exec_lock G tx c e = (False, c1, e1)"
    using assms(3) by (simp add: exec_one_lock)
  from exec_lock_law(2) [OF assms(1,2) True this] show ?thesis .
qed (use assms exec_one_other in blast)

lemma exec_one_ok:
  assumes "ok (es_stateDB e)" and "slots_wf (c_slotLocks c)" and "exec_one G tx c e = Some (inc, c1, e1)"
  shows "ok (es_stateDB e1)" and "slots_wf (c_slotLocks c1)"
proof -
  have "ok (es_stateDB e1) \<and> slots_wf (c_slotLocks c1)"
  proof (cases "tx_TxType tx = TxTypeLock")
    case True
    then have "exec_lock G tx c e = (inc, c1, e1)"
      using assms(3) by (simp add: exec_one_lock)
    note law = exec_lock_law [OF assms(1,2) True this]
    show ?thesis
      using sameD(1) [OF law(2)] law(3) by (cases inc) (auto dest: lock_granted_onD(1) lock_refused_onD(1))
  next
    case False
    show ?thesis
      using exec_one_other [OF assms(1) False assms(3)] assms(2) cleanup_slots_wf by (cases inc) auto
  qed
  then show "ok (es_stateDB e1)" and "slots_wf (c_slotLocks c1)"
    by blast+
qed

lemma exec_all_ok:
  assumes "ok (es_stateDB e)" and "slots_wf (c_slotLocks c)" and "exec_all G txs done c e = Some (done1, c1, e1)"
  shows "ok (es_stateDB e1) \<and> slots_wf (c_slotLocks c1)"
proof (rule exec_all_induct [OF assms(3), where P = "\<lambda>_ c e. ok (es_stateDB e) \<and> slots_wf (c_slotLocks c)"])
  show "ok (es_stateDB e) \<and> slots_wf (c_slotLocks c)"
    using assms(1,2) by simp
qed (use exec_one_ok in blast)

text \<open>Votes: a Lock transaction decides the vote of its own transaction, nothing else does.\<close>

lemma exec_one_vote:
  assumes "ok (es_stateDB e)" and "slots_wf (c_slotLocks c)" and "exec_one G tx c e = Some (inc, c1, e1)"
  shows "mget (c_prepares c1) x =
    (if tx_TxType tx = TxTypeLock \<and> x = tx_CrossShardTxID tx \<and> x \<noteq> [] then Some inc else
     if tx_TxType tx = TxTypeLock \<and> x = tx_CrossShardTxID tx \<and> \<not> inc then Some False else mget (c_prepares c) x)"
proof (cases "tx_TxType tx = TxTypeLock")
  case True
  then have "exec_lock G tx c e = (inc, c1, e1)"
    using assms(3) by (simp add: exec_one_lock)
  note law = exec_lock_law(3) [OF assms(1,2) True this]
  show ?thesis
  proof (cases inc)
    case yes: True
    with law have "lock_granted_on tx (if 0 < ToBigInt (tx_Value tx) then lockFundsLocked (c_funds c)
        (tx_CrossShardTxID tx) (tx_From tx) (ToBigInt (tx_Value tx)) else c_funds c) c c1"
      by simp
    from lock_granted_onD(5) [OF this] yes True show ?thesis
      by (simp add: gomap_simps)
  next
    case False
    with law obtain l where "lock_refused_on tx l c c1"
      by auto
    from lock_refused_onD(4) [OF this] False True show ?thesis
      by (simp add: gomap_simps)
  qed
next
  case False
  with exec_one_other [OF assms(1) False assms(3)] cleanup_prepares_other [OF False, of c] show ?thesis
    by (cases inc) auto
qed

lemma exec_all_vote_other:
  assumes "ok (es_stateDB e)" and "slots_wf (c_slotLocks c)" and "exec_all G txs done c e = Some (done1, c1, e1)"
    and "x \<notin> tx_CrossShardTxID ` {tx \<in> set txs. tx_TxType tx = TxTypeLock}"
  shows "mget (c_prepares c1) x = mget (c_prepares c) x"
proof -
  let ?P = "\<lambda>_ c' e'. ok (es_stateDB e') \<and> slots_wf (c_slotLocks c') \<and> mget (c_prepares c') x = mget (c_prepares c) x"
  have "?P done1 c1 e1"
  proof (rule exec_all_induct [OF assms(3), where P = ?P])
    fix tx don c' e' inc c2 e2
    assume tx: "tx \<in> set txs" and P: "?P don c' e'" and step: "exec_one G tx c' e' = Some (inc, c2, e2)"
    then have wf: "ok (es_stateDB e')" "slots_wf (c_slotLocks c')"
      by blast+
    have "\<not> (tx_TxType tx = TxTypeLock \<and> x = tx_CrossShardTxID tx)"
      using assms(4) tx by blast
    then show "?P (if inc then don @ [tx] else don) c2 e2"
      using exec_one_ok [OF wf step] exec_one_vote [OF wf step, of x] P by auto
  qed (use assms(1,2) in simp)
  then show ?thesis
    by blast
qed

end

lemma exec_all_done:
  assumes "exec_all G txs done c e = Some (done1, c1, e1)"
  shows "set done \<subseteq> set done1 \<and> set done1 \<subseteq> set done \<union> set txs"
  by (rule exec_all_induct [OF assms, where P = "\<lambda>d _ _. set done \<subseteq> set d \<and> set d \<subseteq> set done \<union> set txs"]) auto

abbreviation lock_ids :: "Transaction list \<Rightarrow> txid list" where
  "lock_ids txs \<equiv> map tx_CrossShardTxID (filter (\<lambda>tx. tx_TxType tx = TxTypeLock) txs)"

context geth_state
begin

lemma exec_all_vote:
  assumes "ok (es_stateDB e)" and "slots_wf (c_slotLocks c)" and "exec_all G txs done c e = Some (done1, c1, e1)"
    and "distinct (lock_ids txs)" and "tx \<in> set txs" and "tx_TxType tx = TxTypeLock" and "tx_CrossShardTxID tx \<noteq> []"
    and "tx \<notin> set done"
  shows "mget (c_prepares c1) (tx_CrossShardTxID tx) = Some (tx \<in> set done1)"
  using assms
proof (induction txs arbitrary: "done" c e)
  case (Cons t txs)
  obtain inc c2 e2 where step: "exec_one G t c e = Some (inc, c2, e2)"
    and rest: "exec_all G txs (if inc then done @ [t] else done) c2 e2 = Some (done1, c1, e1)"
    using Cons.prems(3) by (auto split: option.splits)
  note wf = exec_one_ok [OF Cons.prems(1,2) step]
  show ?case
  proof (cases "tx = t")
    case True
    have fresh: "tx_CrossShardTxID t \<notin> tx_CrossShardTxID ` {tx \<in> set txs. tx_TxType tx = TxTypeLock}"
      using Cons.prems(4,6) True by auto
    have "mget (c_prepares c1) (tx_CrossShardTxID t) = Some inc"
      using exec_all_vote_other [OF wf rest fresh] exec_one_vote [OF Cons.prems(1,2) step, of "tx_CrossShardTxID t"] Cons.prems(6,7) True
      by simp
    moreover have "tx \<notin> set txs"
      using fresh Cons.prems(6) True by blast
    ultimately show ?thesis
      using exec_all_done [OF rest] Cons.prems(8) True by (cases inc) auto
  next
    case False
    show ?thesis
      by (rule Cons.IH [OF wf rest]) (use Cons.prems False in \<open>auto split: if_splits\<close>)
  qed
qed simp

lemma Commit_law:
  "ok (es_stateDB e) \<Longrightarrow> ES_Commit G n e = (Inr root, e1) \<Longrightarrow> ok (es_stateDB e1) \<and> view (es_stateDB e1) = view (es_stateDB e)"
  using commit_new [of "es_stateDB e" n root]
  by (auto simp: ES_Commit_def split: prod.splits sum.splits)

end

lemma ProduceBlock_Inr:
  assumes "ProduceBlock G H now c e = Some (Inr b, c1, e1)"
  obtains c2 e2 root where "exec_all G (sortTransactionsByPriority (c_currentTxs c)) [] c e = Some (sb_TxOrdering b, c2, e2)"
    and "ES_Commit G (c_height c + 1) e2 = (Inr root, e1)" and "chain_frame c c2"
    and "unat (c_height c) < length (c_blocks c)"
    and "sb_ShardID b = c_shardID c" and "sb_Height b = c_height c + 1" and "sb_PrevHash b = H (c_blocks c ! unat (c_height c))"
    and "sb_TpcPrepare b = c_prepares c2"
    and "c1 = c2\<lparr>c_blocks := c_blocks c @ [b], c_height := c_height c + 1, c_currentTxs := [], c_prepareTxs := [], c_prepares := []\<rparr>"
proof -
  obtain d c2 e2 where run: "exec_all G (sortTransactionsByPriority (c_currentTxs c)) [] c e = Some (d, c2, e2)"
    using assms by (auto simp: ProduceBlock_def split: option.splits)
  note frame = exec_all_frame [OF run, unfolded chain_frame_def]
  obtain root where "ES_Commit G (c_height c + 1) e2 = (Inr root, e1)"
    using assms run frame by (auto simp: ProduceBlock_def Let_def split: prod.splits sum.splits if_splits)
  then show thesis
    using that [of c2 e2 root] assms run frame
    by (auto simp: ProduceBlock_def Let_def chain_frame_def split: if_splits)
qed

subsection \<open>The chain of blocks\<close>

definition chain_linked :: "(StateShardBlock \<Rightarrow> hash) \<Rightarrow> Chain \<Rightarrow> bool" where
  "chain_linked H c \<longleftrightarrow> length (c_blocks c) = unat (c_height c) + 1
     \<and> (\<forall>i < length (c_blocks c). unat (sb_Height (c_blocks c ! i)) = i \<and> sb_ShardID (c_blocks c ! i) = c_shardID c
          \<and> (0 < i \<longrightarrow> sb_PrevHash (c_blocks c ! i) = H (c_blocks c ! (i - 1))))"

lemma NewChain_linked: "chain_linked H (NewChain now me)"
  by (simp add: chain_linked_def NewChain_def)

lemma unat_Suc_u64: "unat (h :: u64) + 1 < 2 ^ 64 \<Longrightarrow> unat (h + 1) = unat h + 1"
  by (simp add: unat_word_ariths)

lemma ProduceBlock_linked:
  assumes "chain_linked H c" and "unat (c_height c) + 1 < 2 ^ 64" and "ProduceBlock G H now c e = Some (r, c1, e1)"
  shows "chain_linked H c1"
proof (cases r)
  case (Inl err)
  then have "chain_frame c c1"
    using assms(3) exec_all_frame by (auto simp: ProduceBlock_def Let_def split: option.splits prod.splits sum.splits if_splits)
  with assms(1) show ?thesis
    by (simp add: chain_linked_def chain_frame_def)
next
  case (Inr b)
  obtain c2 where "chain_frame c c2" and b: "sb_ShardID b = c_shardID c" "sb_Height b = c_height c + 1"
      "sb_PrevHash b = H (c_blocks c ! unat (c_height c))"
    and c1: "c1 = c2\<lparr>c_blocks := c_blocks c @ [b], c_height := c_height c + 1, c_currentTxs := [], c_prepareTxs := [], c_prepares := []\<rparr>"
    using assms(3) unfolding Inr by (rule ProduceBlock_Inr)
  have len: "length (c_blocks c) = unat (c_height c) + 1"
    and old: "i < length (c_blocks c) \<Longrightarrow> unat (sb_Height (c_blocks c ! i)) = i \<and> sb_ShardID (c_blocks c ! i) = c_shardID c
          \<and> (0 < i \<longrightarrow> sb_PrevHash (c_blocks c ! i) = H (c_blocks c ! (i - 1)))" for i
    using assms(1) by (auto simp: chain_linked_def)
  have "c_shardID c2 = c_shardID c"
    using \<open>chain_frame c c2\<close> by (simp add: chain_frame_def)
  moreover have "unat (c_height c + 1) = unat (c_height c) + 1"
    by (rule unat_Suc_u64 [OF assms(2)])
  ultimately show ?thesis
    using old b len by (auto simp: chain_linked_def c1 nth_append less_Suc_eq)
qed

subsection \<open>Reserved funds\<close>

text \<open>Every reservation is covered by the balance of its address.\<close>

definition funds_backed :: "ledger \<Rightarrow> FundLocks \<Rightarrow> bool" where
  "funds_backed w l \<longleftrightarrow> funds_wf l \<and> (\<forall>t f. GetLockedFunds l t = Some f \<longrightarrow> 0 \<le> lf_Amount f)
     \<and> (\<forall>a. getLockedAmountForAddrLocked l a \<le> uint (bal w a))"

lemma funds_backed_sto: "bal w1 = bal w \<Longrightarrow> funds_backed w1 l = funds_backed w l"
  by (simp add: funds_backed_def)

lemma locked_part_le:
  assumes "funds_wf l" and "\<forall>t f. GetLockedFunds l t = Some f \<longrightarrow> 0 \<le> lf_Amount f" and "GetLockedFunds l t = Some f"
  shows "lf_Amount f \<le> getLockedAmountForAddrLocked l (lf_Address f)"
proof -
  let ?S = "{t \<in> dom (GetLockedFunds l). lf_Address (the (GetLockedFunds l t)) = lf_Address f}"
  have "lf_Amount (the (GetLockedFunds l t)) \<le> (\<Sum>u \<in> ?S. lf_Amount (the (GetLockedFunds l u)))"
    using assms funds_sum [OF assms(1)] by (intro member_le_sum) auto
  then show ?thesis
    using funds_sum [OF assms(1), of "lf_Address f"] assms(3) by simp
qed

lemma funds_backed_clear:
  assumes "funds_backed w l"
  shows "funds_backed w (clearLockLocked l t)"
proof -
  have wf: "funds_wf l" and pos: "\<And>t f. GetLockedFunds l t = Some f \<Longrightarrow> 0 \<le> lf_Amount f"
    and le: "\<And>a. getLockedAmountForAddrLocked l a \<le> uint (bal w a)"
    using assms by (auto simp: funds_backed_def)
  have "getLockedAmountForAddrLocked (clearLockLocked l t) a \<le> getLockedAmountForAddrLocked l a" for a
    using fl.amount_clear [OF wf, of t a] pos [of t] by (auto split: option.splits)
  with le have "getLockedAmountForAddrLocked (clearLockLocked l t) a \<le> uint (bal w a)" for a
    using order_trans by blast
  with fl.clear_ok [OF wf] pos show ?thesis
    by (simp add: funds_backed_def fl.clear_funds)
qed

lemma funds_backed_lock:
  assumes "funds_backed w l" and "GetLockedFunds l t = None" and "0 \<le> v"
    and "v \<le> uint (bal w a) - getLockedAmountForAddrLocked l a"
  shows "funds_backed w (lockFundsLocked l t a v)"
proof -
  have wf: "funds_wf l"
    using assms(1) by (simp add: funds_backed_def)
  show ?thesis
    using fl.lock_ok [OF wf assms(2)] fl.amount_lock [OF wf assms(2), of a v] assms
    by (auto simp: funds_backed_def fl.lock_funds)
qed

text \<open>Debiting exactly what a transaction has reserved.\<close>

lemma funds_backed_debit:
  assumes "funds_backed w l" and "GetLockedFunds l t = Some f" and "bal w1 = (bal w)(lf_Address f := bal w (lf_Address f) - word_of_int (lf_Amount f))"
  shows "0 \<le> lf_Amount f" and "lf_Amount f \<le> uint (bal w (lf_Address f))" and "funds_backed w1 (clearLockLocked l t)"
proof -
  let ?a = "lf_Address f"
  have wf: "funds_wf l" and pos: "\<forall>t f. GetLockedFunds l t = Some f \<longrightarrow> 0 \<le> lf_Amount f"
    and le: "\<And>a. getLockedAmountForAddrLocked l a \<le> uint (bal w a)"
    using assms(1) by (auto simp: funds_backed_def)
  show f: "0 \<le> lf_Amount f" "lf_Amount f \<le> uint (bal w ?a)"
    using pos assms(2) locked_part_le [OF wf pos assms(2)] le [of ?a] by auto
  have small: "lf_Amount f < 2 ^ 256"
    using f(2) uint_lt2p [of "bal w ?a"] by simp
  with f(1) have "uint (word_of_int (lf_Amount f) :: u256) = lf_Amount f"
    by (simp add: uint_word_of_int take_bit_int_eq_self)
  with f(2) have "uint (bal w1 ?a) = uint (bal w ?a) - lf_Amount f"
    using uint_sub_lem [of "word_of_int (lf_Amount f)" "bal w ?a"] by (simp add: assms(3))
  moreover have "getLockedAmountForAddrLocked (clearLockLocked l t) b
      = getLockedAmountForAddrLocked l b - (if b = ?a then lf_Amount f else 0)" for b
    using fl.amount_clear [OF wf, of t b] assms(2) by auto
  ultimately have "getLockedAmountForAddrLocked (clearLockLocked l t) b \<le> uint (bal w1 b)" for b
    using le [of b] by (cases "b = ?a") (auto simp: assms(3))
  with fl.clear_ok [OF wf] pos show "funds_backed w1 (clearLockLocked l t)"
    by (auto simp: funds_backed_def fl.clear_funds)
qed

text \<open>
  The transactions a shard queues for cross-shard transfers: a debit takes what its transaction has
  reserved, a credit does not overflow, a reservation is made once.
\<close>

definition cross_safe :: "ledger \<Rightarrow> FundLocks \<Rightarrow> Transaction \<Rightarrow> bool" where
  "cross_safe w l tx = (case tx_TxType tx of
     TxTypeLocal \<Rightarrow> False
   | TxTypeCrossDebit \<Rightarrow> tx_CrossShardTxID tx \<noteq> [] \<and> GetLockedFunds l (tx_CrossShardTxID tx)
       = Some \<lparr>lf_Address = tx_From tx, lf_Amount = ToBigInt (tx_Value tx)\<rparr>
   | TxTypeCrossCredit \<Rightarrow> 0 \<le> ToBigInt (tx_Value tx) \<and> uint (bal w (tx_To tx)) + ToBigInt (tx_Value tx) < 2 ^ 256
   | TxTypeLock \<Rightarrow> GetLockedFunds l (tx_CrossShardTxID tx) = None
   | _ \<Rightarrow> True)"

lemma bal_write_ledger [simp]: "bal (write_ledger b items w) = bal w"
proof -
  have "bal (fold (\<lambda>(a, i) w. w\<lparr>sto := (sto w)(a := (sto w a)(ws_Slot i := b (ws_NewValue i)))\<rparr>) items w) = bal w"
    by (induction items arbitrary: w) (auto split: prod.splits)
  then show ?thesis
    by (simp add: write_ledger_def)
qed

lemma funds_backed_credit:
  assumes "funds_backed w l" and "0 \<le> v" and "uint (bal w a) + v < 2 ^ 256"
    and "bal w1 = (bal w)(a := bal w a + word_of_int v)"
  shows "funds_backed w1 l"
proof -
  have "v < 2 ^ 256"
    using assms(2,3) uint_ge_0 [of "bal w a"] by linarith
  with assms(2) have "uint (word_of_int v :: u256) = v"
    by (simp add: uint_word_of_int take_bit_int_eq_self)
  with assms(3) have "uint (bal w1 a) = uint (bal w a) + v"
    using uint_add_lem [of "bal w a" "word_of_int v"] by (simp add: assms(4))
  then have "uint (bal w b) \<le> uint (bal w1 b)" for b
    using assms(2,4) by (cases "b = a") auto
  with assms(1) show ?thesis
    unfolding funds_backed_def using order_trans by blast
qed

lemma cleanup_backed: "funds_backed w (c_funds c) \<Longrightarrow> funds_backed w (c_funds (cleanupAfterExecutionLocked tx c))"
  using funds_backed_clear [of w "c_funds c"]
  by (auto simp: cleanupAfterExecutionLocked_def clearPendingCreditForAddressLocked_def chain_ops
      split: TxType.splits option.splits)

context geth_state
begin

lemma ExecuteTx_backed:
  assumes "ok (es_stateDB e)" and "funds_backed (view (es_stateDB e)) l" and "cross_safe (view (es_stateDB e)) l tx"
    and "tx_TxType tx \<noteq> TxTypeCrossDebit"
  shows "\<exists>r e1. ExecuteTx G tx e = Some (r, e1) \<and> (r = None \<longrightarrow> funds_backed (view (es_stateDB e1)) l)"
proof (cases "tx_TxType tx = TxTypeCrossCredit")
  case True
  let ?v = "ToBigInt (tx_Value tx)"
  have v: "0 \<le> ?v" "uint (bal (view (es_stateDB e)) (tx_To tx)) + ?v < 2 ^ 256"
    using assms(3) True by (simp_all add: cross_safe_def)
  then have "?v < 2 ^ 256"
    using uint_ge_0 [of "bal (view (es_stateDB e)) (tx_To tx)"] by linarith
  then obtain e1 where e1: "Credit G (tx_To tx) ?v e = Some e1" "view (es_stateDB e1) =
      (view (es_stateDB e))\<lparr>bal := (bal (view (es_stateDB e)))(tx_To tx := bal (view (es_stateDB e)) (tx_To tx) + word_of_int ?v)\<rparr>"
    using Credit_law [OF assms(1) v(1), of "tx_To tx"] by blast
  have "funds_backed (view (es_stateDB e1)) l"
    by (rule funds_backed_credit [OF assms(2) v]) (simp add: e1(2))
  with e1(1) True show ?thesis
    by (simp add: ExecuteTx_def)
next
  case False
  have "bal (view (es_stateDB (applyWriteSet G rw e))) = bal (view (es_stateDB e))" for rw
    using applyWriteSet_law [OF assms(1), of rw] by simp
  then have "funds_backed (view (es_stateDB (applyWriteSet G rw e))) l" for rw
    using assms(2) funds_backed_sto by blast
  with False assms(2-4) show ?thesis
    by (auto simp: ExecuteTx_def cross_safe_def split: TxType.splits)
qed

lemma ExecuteTx_debit_backed:
  assumes "ok (es_stateDB e)" and "funds_backed (view (es_stateDB e)) l" and "cross_safe (view (es_stateDB e)) l tx"
    and "tx_TxType tx = TxTypeCrossDebit"
  shows "\<exists>e1. ExecuteTx G tx e = Some (None, e1) \<and> funds_backed (view (es_stateDB e1)) (clearLockLocked l (tx_CrossShardTxID tx))"
proof -
  let ?w = "view (es_stateDB e)" and ?v = "ToBigInt (tx_Value tx)"
  have f: "GetLockedFunds l (tx_CrossShardTxID tx) = Some \<lparr>lf_Address = tx_From tx, lf_Amount = ?v\<rparr>"
    using assms(3,4) by (simp add: cross_safe_def)
  have v: "0 \<le> ?v" "?v \<le> uint (bal ?w (tx_From tx))"
    using funds_backed_debit(1,2) [OF assms(2) f, of "\<lparr>bal = (bal ?w)(tx_From tx := bal ?w (tx_From tx) - word_of_int ?v), sto = sto ?w\<rparr>"]
    by simp_all
  then have "?v < 2 ^ 256"
    using uint_lt2p [of "bal ?w (tx_From tx)"] by simp
  from Debit_law [OF assms(1) v(1) this, of "tx_From tx"] v(2) obtain e1 where "Debit G (tx_From tx) ?v e = Some (None, e1)"
    "view (es_stateDB e1) = ?w\<lparr>bal := (bal ?w)(tx_From tx := bal ?w (tx_From tx) - word_of_int ?v)\<rparr>"
    by auto
  with funds_backed_debit(3) [OF assms(2) f, of "view (es_stateDB e1)"] assms(4) show ?thesis
    by (simp add: ExecuteTx_def)
qed

lemma exec_lock_backed:
  assumes "ok (es_stateDB e)" and "slots_wf (c_slotLocks c)" and "funds_backed (view (es_stateDB e)) (c_funds c)"
    and "GetLockedFunds (c_funds c) (tx_CrossShardTxID tx) = None" and "tx_TxType tx = TxTypeLock"
    and "exec_lock G tx c e = (inc, c1, e1)"
  shows "funds_backed (view (es_stateDB e1)) (c_funds c1)"
proof -
  let ?w = "view (es_stateDB e)"
  let ?l = "if 0 < ToBigInt (tx_Value tx)
    then lockFundsLocked (c_funds c) (tx_CrossShardTxID tx) (tx_From tx) (ToBigInt (tx_Value tx)) else c_funds c"
  note law = exec_lock_law [OF assms(1,2,5,6)]
  have l: "funds_backed ?w ?l" if "funds_ok ?w (c_funds c) tx"
    using assms(3) that funds_backed_lock [OF assms(3,4), of "ToBigInt (tx_Value tx)" "tx_From tx"]
    by (auto simp: funds_ok_def)
  show ?thesis
  proof (cases inc)
    case True
    with law(1,3) have "c_funds c1 = ?l" "funds_ok ?w (c_funds c) tx"
      using lock_granted_onD(2) by auto
    with l sameD(2) [OF law(2)] show ?thesis
      by simp
  next
    case False
    with law(3) have "c_funds c1 = clearLockLocked (if funds_ok ?w (c_funds c) tx then ?l else c_funds c) (tx_CrossShardTxID tx)"
      using lock_refused_onD(2) by auto
    then show ?thesis
      using l assms(3) funds_backed_clear sameD(2) [OF law(2)] by (cases "funds_ok ?w (c_funds c) tx") auto
  qed
qed

lemma exec_one_backed:
  assumes "ok (es_stateDB e)" and "slots_wf (c_slotLocks c)" and "funds_backed (view (es_stateDB e)) (c_funds c)"
    and "cross_safe (view (es_stateDB e)) (c_funds c) tx"
  shows "\<exists>inc c1 e1. exec_one G tx c e = Some (inc, c1, e1) \<and> funds_backed (view (es_stateDB e1)) (c_funds c1)
    \<and> (tx_TxType tx = TxTypeCrossDebit \<longrightarrow> inc)"
proof (cases "tx_TxType tx = TxTypeLock")
  case True
  then show ?thesis
    using exec_lock_backed [OF assms(1-3) _ True] assms(4)
    by (cases "exec_lock G tx c e") (auto simp: exec_one_lock cross_safe_def)
next
  case False
  have free: "checkLocalTxLockConflict tx c = None"
    using assms(4) by (auto simp: checkLocalTxLockConflict_def cross_safe_def)
  obtain n e2 where n: "ES_Snapshot G e = (n, e2)"
    by fastforce
  note e2 = Snapshot_law(1,2) [OF assms(1) n]
  show ?thesis
  proof (cases "tx_TxType tx = TxTypeCrossDebit")
    case True
    with ExecuteTx_debit_backed [OF e2(1), of "c_funds c" tx] assms(3,4) e2(2) obtain e1 where
      "ExecuteTx G tx e2 = Some (None, e1)" "funds_backed (view (es_stateDB e1)) (clearLockLocked (c_funds c) (tx_CrossShardTxID tx))"
      by auto
    with True free n assms(4) show ?thesis
      by (auto simp: exec_one_def cleanupAfterExecutionLocked_def clear_lock_def cross_safe_def)
  next
    case nodebit: False
    with ExecuteTx_backed [OF e2(1), of "c_funds c" tx] assms(3,4) e2(2) obtain r e1 where r: "ExecuteTx G tx e2 = Some (r, e1)"
      and backed: "r = None \<Longrightarrow> funds_backed (view (es_stateDB e1)) (c_funds c)"
      by auto
    then obtain inc c1 e3 where step: "exec_one G tx c e = Some (inc, c1, e3)"
      using free False n by (cases r) (simp_all add: exec_one_def)
    show ?thesis
    proof (cases r)
      case None
      then show ?thesis
        using r backed cleanup_backed [of _ c tx] free False n nodebit by (auto simp: exec_one_def)
    next
      case (Some err)
      then have "\<not> inc"
        using step r free False n by (simp add: exec_one_def)
      then show ?thesis
        using exec_one_other(2) [OF assms(1) False step] step assms(3) nodebit by (auto simp: same_def)
    qed
  qed
qed

end

subsection \<open>Releasing\<close>

abbreviation unlocked :: "txid \<Rightarrow> Chain \<Rightarrow> Chain" where
  "unlocked x c \<equiv> clearAllMetadataLocked x (clearPendingRwSetLocked x (unlock_all_slots x c))"

context geth_state
begin

lemma exec_one_unlock:
  assumes "ok (es_stateDB e)" and "tx_TxType tx = TxTypeUnlock" and "tx_CrossShardTxID tx \<noteq> []"
  shows "\<exists>e1. exec_one G tx c e = Some (True, unlocked (tx_CrossShardTxID tx) c, e1) \<and> ok (es_stateDB e1) \<and> view (es_stateDB e1) = view (es_stateDB e)"
proof -
  obtain n e1 where n: "ES_Snapshot G e = (n, e1)"
    by fastforce
  from Snapshot_law(1,2) [OF assms(1) n] n show ?thesis
    using assms(2,3) by (simp add: exec_one_def checkLocalTxLockConflict_def ExecuteTx_def cleanupAfterExecutionLocked_def Let_def)
qed

end

lemma unlock_slots_law:
  assumes "slots_wf (c_slotLocks c)"
  shows "slots_wf (c_slotLocks (unlocked x c))"
    and "slot_holder (c_slotLocks (unlocked x c)) sk = (if slot_holder (c_slotLocks c) sk = Some x then None else slot_holder (c_slotLocks c) sk)"
  using unlockAll_law [OF assms(1), of x] unlockAll_law [of "unlockAllSlotsForTxLocked (c_slotLocks c) x" x sk]
  by (simp_all add: chain_ops)

subsection \<open>Properties\<close>

definition sample_read :: "RwVariable list" where
  "sample_read = [\<lparr>rw_Address = 2, rw_ReferenceBlock = sample_ref,
     rw_ReadSet = [\<lparr>rs_Slot = 0, rs_Value = [5], rs_Proof = []\<rparr>],
     rw_WriteSet = [\<lparr>ws_Slot = 0, ws_OldValue = [5], ws_NewValue = [6]\<rparr>]\<rparr>]"

definition sample_lock :: Transaction where
  "sample_lock = Transaction_zero\<lparr>tx_ID := ''l'', tx_TxType := TxTypeLock, tx_CrossShardTxID := ''t'', tx_From := 1,
     tx_Value := Some (Some 30), tx_RwSet := sample_read\<rparr>"

definition sample_unlock :: Transaction where
  "sample_unlock = Transaction_zero\<lparr>tx_ID := ''u'', tx_TxType := TxTypeUnlock, tx_CrossShardTxID := ''t''\<rparr>"

definition sample_shard :: Chain where
  "sample_shard = NewChain 0 2"

lemma sample_shard_wf: "slots_wf (c_slotLocks sample_shard)"
  by (simp add: sample_shard_def NewChain_def)

text \<open>C4. The vote on a Lock transaction: it is YES, and the transaction joins the block, exactly if the
  available balance covers its value, its read set shows the current storage and no other transaction
  holds one of its slots. After YES the transaction holds exactly the slots it read on top of what was
  held; after NO it holds none. Locks of others and the state of the shard never change.\<close>

theorem lock_vote_exact:
  assumes "geth_state G ok view saved" and "ok (es_stateDB e)" and "slots_wf (c_slotLocks c)"
    and "tx_TxType tx = TxTypeLock" and "tx_CrossShardTxID tx \<noteq> []" and "exec_one G tx c e = Some (inc, c1, e1)"
  shows "inc = (funds_ok (view (es_stateDB e)) (c_funds c) tx
      \<and> read_set_ok (g_BytesToHash G) (view (es_stateDB e)) (c_slotLocks c) tx)
    \<and> mget (c_prepares c1) (tx_CrossShardTxID tx) = Some inc
    \<and> slot_holder (c_slotLocks c1) sk =
        (if inc \<and> sk \<in> lock_slots tx then Some (tx_CrossShardTxID tx)
         else if \<not> inc \<and> slot_holder (c_slotLocks c) sk = Some (tx_CrossShardTxID tx) then None
         else slot_holder (c_slotLocks c) sk)
    \<and> view (es_stateDB e1) = view (es_stateDB e)"
proof -
  have step: "exec_lock G tx c e = (inc, c1, e1)"
    using assms(6) by (simp add: geth_state.exec_one_lock [OF assms(1,4)])
  note law = geth_state.exec_lock_law [OF assms(1-4) step]
  have "slot_holder (c_slotLocks c1) sk =
      (if inc \<and> sk \<in> lock_slots tx then Some (tx_CrossShardTxID tx)
       else if \<not> inc \<and> slot_holder (c_slotLocks c) sk = Some (tx_CrossShardTxID tx) then None
       else slot_holder (c_slotLocks c) sk)"
    using law(3) lock_granted_onD(3) [of tx _ c c1 sk] lock_refused_onD(3) [of tx _ c c1 sk] by (cases inc) auto
  then show ?thesis
    using law(1) geth_state.sameD(2) [OF assms(1) law(2)] assms(4,5)
      geth_state.exec_one_vote [OF assms(1-3,6), of "tx_CrossShardTxID tx"] by simp
qed

theorem lock_vote_exact_witness:
  "\<exists>c1 e1. exec_one mem_geth sample_lock sample_shard sample_mem = Some (True, c1, e1)
    \<and> mget (c_prepares c1) ''t'' = Some True \<and> slot_holder (c_slotLocks c1) (2, 0) = Some ''t''
    \<and> mem_view (es_stateDB e1) = mem_view (es_stateDB sample_mem)"
proof -
  have "case exec_one mem_geth sample_lock sample_shard sample_mem of Some (inc, _) \<Rightarrow> inc | _ \<Rightarrow> False"
    by code_simp
  then obtain c1 e1 where run: "exec_one mem_geth sample_lock sample_shard sample_mem = Some (True, c1, e1)"
    by (auto split: option.splits)
  have "(2, 0) \<in> lock_slots sample_lock" "tx_TxType sample_lock = TxTypeLock" "tx_CrossShardTxID sample_lock = ''t''"
    by (simp_all add: lock_slots_def sample_lock_def sample_read_def read_items_def item_slots_def Transaction_zero_def)
  with lock_vote_exact [OF mg.geth_state_axioms TrueI sample_shard_wf _ _ run, of "(2, 0)"] run show ?thesis
    by auto
qed



text \<open>C10. The votes of a block are complete and honest: every queued Lock transaction (with its own transaction
  ID) has a vote in the produced block, and the vote is YES exactly if the block contains it.\<close>

theorem block_votes_complete:
  assumes "geth_state G ok view saved" and "ok (es_stateDB e)" and "slots_wf (c_slotLocks c)"
    and "ProduceBlock G H now c e = Some (Inr b, c1, e1)" and "distinct (lock_ids (c_currentTxs c))"
    and "tx \<in> set (c_currentTxs c)" and "tx_TxType tx = TxTypeLock" and "tx_CrossShardTxID tx \<noteq> []"
  shows "mget (sb_TpcPrepare b) (tx_CrossShardTxID tx) = Some (tx \<in> set (sb_TxOrdering b))"
proof -
  let ?txs = "sortTransactionsByPriority (c_currentTxs c)"
  obtain c2 e2 where run: "exec_all G ?txs [] c e = Some (sb_TxOrdering b, c2, e2)" and b: "sb_TpcPrepare b = c_prepares c2"
    using assms(4) by (rule ProduceBlock_Inr)
  have lock: "tx_TxType t = TxTypeLock \<longleftrightarrow> Priority (tx_TxType t) = 3" for t
    by (cases "tx_TxType t") simp_all
  have "filter (\<lambda>tx. tx_TxType tx = TxTypeLock) ?txs = filter (\<lambda>tx. tx_TxType tx = TxTypeLock) (c_currentTxs c)"
    unfolding lock sortTransactionsByPriority_def by (rule sort_key_stable)
  with assms(5-8) geth_state.exec_all_vote [OF assms(1-3) run] b show ?thesis
    by (simp add: sortTransactionsByPriority_def)
qed

theorem block_votes_complete_witness:
  "\<exists>b c1 e1. ProduceBlock mem_geth (\<lambda>_. 0) 9 (AddTx sample_lock sample_shard) sample_mem = Some (Inr b, c1, e1)
    \<and> mget (sb_TpcPrepare b) ''t'' = Some (sample_lock \<in> set (sb_TxOrdering b))"
proof -
  have "case ProduceBlock mem_geth (\<lambda>_. 0) 9 (AddTx sample_lock sample_shard) sample_mem of Some (r, _) \<Rightarrow> \<not> isl r | _ \<Rightarrow> False"
    by code_simp
  then obtain b c1 e1 where run: "ProduceBlock mem_geth (\<lambda>_. 0) 9 (AddTx sample_lock sample_shard) sample_mem = Some (Inr b, c1, e1)"
    by (auto split: option.splits simp: isl_def) (metis sum.exhaust)
  have tx: "tx_TxType sample_lock = TxTypeLock" "tx_CrossShardTxID sample_lock = ''t''" "Transaction_DeepCopy sample_lock = sample_lock"
    by (simp_all add: sample_lock_def Transaction_zero_def Transaction_DeepCopy_eq BigInt_DeepCopy_def)
  have "c_currentTxs (AddTx sample_lock sample_shard) = [sample_lock]" "slots_wf (c_slotLocks (AddTx sample_lock sample_shard))"
    using tx(3) by (simp_all add: AddTx_def sample_shard_def NewChain_def)
  with block_votes_complete [OF mg.geth_state_axioms TrueI _ run, of sample_lock] tx run show ?thesis
    by simp
qed

text \<open>C5. Reserved funds stay covered, and a commit can always debit them: as long as a shard runs the
  transactions of the cross-shard protocol (a debit takes what its transaction reserved, a reservation is
  made once, a credit does not overflow 256 bits), every address keeps at least its reserved amount, and
  no debit fails. Local transactions are outside this statement.\<close>

theorem reservations_backed:
  assumes "geth_state G ok view saved" and "ok (es_stateDB e)" and "slots_wf (c_slotLocks c)"
    and "funds_backed (view (es_stateDB e)) (c_funds c)" and "cross_safe (view (es_stateDB e)) (c_funds c) tx"
  shows "\<exists>inc c1 e1. exec_one G tx c e = Some (inc, c1, e1) \<and> funds_backed (view (es_stateDB e1)) (c_funds c1)
    \<and> (tx_TxType tx = TxTypeCrossDebit \<longrightarrow> inc)"
  using assms by (rule geth_state.exec_one_backed)

theorem reservations_backed_witness:
  "\<exists>inc c1 e1. exec_one mem_geth (Transaction_zero\<lparr>tx_TxType := TxTypeCrossDebit, tx_CrossShardTxID := ''t'', tx_From := 1, tx_Value := Some (Some 30)\<rparr>)
      (LockFunds ''t'' 1 30 sample_shard) sample_mem = Some (inc, c1, e1)
    \<and> funds_backed (mem_view (es_stateDB e1)) (c_funds c1) \<and> inc"
proof -
  let ?tx = "Transaction_zero\<lparr>tx_TxType := TxTypeCrossDebit, tx_CrossShardTxID := ''t'', tx_From := 1, tx_Value := Some (Some 30)\<rparr>"
  let ?c = "LockFunds ''t'' 1 30 sample_shard" and ?w = "mem_view (es_stateDB sample_mem)"
  have "funds_backed ?w FundLocks_empty"
    using funds_wf_empty by (simp add: funds_backed_def GetLockedFunds_def FundLocks_empty_def getLockedAmountForAddrLocked_def)
  moreover have "GetLockedFunds FundLocks_empty ''t'' = None"
    "30 \<le> uint (bal ?w 1) - getLockedAmountForAddrLocked FundLocks_empty 1"
    by (simp_all add: GetLockedFunds_def FundLocks_empty_def getLockedAmountForAddrLocked_def sample_mem_def mem_view_def mgetd_def)
  ultimately have backed: "funds_backed ?w (c_funds ?c)"
    using funds_backed_lock [of ?w FundLocks_empty "''t''" 30 1] by (simp add: LockFunds_def sample_shard_def NewChain_def)
  have "slots_wf (c_slotLocks ?c)" "cross_safe ?w (c_funds ?c) ?tx"
    using sample_shard_wf by (simp_all add: LockFunds_def cross_safe_def Transaction_zero_def fl.lock_funds)
  from reservations_backed [OF mg.geth_state_axioms TrueI this(1) backed this(2)] show ?thesis
    by (simp add: Transaction_zero_def)
qed


text \<open>Blocks of a shard are numbered without gaps and linked by hashes: producing a block keeps the chain
  linked, whether it succeeds or its commit fails, and the index of the last block is always in range.\<close>

lemma shard_blocks_linked:
  assumes "chain_linked H c" and "unat (c_height c) + 1 < 2 ^ 64" and "ProduceBlock G H now c e = Some (r, c1, e1)"
  shows "chain_linked H c1 \<and> (case r of
      Inl err \<Rightarrow> c_blocks c1 = c_blocks c
    | Inr b \<Rightarrow> c_blocks c1 = c_blocks c @ [b] \<and> unat (sb_Height b) = unat (c_height c) + 1 \<and> sb_PrevHash b = H (last (c_blocks c)))"
proof (cases r)
  case (Inl err)
  then have "chain_frame c c1"
    using assms(3) exec_all_frame by (auto simp: ProduceBlock_def Let_def split: option.splits prod.splits sum.splits if_splits)
  with Inl ProduceBlock_linked [OF assms] show ?thesis
    by (simp add: chain_frame_def)
next
  case (Inr b)
  have "last (c_blocks c) = c_blocks c ! unat (c_height c)"
    using assms(1) by (cases "c_blocks c = []") (simp_all add: chain_linked_def last_conv_nth)
  moreover have "sb_Height b = c_height c + 1 \<and> sb_PrevHash b = H (c_blocks c ! unat (c_height c)) \<and> c_blocks c1 = c_blocks c @ [b]"
    using assms(3) unfolding Inr by (rule ProduceBlock_Inr) simp
  ultimately show ?thesis
    using Inr ProduceBlock_linked [OF assms] unat_Suc_u64 [OF assms(2)] by simp
qed

text \<open>The order of execution: sorting by priority permutes the queue, puts smaller priorities first and keeps
  the order of arrival within a priority.\<close>

lemma priority_sort_stable:
  "mset (sortTransactionsByPriority txs) = mset txs
    \<and> sorted (map (\<lambda>tx. Priority (tx_TxType tx)) (sortTransactionsByPriority txs))
    \<and> filter (\<lambda>tx. Priority (tx_TxType tx) = p) (sortTransactionsByPriority txs) = filter (\<lambda>tx. Priority (tx_TxType tx) = p) txs"
  unfolding sortTransactionsByPriority_def by (simp add: sort_key_stable)

text \<open>Unlocking releases everything a transaction holds on the shard and nothing else: afterwards it has no
  slot locks, reserved funds, pending credits, calls or read-write sets; the slots and reservations of
  other transactions and the state of the shard are unchanged.\<close>

lemma unlock_releases_all:
  assumes "geth_state G ok view saved" and "ok (es_stateDB e)" and "slots_wf (c_slotLocks c)"
    and "tx_TxType tx = TxTypeUnlock" and "tx_CrossShardTxID tx = x" and "x \<noteq> []"
  shows "\<exists>c1 e1. exec_one G tx c e = Some (True, c1, e1) \<and> view (es_stateDB e1) = view (es_stateDB e)
    \<and> slot_holder (c_slotLocks c1) sk = (if slot_holder (c_slotLocks c) sk = Some x then None else slot_holder (c_slotLocks c) sk)
    \<and> GetLockedFunds (c_funds c1) = (GetLockedFunds (c_funds c))(x := None)
    \<and> GetPendingCredits c1 = (GetPendingCredits c)(x := None) \<and> GetPendingCall c1 = (GetPendingCall c)(x := None)
    \<and> GetPendingRwSet c1 = (GetPendingRwSet c)(x := None)"
proof -
  obtain e1 where "exec_one G tx c e = Some (True, unlocked x c, e1)" "view (es_stateDB e1) = view (es_stateDB e)"
    using geth_state.exec_one_unlock [OF assms(1,2,4), of c] assms(5,6) by auto
  moreover have "GetLockedFunds (c_funds (unlocked x c)) = (GetLockedFunds (c_funds c))(x := None)"
    by (simp add: fl.clear_funds chain_ops)
  moreover have "GetPendingCredits (unlocked x c) = (GetPendingCredits c)(x := None)"
    "GetPendingCall (unlocked x c) = (GetPendingCall c)(x := None)" "GetPendingRwSet (unlocked x c) = (GetPendingRwSet c)(x := None)"
    by (auto simp: fun_eq_iff GetPendingCredits_def GetPendingCall_def GetPendingRwSet_def gomap_simps chain_ops)
  ultimately show ?thesis
    using unlock_slots_law(2) [OF assms(3), of x sk] by blast
qed

text \<open>C37. A lock can outlive its transaction: when the Lock transaction of a cross-shard transaction and the Unlock
  transaction of its decision wait in the same queue, the Unlock runs first (priority 2 before 3). If the
  Lock is then accepted, the block leaves the transaction holding its slots and funds, with nothing queued
  that would release them.\<close>

theorem unlock_overtakes_lock:
  assumes "geth_state G ok view saved" and "ok (es_stateDB e)" and "slots_wf (c_slotLocks c)"
    and "c_currentTxs c = [lk, ul]" and "tx_TxType lk = TxTypeLock" and "tx_TxType ul = TxTypeUnlock"
    and "tx_CrossShardTxID lk = x" and "tx_CrossShardTxID ul = x" and "x \<noteq> []"
    and "GetLockedFunds (c_funds c) x = None" and "\<forall>sk. slot_holder (c_slotLocks c) sk \<noteq> Some x"
    and "funds_ok (view (es_stateDB e)) (c_funds c) lk"
    and "read_set_ok (g_BytesToHash G) (view (es_stateDB e)) (c_slotLocks c) lk"
    and "ProduceBlock G H now c e = Some (Inr b, c1, e1)"
  shows "(\<forall>sk \<in> lock_slots lk. slot_holder (c_slotLocks c1) sk = Some x)
    \<and> (0 < ToBigInt (tx_Value lk) \<longrightarrow> GetLockedFunds (c_funds c1) x = Some \<lparr>lf_Address = tx_From lk, lf_Amount = ToBigInt (tx_Value lk)\<rparr>)
    \<and> c_currentTxs c1 = []"
proof -
  let ?c = "unlocked x c" and ?w = "view (es_stateDB e)"
  have "sortTransactionsByPriority (c_currentTxs c) = [ul, lk]"
    using assms(4-6) by (simp add: sortTransactionsByPriority_def)
  obtain e2 where ul: "exec_one G ul c e = Some (True, ?c, e2)" "ok (es_stateDB e2)" "view (es_stateDB e2) = ?w"
    using geth_state.exec_one_unlock [OF assms(1,2,6), of c] assms(8,9) by auto
  have funds: "c_funds ?c = c_funds c"
    using clearLock_absent [OF assms(10)] by (simp add: chain_ops)
  have slots: "slots_wf (c_slotLocks ?c)" "slot_holder (c_slotLocks ?c) = slot_holder (c_slotLocks c)"
    using unlock_slots_law [OF assms(3), of x] assms(11) by (auto simp: fun_eq_iff)
  obtain inc c3 e3 where lk: "exec_lock G lk ?c e2 = (inc, c3, e3)"
    by (metis surj_pair)
  note law = geth_state.exec_lock_law [OF assms(1) ul(2) slots(1) assms(5) lk]
  have inc: "inc"
    using law(1) assms(12,13) ul(3) funds slots(2) by (simp add: read_set_ok_def)
  obtain c2 e4 where "exec_all G [ul, lk] [] c e = Some (sb_TxOrdering b, c2, e4)" and c1: "c_slotLocks c1 = c_slotLocks c2" "c_funds c1 = c_funds c2" "c_currentTxs c1 = []"
    using assms(14) \<open>sortTransactionsByPriority (c_currentTxs c) = [ul, lk]\<close> by (elim ProduceBlock_Inr) simp
  then have "c2 = c3"
    using ul(1) lk geth_state.exec_one_lock [OF assms(1,5)] by simp
  moreover have "lock_granted_on lk (if 0 < ToBigInt (tx_Value lk) then lockFundsLocked (c_funds c) x (tx_From lk) (ToBigInt (tx_Value lk)) else c_funds c) ?c c3"
    using law(3) inc unfolding funds assms(7) by simp
  ultimately show ?thesis
    using lock_granted_onD(2,3) [of lk _ ?c c3] c1 assms(7) by (auto simp: fl.lock_funds)
qed

theorem unlock_overtakes_lock_witness:
  "\<exists>b c1 e1. ProduceBlock mem_geth (\<lambda>_. 7) 9 (AddTx sample_unlock (AddTx sample_lock sample_shard)) sample_mem = Some (Inr b, c1, e1)
    \<and> slot_holder (c_slotLocks c1) (2, 0) = Some ''t'' \<and> GetLockedFunds (c_funds c1) ''t'' = Some \<lparr>lf_Address = 1, lf_Amount = 30\<rparr>
    \<and> c_currentTxs c1 = []"
proof -
  let ?c = "AddTx sample_unlock (AddTx sample_lock sample_shard)"
  have "case ProduceBlock mem_geth (\<lambda>_. 7) 9 ?c sample_mem of Some (r, _) \<Rightarrow> \<not> isl r | _ \<Rightarrow> False"
    by code_simp
  then obtain b c1 e1 where run: "ProduceBlock mem_geth (\<lambda>_. 7) 9 ?c sample_mem = Some (Inr b, c1, e1)"
    by (auto split: option.splits simp: isl_def) (metis sum.exhaust)
  note defs = sample_lock_def sample_unlock_def Transaction_zero_def
  have tx: "tx_TxType sample_lock = TxTypeLock" "tx_TxType sample_unlock = TxTypeUnlock"
    "tx_CrossShardTxID sample_lock = ''t''" "tx_CrossShardTxID sample_unlock = ''t''"
    "ToBigInt (tx_Value sample_lock) = 30" "tx_From sample_lock = 1"
    by (simp_all add: defs)
  have c: "c_currentTxs ?c = [sample_lock, sample_unlock]" "c_slotLocks ?c = []" "c_funds ?c = FundLocks_empty"
    by (simp_all add: AddTx_def sample_shard_def NewChain_def Transaction_DeepCopy_eq BigInt_DeepCopy_def defs)
  have funds: "funds_ok (mem_view (es_stateDB sample_mem)) (c_funds ?c) sample_lock" "GetLockedFunds (c_funds ?c) ''t'' = None"
    by (simp_all add: c(3) funds_ok_def tx FundLocks_empty_def getLockedAmountForAddrLocked_def GetLockedFunds_def
        sample_mem_def mem_view_def mgetd_def)
  have reads: "read_set_ok (g_BytesToHash mem_geth) (mem_view (es_stateDB sample_mem)) (c_slotLocks ?c) sample_lock"
    and slot: "(2, 0) \<in> lock_slots sample_lock"
    unfolding c(2)
    by (simp_all add: read_set_ok_def lock_slots_def items_valid_def read_items_def item_slots_def sample_lock_def sample_read_def
        sample_mem_def mem_view_def mgetd_def mem_geth_def bytes_nat_def)
  from unlock_overtakes_lock [OF mg.geth_state_axioms TrueI _ c(1) tx(1-4) _ funds(2) _ funds(1) reads run] run slot tx show ?thesis
    by (simp add: c(2))
qed

text \<open>A failed commit runs the queue again: the error path of \<open>ProduceBlock\<close> keeps the queue but not
  the state before the block. With a database whose commit fails, a transfer of 7 that is produced twice
  takes 14 from the sender.\<close>

lemma failed_commit_repeats:
  "case ProduceBlock (mem_geth\<lparr>g_Commit := (\<lambda>n m. (Inl ''disk full'', m))\<rparr>) (\<lambda>_. 7) 9 (AddTx sample_transfer sample_shard) sample_mem of
     Some (Inl err, c1, e1) \<Rightarrow> c_currentTxs c1 = [sample_transfer] \<and> fst (ES_GetBalance mem_geth 1 e1) = 93
       \<and> (case ProduceBlock mem_geth (\<lambda>_. 7) 10 c1 e1 of
            Some (Inr b, c2, e2) \<Rightarrow> sb_TxOrdering b = [sample_transfer] \<and> fst (ES_GetBalance mem_geth 1 e2) = 86
          | _ \<Rightarrow> False)
   | _ \<Rightarrow> False"
  by code_simp



end
