(* ===== verification/Block_Buffer.thy ===== *)
theory Block_Buffer
  imports Protocol_Types
begin

text \<open>
  The reordering buffer of a state shard (\<open>internal/shard/block_buffer.go\<close>): the next expected
  height, the blocks that arrived ahead of it, and the loop that releases them once the gap is
  filled. Heights are 64-bit words and wrap around. The lemmas give the invariant of the buffer,
  the shape of what one call releases, and the delivery of a whole arrival sequence.
\<close>

record BlockBuffer =
  bb_expected :: u64
  bb_buffered :: "(u64, OrchestratorShardBlock) gomap"
  bb_maxBuffer :: int
  bb_shardID :: int

definition NewBlockBuffer :: "int \<Rightarrow> u64 \<Rightarrow> int \<Rightarrow> BlockBuffer" where
  "NewBlockBuffer shardID startHeight maxBuffer =
     \<lparr>bb_expected = startHeight, bb_buffered = [], bb_maxBuffer = maxBuffer, bb_shardID = shardID\<rparr>"

text \<open>The loop of \<open>ProcessBlock\<close> that drains the buffered successors.\<close>

function drain :: "BlockBuffer \<Rightarrow> OrchestratorShardBlock list
    \<Rightarrow> OrchestratorShardBlock list \<times> BlockBuffer" where
  "drain b result =
     (case mget (bb_buffered b) (bb_expected b) of
        None \<Rightarrow> (result, b)
      | Some next \<Rightarrow>
          drain (b\<lparr>bb_buffered := mdel (bb_expected b) (bb_buffered b),
                   bb_expected := bb_expected b + 1\<rparr>) (result @ [next]))"
  by pat_completeness auto
termination
  by (relation "measure (\<lambda>(b, _). length (bb_buffered b))") (auto simp: length_mdel_less)

declare drain.simps [simp del]

text \<open>The result is the slice that is returned (nil is the empty list) and the new state.\<close>

definition ProcessBlock :: "BlockBuffer \<Rightarrow> OrchestratorShardBlock
    \<Rightarrow> OrchestratorShardBlock list \<times> BlockBuffer" where
  "ProcessBlock b block =
     (if ob_Height block = bb_expected b
      then drain (b\<lparr>bb_expected := bb_expected b + 1\<rparr>) [block]
      else if bb_expected b < ob_Height block then
        (if bb_maxBuffer b \<le> int (length (bb_buffered b)) then ([], b)
         else if mget (bb_buffered b) (ob_Height block) \<noteq> None then ([], b)
         else ([], b\<lparr>bb_buffered := mput (ob_Height block) block (bb_buffered b)\<rparr>))
      else ([], b))"

definition GetExpected :: "BlockBuffer \<Rightarrow> u64" where
  "GetExpected b = bb_expected b"

definition GetBufferedCount :: "BlockBuffer \<Rightarrow> nat" where
  "GetBufferedCount b = length (bb_buffered b)"

definition SetExpected :: "BlockBuffer \<Rightarrow> u64 \<Rightarrow> BlockBuffer" where
  "SetExpected b height = b\<lparr>bb_expected := height\<rparr>"

definition GetBufferedHeights :: "BlockBuffer \<Rightarrow> u64 list" where
  "GetBufferedHeights b = mkeys (bb_buffered b)"

text \<open>A sequence of calls; the released blocks in the order of release.\<close>

fun feed :: "('b \<Rightarrow> 'x \<Rightarrow> 'x list \<times> 'b) \<Rightarrow> 'b \<Rightarrow> 'x list \<Rightarrow> 'x list \<times> 'b" where
  "feed step b [] = ([], b)"
| "feed step b (x # xs) =
     (let (out, b1) = step b x; (outs, b2) = feed step b1 xs in (out @ outs, b2))"

lemma snd_feed_Cons: "snd (feed step b (x # xs)) = snd (feed step (snd (step b x)) xs)"
  by (simp add: Let_def split: prod.splits)

subsection \<open>Interface: an in-order feed\<close>

text \<open>
  What the server relies on: every call releases items whose heights continue the sequence where
  the previous call stopped.
\<close>

locale ordered_feed =
  fixes step :: "'b \<Rightarrow> 'x \<Rightarrow> 'x list \<times> 'b"
    and next_height :: "'b \<Rightarrow> u64"
    and height :: "'x \<Rightarrow> u64"
    and inv :: "'b \<Rightarrow> bool"
  assumes step_inv: "inv b \<Longrightarrow> inv (snd (step b x))"
    and step_next: "inv b \<Longrightarrow> step b x = (out, b') \<Longrightarrow> next_height b' = next_height b + of_nat (length out)"
    and step_heights: "inv b \<Longrightarrow> step b x = (out, b') \<Longrightarrow>
      map height out = map (\<lambda>i. next_height b + of_nat i) [0..<length out]"
begin

lemma feed_inv: "inv b \<Longrightarrow> inv (snd (feed step b xs))"
proof (induction xs arbitrary: b)
  case (Cons x xs)
  then show ?case
    by (simp only: snd_feed_Cons step_inv)
qed simp

lemma feed_heights:
  "inv b \<Longrightarrow> feed step b xs = (out, b') \<Longrightarrow>
     next_height b' = next_height b + of_nat (length out)
     \<and> map height out = map (\<lambda>i. next_height b + of_nat i) [0..<length out]"
proof (induction xs arbitrary: b out)
  case (Cons x xs)
  obtain o1 b1 where p: "step b x = (o1, b1)" by fastforce
  obtain o2 where r: "feed step b1 xs = (o2, b')" and out: "out = o1 @ o2"
    using Cons.prems(2) p by (auto simp: Let_def split: prod.splits)
  have "inv b1"
    using step_inv [OF Cons.prems(1), of x] p by simp
  with Cons.IH r have "next_height b' = next_height b1 + of_nat (length o2)
     \<and> map height o2 = map (\<lambda>i. next_height b1 + of_nat i) [0..<length o2]"
    by blast
  moreover note step_next [OF Cons.prems(1) p] step_heights [OF Cons.prems(1) p]
  ultimately show ?case
    unfolding out by (simp add: map_upt_add add.assoc)
qed simp

text \<open>As long as the heights do not wrap around, the released heights are strictly increasing.\<close>

lemma feed_strict:
  assumes "inv b" and "feed step b xs = (out, b')" and "unat (next_height b) + length out < 2 ^ 64"
  shows "map unat (map height out) = [unat (next_height b)..<unat (next_height b) + length out]"
proof -
  have "map height out = map (\<lambda>i. next_height b + of_nat i) [0..<length out]"
    using feed_heights [OF assms(1,2)] by simp
  moreover have "unat (next_height b + of_nat i) = unat (next_height b) + i" if "i < length out" for i
  proof -
    have "unat (of_nat i :: u64) = i"
      using assms(3) that by (simp add: unsigned_of_nat take_bit_nat_eq_self_iff)
    with assms(3) that show ?thesis
      by (simp add: unat_word_ariths(1))
  qed
  ultimately show ?thesis
    by (auto intro!: nth_equalityI)
qed

end

subsection \<open>Invariant\<close>

definition bb_keyed :: "BlockBuffer \<Rightarrow> bool" where
  "bb_keyed b \<longleftrightarrow> wfmap (bb_buffered b) \<and> (\<forall>(k, x) \<in> set (bb_buffered b). ob_Height x = k)"

definition bb_inv :: "BlockBuffer \<Rightarrow> bool" where
  "bb_inv b \<longleftrightarrow> bb_keyed b \<and> (\<forall>k \<in> set (mkeys (bb_buffered b)). bb_expected b < k)
     \<and> int (length (bb_buffered b)) \<le> max 0 (bb_maxBuffer b)"

lemma bb_inv_New: "bb_inv (NewBlockBuffer sh start m)"
  by (simp add: bb_inv_def bb_keyed_def NewBlockBuffer_def)

lemma bb_keyed_mdel: "bb_keyed b \<Longrightarrow> bb_keyed (b\<lparr>bb_buffered := mdel k (bb_buffered b), bb_expected := e\<rparr>)"
  by (auto simp: bb_keyed_def)

lemma bb_keyed_mget: "bb_keyed b \<Longrightarrow> mget (bb_buffered b) k = Some x \<Longrightarrow> ob_Height x = k"
  by (auto simp: bb_keyed_def dest: map_of_SomeD)

text \<open>Draining: what is appended has the heights from \<open>expected\<close> on, each one higher.\<close>

lemma drain_heights:
  assumes "drain b r = (r', b')" and "bb_keyed b"
  shows "\<exists>d. r' = r @ d \<and> bb_expected b' = bb_expected b + of_nat (length d)
     \<and> map ob_Height d = map (\<lambda>i. bb_expected b + of_nat i) [0..<length d]"
  using assms
proof (induction b r arbitrary: r' b' rule: drain.induct)
  case (1 b r)
  show ?case
  proof (cases "mget (bb_buffered b) (bb_expected b)")
    case None
    with "1.prems" show ?thesis
      by (simp add: drain.simps [of b])
  next
    case (Some x)
    let ?b = "b\<lparr>bb_buffered := mdel (bb_expected b) (bb_buffered b), bb_expected := bb_expected b + 1\<rparr>"
    have "drain ?b (r @ [x]) = (r', b')"
      using "1.prems" Some by (simp add: drain.simps [of b])
    then obtain d where d: "r' = (r @ [x]) @ d" "bb_expected b' = bb_expected ?b + of_nat (length d)"
      "map ob_Height d = map (\<lambda>i. bb_expected ?b + of_nat i) [0..<length d]"
      using "1.IH" [OF Some] bb_keyed_mdel [OF "1.prems"(2)] by blast
    have "map ob_Height (x # d) = map (\<lambda>i. bb_expected b + of_nat i) [0..<length (x # d)]"
      using d(3) bb_keyed_mget [OF "1.prems"(2) Some]
      by (simp add: upt_conv_Cons map_Suc_upt [symmetric] algebra_simps del: upt_Suc)
    with d(1,2) show ?thesis
      by (intro exI [of _ "x # d"]) (simp add: algebra_simps)
  qed
qed

text \<open>Draining keeps the invariant, given that nothing at or below \<open>expected\<close> is left behind.\<close>

lemma drain_inv:
  assumes "drain b r = (r', b')" and "bb_keyed b"
    and "\<forall>k \<in> set (mkeys (bb_buffered b)). bb_expected b \<le> k"
    and "int (length (bb_buffered b)) \<le> max 0 (bb_maxBuffer b)"
  shows "bb_inv b'"
  using assms
proof (induction b r arbitrary: r' b' rule: drain.induct)
  case (1 b r)
  show ?case
  proof (cases "mget (bb_buffered b) (bb_expected b)")
    case None
    then have "\<forall>k \<in> set (mkeys (bb_buffered b)). bb_expected b < k"
      using "1.prems"(3) by (metis map_of_eq_None_iff order_le_imp_less_or_eq set_map)
    with None "1.prems" show ?thesis
      by (simp add: drain.simps [of b] bb_inv_def)
  next
    case (Some x)
    let ?m = "mdel (bb_expected b) (bb_buffered b)"
    let ?b = "b\<lparr>bb_buffered := ?m, bb_expected := bb_expected b + 1\<rparr>"
    have above: "\<forall>k \<in> set (mkeys ?m). bb_expected b < k"
      using "1.prems"(3) by force
    then have "\<forall>k \<in> set (mkeys ?m). bb_expected b + 1 \<le> k"
      by (meson inc_le)
    moreover have "int (length ?m) \<le> max 0 (bb_maxBuffer b)"
      using "1.prems"(4) length_mdel_le [of "bb_expected b" "bb_buffered b"] by linarith
    moreover have "drain ?b (r @ [x]) = (r', b')"
      using "1.prems"(1) Some by (simp add: drain.simps [of b])
    ultimately show ?thesis
      using "1.IH" [OF Some, of r' b'] bb_keyed_mdel [OF "1.prems"(2)] by simp
  qed
qed

lemma drain_config:
  "drain b r = (r', b') \<Longrightarrow> bb_maxBuffer b' = bb_maxBuffer b \<and> bb_shardID b' = bb_shardID b"
proof (induction b r arbitrary: r' b' rule: drain.induct)
  case (1 b r)
  then show ?case
    by (cases "mget (bb_buffered b) (bb_expected b)") (simp_all add: drain.simps [of b])
qed

lemma ProcessBlock_config:
  "bb_maxBuffer (snd (ProcessBlock b x)) = bb_maxBuffer b
   \<and> bb_shardID (snd (ProcessBlock b x)) = bb_shardID b"
proof (cases "ob_Height x = bb_expected b")
  case True
  then show ?thesis
    using drain_config [of "b\<lparr>bb_expected := bb_expected b + 1\<rparr>" "[x]"]
    by (cases "drain (b\<lparr>bb_expected := bb_expected b + 1\<rparr>) [x]") (simp add: ProcessBlock_def)
qed (simp add: ProcessBlock_def)

lemma feed_config:
  "bb_maxBuffer (snd (feed ProcessBlock b xs)) = bb_maxBuffer b
   \<and> bb_shardID (snd (feed ProcessBlock b xs)) = bb_shardID b"
proof (induction xs arbitrary: b)
  case (Cons x xs)
  then show ?case
    by (simp only: snd_feed_Cons ProcessBlock_config simp_thms)
qed simp

lemma ProcessBlock_inv: "bb_inv b \<Longrightarrow> bb_inv (snd (ProcessBlock b x))"
proof (cases "ob_Height x = bb_expected b")
  case True
  assume inv: "bb_inv b"
  obtain r' b' where d: "drain (b\<lparr>bb_expected := bb_expected b + 1\<rparr>) [x] = (r', b')"
    by fastforce
  have "bb_inv b'"
    by (rule drain_inv [OF d]) (use inv in \<open>auto simp: bb_inv_def bb_keyed_def inc_le\<close>)
  with True d show ?thesis
    by (simp add: ProcessBlock_def)
next
  case False
  assume "bb_inv b"
  with False show ?thesis
    by (auto simp: ProcessBlock_def bb_inv_def bb_keyed_def length_mput_absent dest!: in_set_mputD)
qed

subsection \<open>What is released\<close>

lemma ProcessBlock_heights:
  assumes "ProcessBlock b x = (out, b')" and "bb_inv b"
  shows "bb_expected b' = bb_expected b + of_nat (length out)"
    and "map ob_Height out = map (\<lambda>i. bb_expected b + of_nat i) [0..<length out]"
proof -
  have "bb_expected b' = bb_expected b + of_nat (length out)
    \<and> map ob_Height out = map (\<lambda>i. bb_expected b + of_nat i) [0..<length out]"
  proof (cases "ob_Height x = bb_expected b")
    case True
    then have "drain (b\<lparr>bb_expected := bb_expected b + 1\<rparr>) [x] = (out, b')"
      using assms(1) by (simp add: ProcessBlock_def)
    then obtain d where "out = x # d" "bb_expected b' = bb_expected b + 1 + of_nat (length d)"
      "map ob_Height d = map (\<lambda>i. bb_expected b + 1 + of_nat i) [0..<length d]"
      using drain_heights [of "b\<lparr>bb_expected := bb_expected b + 1\<rparr>" "[x]" out b'] assms(2)
      by (auto simp: bb_inv_def bb_keyed_def)
    with True show ?thesis
      by (simp add: upt_conv_Cons map_Suc_upt [symmetric] algebra_simps del: upt_Suc)
  next
    case False
    with assms(1) have "out = [] \<and> bb_expected b' = bb_expected b"
      by (auto simp: ProcessBlock_def split: if_splits)
    then show ?thesis by simp
  qed
  then show "bb_expected b' = bb_expected b + of_nat (length out)"
    and "map ob_Height out = map (\<lambda>i. bb_expected b + of_nat i) [0..<length out]"
    by auto
qed

interpretation buf: ordered_feed ProcessBlock bb_expected ob_Height bb_inv
  by unfold_locales (simp_all add: ProcessBlock_inv ProcessBlock_heights)

subsection \<open>Delivery of a permuted sequence\<close>

text \<open>
  \<open>bs\<close> is the sequence with consecutive heights from \<open>start\<close>; \<open>stored start bs m B\<close> says that
  the map \<open>m\<close> holds exactly the blocks of \<open>bs\<close> whose index is in \<open>B\<close>.
\<close>

definition height_at :: "u64 \<Rightarrow> nat \<Rightarrow> u64" where
  "height_at start i = start + of_nat i"

definition stored :: "u64 \<Rightarrow> OrchestratorShardBlock list \<Rightarrow> (u64, OrchestratorShardBlock) gomap
    \<Rightarrow> nat set \<Rightarrow> bool" where
  "stored start bs m B \<longleftrightarrow> wfmap m \<and> B \<subseteq> {..<length bs}
     \<and> (\<forall>k x. mget m k = Some x \<longleftrightarrow> (\<exists>i \<in> B. k = height_at start i \<and> x = bs ! i))"

lemma unat_height_at:
  assumes "unat start + i < 2 ^ 64"
  shows "unat (height_at start i) = unat start + i"
proof -
  have "unat (of_nat i :: u64) = i"
    using assms by (simp add: unsigned_of_nat take_bit_nat_eq_self_iff)
  with assms show ?thesis
    by (simp add: height_at_def unat_word_ariths(1))
qed

lemma height_at_0: "height_at start 0 = start"
  by (simp add: height_at_def)

lemma height_at_Suc: "height_at start i + 1 = height_at start (Suc i)"
  by (simp add: height_at_def)

lemma height_at_inj:
  assumes "unat start + n < 2 ^ 64" and "i \<le> n" and "j \<le> n"
  shows "height_at start i = height_at start j \<longleftrightarrow> i = j"
proof -
  have "unat (height_at start i) = unat start + i" and "unat (height_at start j) = unat start + j"
    using assms by (simp_all only: unat_height_at)
  then show ?thesis
    by (simp only: word_unat_eq_iff add_left_cancel)
qed

lemma height_at_less:
  assumes "unat start + n < 2 ^ 64" and "i \<le> n" and "j \<le> n"
  shows "height_at start i < height_at start j \<longleftrightarrow> i < j"
proof -
  have "unat (height_at start i) = unat start + i" and "unat (height_at start j) = unat start + j"
    using assms by (simp_all only: unat_height_at)
  then show ?thesis
    by (simp only: word_less_nat_alt add_less_cancel_left)
qed

lemma stored_mget:
  assumes "stored start bs m B" and "unat start + length bs < 2 ^ 64" and "i \<le> length bs"
  shows "mget m (height_at start i) = (if i \<in> B then Some (bs ! i) else None)"
proof (cases "mget m (height_at start i)")
  case None
  then show ?thesis
    using assms(1) by (metis option.discI stored_def)
next
  case (Some x)
  then obtain j where j: "j \<in> B" "height_at start i = height_at start j" "x = bs ! j"
    using assms(1) unfolding stored_def by blast
  then have "j \<le> length bs"
    using assms(1) by (auto simp: stored_def)
  with j have "j = i"
    using height_at_inj [OF assms(2,3)] by blast
  with j Some show ?thesis by simp
qed

lemma stored_height_inj:
  assumes "stored start bs m B" and "unat start + length bs < 2 ^ 64" and "i \<le> length bs" and "j \<in> B"
  shows "height_at start j = height_at start i \<longleftrightarrow> j = i"
proof -
  have "j \<le> length bs"
    using assms(1,4) by (auto simp: stored_def)
  then show ?thesis
    using assms(2,3) by (metis height_at_inj)
qed

lemma stored_mdel:
  assumes "stored start bs m B" and "unat start + length bs < 2 ^ 64" and "i \<le> length bs"
  shows "stored start bs (mdel (height_at start i) m) (B - {i})"
  using assms(1) stored_height_inj [OF assms]
  by (auto simp: stored_def mget_mdel; metis)

lemma stored_mput:
  assumes "stored start bs m B" and "unat start + length bs < 2 ^ 64" and "i < length bs"
  shows "stored start bs (mput (height_at start i) (bs ! i) m) (insert i B)"
  using assms(1,3) stored_height_inj [OF assms(1,2) less_imp_le [OF assms(3)]]
  by (auto simp: stored_def mget_mput; metis)

lemma stored_length:
  assumes "stored start bs m B" and "unat start + length bs < 2 ^ 64"
  shows "length m = card B"
proof -
  have "k \<in> set (mkeys m) \<longleftrightarrow> (\<exists>x. mget m k = Some x)" for k
    using mget_None_iff [of m k] by auto
  also have "\<dots> k \<longleftrightarrow> k \<in> height_at start ` B" for k
    using assms(1) unfolding stored_def by blast
  finally have "set (mkeys m) = height_at start ` B"
    by blast
  moreover have "inj_on (height_at start) B"
    using stored_height_inj [OF assms] assms(1) by (auto simp: inj_on_def stored_def subset_iff less_imp_le)
  moreover have "card (set (mkeys m)) = length m"
    using assms(1) by (metis distinct_card length_map stored_def wfmap_def)
  ultimately show ?thesis
    by (simp add: card_image)
qed

lemma drain_stored:
  assumes "stored start bs (bb_buffered b) B" and "bb_expected b = height_at start e"
    and "e \<le> length bs" and "unat start + length bs < 2 ^ 64"
  shows "\<exists>e' b'. drain b r = (r @ map ((!) bs) [e..<e'], b') \<and> e \<le> e' \<and> e' \<le> length bs
     \<and> {e..<e'} \<subseteq> B \<and> e' \<notin> B \<and> bb_expected b' = height_at start e'
     \<and> stored start bs (bb_buffered b') (B - {e..<e'}) \<and> bb_maxBuffer b' = bb_maxBuffer b"
  using assms(1-3)
proof (induction b r arbitrary: e B rule: drain.induct)
  case (1 b r)
  note get = stored_mget [OF "1.prems"(1) assms(4) "1.prems"(3), folded "1.prems"(2)]
  show ?case
  proof (cases "e \<in> B")
    case False
    with get "1.prems" show ?thesis
      by (intro exI [of _ e]) (simp add: drain.simps [of b])
  next
    case True
    with get have Some: "mget (bb_buffered b) (bb_expected b) = Some (bs ! e)"
      by simp
    let ?b = "b\<lparr>bb_buffered := mdel (bb_expected b) (bb_buffered b), bb_expected := bb_expected b + 1\<rparr>"
    have e: "Suc e \<le> length bs"
      using True "1.prems"(1) by (auto simp: stored_def)
    have "stored start bs (bb_buffered ?b) (B - {e})"
      using stored_mdel [OF "1.prems"(1) assms(4) "1.prems"(3)] "1.prems"(2) by simp
    moreover have "bb_expected ?b = height_at start (Suc e)"
      using "1.prems"(2) by (simp add: height_at_Suc)
    ultimately obtain e' b' where d: "drain ?b (r @ [bs ! e]) = ((r @ [bs ! e]) @ map ((!) bs) [Suc e..<e'], b')"
      "Suc e \<le> e'" "e' \<le> length bs" "{Suc e..<e'} \<subseteq> B - {e}" "e' \<notin> B - {e}"
      "bb_expected b' = height_at start e'" "stored start bs (bb_buffered b') (B - {e} - {Suc e..<e'})"
      "bb_maxBuffer b' = bb_maxBuffer ?b"
      using "1.IH" [OF Some _ _ e, of "B - {e}"] by blast
    have split: "{e..<e'} = insert e {Suc e..<e'}" "[e..<e'] = e # [Suc e..<e']"
      using d(2) by (auto simp: upt_conv_Cons)
    have "drain b r = (r @ map ((!) bs) [e..<e'], b')"
      using d(1) Some by (simp add: drain.simps [of b] split)
    moreover have "B - {e..<e'} = B - {e} - {Suc e..<e'}"
      by (auto simp: split)
    ultimately show ?thesis
      using d(2-8) True by (intro exI [of _ e'] exI [of _ b']) (auto simp: split)
  qed
qed

definition delivered :: "u64 \<Rightarrow> OrchestratorShardBlock list \<Rightarrow> BlockBuffer \<Rightarrow> nat set \<Rightarrow> nat \<Rightarrow> bool" where
  "delivered start bs b A e \<longleftrightarrow> bb_expected b = height_at start e \<and> e \<le> length bs
     \<and> {..<e} \<subseteq> A \<and> e \<notin> A \<and> stored start bs (bb_buffered b) {i \<in> A. e < i}"

lemma ProcessBlock_delivered_next:
  assumes d: "delivered start bs b A e" and i: "i < length bs" "i \<notin> A" "A \<subseteq> {..<length bs}"
    and small: "unat start + length bs < 2 ^ 64"
    and h: "ob_Height (bs ! i) = height_at start i" and at: "i = e"
  shows "\<exists>e' b'. ProcessBlock b (bs ! i) = (map ((!) bs) [e..<e'], b') \<and> e \<le> e'
     \<and> delivered start bs b' (insert i A) e' \<and> bb_maxBuffer b' = bb_maxBuffer b"
proof -
  let ?b = "b\<lparr>bb_expected := bb_expected b + 1\<rparr>"
  have "stored start bs (bb_buffered ?b) {j \<in> A. e < j}" "bb_expected ?b = height_at start (Suc e)"
    using d by (auto simp: delivered_def height_at_Suc)
  then obtain e' b' where e': "drain ?b [bs ! e] = ([bs ! e] @ map ((!) bs) [Suc e..<e'], b')"
    "Suc e \<le> e'" "e' \<le> length bs" "{Suc e..<e'} \<subseteq> {j \<in> A. e < j}" "e' \<notin> {j \<in> A. e < j}"
    "bb_expected b' = height_at start e'" "stored start bs (bb_buffered b') ({j \<in> A. e < j} - {Suc e..<e'})"
    "bb_maxBuffer b' = bb_maxBuffer ?b"
    using drain_stored [OF _ _ Suc_leI [OF i(1) [unfolded at]] small, of ?b] by blast
  have "{j \<in> insert i A. e' < j} = {j \<in> A. e < j} - {Suc e..<e'}"
    using e'(2,5) at by (auto; metis linorder_cases)
  moreover have "{..<e'} \<subseteq> insert i A"
  proof
    fix j assume "j \<in> {..<e'}"
    with e'(4) d at show "j \<in> insert i A"
      by (cases "j < e"; cases "j = e") (auto simp: delivered_def subset_iff)
  qed
  moreover have "ProcessBlock b (bs ! i) = (map ((!) bs) [e..<e'], b')"
    using e'(1,2) at h d by (simp add: ProcessBlock_def delivered_def upt_conv_Cons)
  ultimately show ?thesis
    using e' at by (intro exI [of _ e'] exI [of _ b']) (auto simp: delivered_def)
qed

lemma ProcessBlock_delivered_ahead:
  assumes d: "delivered start bs b A e" and i: "i < length bs" "i \<notin> A" "A \<subseteq> {..<length bs}"
    and cap: "int (length bs) \<le> bb_maxBuffer b + 1" and small: "unat start + length bs < 2 ^ 64"
    and h: "ob_Height (bs ! i) = height_at start i" and ne: "i \<noteq> e"
  shows "\<exists>e' b'. ProcessBlock b (bs ! i) = (map ((!) bs) [e..<e'], b') \<and> e \<le> e'
     \<and> delivered start bs b' (insert i A) e' \<and> bb_maxBuffer b' = bb_maxBuffer b"
proof -
  have "\<not> i < e"
    using d i(2) by (auto simp: delivered_def)
  then have "e < i"
    using ne by simp
  have e: "e \<le> length bs" and st: "stored start bs (bb_buffered b) {j \<in> A. e < j}"
    using d by (auto simp: delivered_def)
  have "{j \<in> A. e < j} \<subseteq> {Suc e..<length bs} - {i}"
    using i by auto
  then have "card {j \<in> A. e < j} \<le> card ({Suc e..<length bs} - {i})"
    by (intro card_mono) auto
  also have "\<dots> < length bs - Suc e"
    using \<open>e < i\<close> i(1) by simp
  finally have room: "int (length (bb_buffered b)) < bb_maxBuffer b"
    using stored_length [OF st small] cap by linarith
  have "bb_expected b < ob_Height (bs ! i)"
    using height_at_less [OF small e, of i] \<open>e < i\<close> i(1) h d by (simp add: delivered_def)
  moreover have "mget (bb_buffered b) (ob_Height (bs ! i)) = None"
    using stored_mget [OF st small, of i] i h by simp
  moreover have "{j \<in> insert i A. e < j} = insert i {j \<in> A. e < j}"
    using \<open>e < i\<close> by auto
  ultimately show ?thesis
    using stored_mput [OF st small i(1)] room d ne h
    by (intro exI [of _ e]) (auto simp: ProcessBlock_def delivered_def)
qed

lemma ProcessBlock_delivered:
  assumes d: "delivered start bs b A e" and i: "i < length bs" "i \<notin> A" "A \<subseteq> {..<length bs}"
    and cap: "int (length bs) \<le> bb_maxBuffer b + 1" and small: "unat start + length bs < 2 ^ 64"
    and h: "ob_Height (bs ! i) = height_at start i"
  shows "\<exists>e' b'. ProcessBlock b (bs ! i) = (map ((!) bs) [e..<e'], b') \<and> e \<le> e'
     \<and> delivered start bs b' (insert i A) e' \<and> bb_maxBuffer b' = bb_maxBuffer b"
  using ProcessBlock_delivered_next [OF d i small h] ProcessBlock_delivered_ahead [OF d i cap small h] by blast

lemma feed_delivered:
  assumes "delivered start bs b A e" and "distinct is" and "set is \<inter> A = {}"
    and "set is \<subseteq> {..<length bs}" and "A \<subseteq> {..<length bs}"
    and "int (length bs) \<le> bb_maxBuffer b + 1" and small: "unat start + length bs < 2 ^ 64"
    and h: "\<forall>i < length bs. ob_Height (bs ! i) = height_at start i"
  shows "\<exists>e' b'. feed ProcessBlock b (map ((!) bs) is) = (map ((!) bs) [e..<e'], b') \<and> e \<le> e'
     \<and> delivered start bs b' (A \<union> set is) e'"
  using assms(1-6)
proof (induction "is" arbitrary: b A e)
  case Nil
  then show ?case by (intro exI [of _ e]) simp
next
  case (Cons i "is")
  have i: "i < length bs" "i \<notin> A"
    using Cons.prems by auto
  then obtain e1 b1 where s: "ProcessBlock b (bs ! i) = (map ((!) bs) [e..<e1], b1)" "e \<le> e1"
    "delivered start bs b1 (insert i A) e1" "bb_maxBuffer b1 = bb_maxBuffer b"
    using ProcessBlock_delivered [OF Cons.prems(1) i Cons.prems(5,6) small] h by blast
  have "distinct is" "set is \<inter> insert i A = {}" "set is \<subseteq> {..<length bs}"
    "insert i A \<subseteq> {..<length bs}" "int (length bs) \<le> bb_maxBuffer b1 + 1"
    using Cons.prems s(4) i by auto
  from Cons.IH [OF s(3) this] obtain e' b' where
    r: "feed ProcessBlock b1 (map ((!) bs) is) = (map ((!) bs) [e1..<e'], b')" "e1 \<le> e'"
    "delivered start bs b' (insert i A \<union> set is) e'" by blast
  have "[e..<e'] = [e..<e1] @ [e1..<e']"
    using upt_add_eq_append [OF s(2), of "e' - e1"] r(2) by simp
  with s r show ?case
    by (intro exI [of _ e'] exI [of _ b']) simp
qed

lemma delivered_complete:
  assumes "delivered start bs b {..<length bs} e"
  shows "e = length bs" and "bb_buffered b = []" and "bb_expected b = height_at start (length bs)"
proof -
  show e: "e = length bs"
    using assms by (auto simp: delivered_def)
  have "mget (bb_buffered b) k \<noteq> Some x" for k x
    using assms e by (auto simp: delivered_def stored_def)
  then have "set (mkeys (bb_buffered b)) = {}"
    by (metis equals0I mget_None_iff not_None_eq)
  then show "bb_buffered b = []"
    by simp
  show "bb_expected b = height_at start (length bs)"
    using assms e by (simp add: delivered_def)
qed

text \<open>An arrival order is a duplicate-free list of indices into the sequence.\<close>

lemma arrival_indices:
  assumes "mset xs = mset bs" and h: "\<forall>i < length bs. ob_Height (bs ! i) = height_at start i"
    and small: "unat start + length bs < 2 ^ 64"
  obtains "is" where "xs = map ((!) bs) is" and "distinct is" and "set is = {..<length bs}"
proof -
  have inj: "bs ! i = bs ! j \<longleftrightarrow> i = j" if "i < length bs" "j < length bs" for i j
    using h height_at_inj [OF small, of i j] that by (metis less_imp_le)
  then have "distinct bs"
    by (auto simp: distinct_conv_nth)
  then have d: "distinct xs"
    using assms(1) by (metis mset_eq_imp_distinct_iff)
  have sets: "set xs = set bs"
    using assms(1) by (metis set_mset_mset)
  define ix where "ix x = (SOME i. i < length bs \<and> bs ! i = x)" for x
  have ix: "ix x < length bs" "bs ! ix x = x" if "x \<in> set bs" for x
    using someI_ex [of "\<lambda>i. i < length bs \<and> bs ! i = x"] that
    by (auto simp: ix_def in_set_conv_nth)
  have "xs = map ((!) bs) (map ix xs)"
    unfolding map_map comp_def using ix(2) sets by (intro map_idI [symmetric]) simp
  moreover have "distinct (map ix xs)"
    using d ix sets by (auto simp: distinct_map inj_on_def) metis
  moreover have "set (map ix xs) = {..<length bs}"
  proof -
    have "ix (bs ! i) = i" if "i < length bs" for i
      using ix [of "bs ! i"] inj that by simp
    then have "{..<length bs} \<subseteq> ix ` set bs"
      by (metis image_eqI lessThan_iff nth_mem subsetI)
    with ix sets show ?thesis
      by auto
  qed
  ultimately show thesis
    by (rule that)
qed

subsection \<open>Properties of the buffer\<close>

text \<open>Every call keeps the invariant of the buffer: buffered blocks are filed under their own
  height, all of them are ahead of the expected height, and there are at most \<open>maxBuffer\<close>.\<close>

lemma buffer_invariant:
  "bb_inv b \<Longrightarrow> bb_inv (snd (ProcessBlock b block))"
  by (rule ProcessBlock_inv)

definition sample_block :: "u64 \<Rightarrow> OrchestratorShardBlock" where
  "sample_block h = \<lparr>ob_Height = h, ob_PrevHash = 0, ob_Timestamp = 0, ob_TpcResult = [], ob_CtToOrder = []\<rparr>"

text \<open>C17. In-order, exactly-once release: whatever arrives, in whatever order and with whatever
  repetitions, the heights released by a new buffer are the consecutive heights from the start
  height on, as long as the 64-bit height does not overflow.\<close>

theorem buffer_in_order:
  assumes "feed ProcessBlock (NewBlockBuffer sh start maxB) arrivals = (out, b')"
    and "unat start + length out < 2 ^ 64"
  shows "map (\<lambda>x. unat (ob_Height x)) out = [unat start..<unat start + length out]"
  using buf.feed_strict [OF bb_inv_New assms(1)] assms(2)
  by (simp add: NewBlockBuffer_def comp_def)

theorem buffer_in_order_witness:
  "map (\<lambda>x. unat (ob_Height x)) (fst (feed ProcessBlock (NewBlockBuffer 0 1 100)
     [sample_block 2, sample_block 1, sample_block 1])) = [1, 2]"
proof -
  have "feed ProcessBlock (NewBlockBuffer 0 1 100) [sample_block 2, sample_block 1, sample_block 1]
    = ([sample_block 1, sample_block 2], NewBlockBuffer 0 3 100)"
    by (simp add: ProcessBlock_def NewBlockBuffer_def sample_block_def drain.simps)
  then show ?thesis
    using buffer_in_order [of 0 1 100 "[sample_block 2, sample_block 1, sample_block 1]"]
    by (simp add: upt_rec)
qed

text \<open>C18. Completeness: if the blocks of consecutive heights all arrive, in any order, and all but
  one of them fit the buffer, then all of them are released in the order of their heights and
  nothing stays behind.\<close>

theorem buffer_delivers_any_order:
  assumes "mset arrivals = mset bs"
    and "\<forall>i < length bs. ob_Height (bs ! i) = start + of_nat i"
    and "unat start + length bs < 2 ^ 64" and "int (length bs) \<le> maxB + 1"
  shows "feed ProcessBlock (NewBlockBuffer sh start maxB) arrivals =
    (bs, NewBlockBuffer sh (start + of_nat (length bs)) maxB)"
proof -
  have h: "\<forall>i < length bs. ob_Height (bs ! i) = height_at start i"
    using assms(2) by (simp add: height_at_def)
  obtain "is" where arr: "arrivals = map ((!) bs) is" "distinct is" "set is = {..<length bs}"
    using arrival_indices [OF assms(1) h assms(3)] .
  have new: "delivered start bs (NewBlockBuffer sh start maxB) {} 0"
    "int (length bs) \<le> bb_maxBuffer (NewBlockBuffer sh start maxB) + 1"
    using assms(4) by (simp_all add: delivered_def NewBlockBuffer_def height_at_0 stored_def)
  obtain e' b' where
    r: "feed ProcessBlock (NewBlockBuffer sh start maxB) arrivals = (map ((!) bs) [0..<e'], b')"
    and d: "delivered start bs b' {..<length bs} e'"
    using feed_delivered [OF new(1) arr(2) _ _ _ new(2) assms(3) h] arr by auto
  have "bb_maxBuffer b' = maxB \<and> bb_shardID b' = sh"
    using feed_config [of "NewBlockBuffer sh start maxB" arrivals] r by (simp add: NewBlockBuffer_def)
  with delivered_complete [OF d] have "b' = NewBlockBuffer sh (start + of_nat (length bs)) maxB"
    by (simp add: NewBlockBuffer_def height_at_def)
  with r delivered_complete(1) [OF d] show ?thesis
    by (simp add: map_nth)
qed

theorem buffer_delivers_any_order_witness:
  "feed ProcessBlock (NewBlockBuffer 0 1 100) [sample_block 3, sample_block 1, sample_block 2]
     = ([sample_block 1, sample_block 2, sample_block 3], NewBlockBuffer 0 4 100)"
  using buffer_delivers_any_order [of "[sample_block 3, sample_block 1, sample_block 2]"
      "[sample_block 1, sample_block 2, sample_block 3]" 1 100 0]
  by (simp add: All_less_Suc numeral_3_eq_3 sample_block_def)

end
