(* ===== verification/Receipts.thy ===== *)
theory Receipts
  imports Protocol_Types
begin

text \<open>
  The receipts of transactions sent through the JSON-RPC interface (\<open>internal/shard/receipt.go\<close>): a
  map from transaction hash to receipt, which stores and returns copies. A log entry is given by its
  encoding; the bloom filter is never set by the sources and is kept as a list of bytes.
\<close>

record Receipt =
  rc_TxHash :: hash
  rc_TransactionIndex :: u64
  rc_BlockHash :: hash
  rc_BlockNumber :: "int option"
  rc_From :: address
  rc_To :: "address option"
  rc_CumulativeGasUsed :: u64
  rc_GasUsed :: u64
  rc_ContractAddress :: "address option"
  rc_Logs :: "byte list option list"
  rc_LogsBloom :: "byte list"
  rc_Status :: u64
  rc_ReturnData :: "byte list"

type_synonym ReceiptStore = "(hash, Receipt) gomap"

definition NewReceiptStore :: ReceiptStore where
  "NewReceiptStore = []"

definition Receipt_DeepCopy :: "Receipt \<Rightarrow> Receipt" where
  "Receipt_DeepCopy r =
     \<lparr>rc_TxHash = rc_TxHash r, rc_TransactionIndex = rc_TransactionIndex r, rc_BlockHash = rc_BlockHash r,
      rc_BlockNumber = (case rc_BlockNumber r of None \<Rightarrow> None | Some bn \<Rightarrow> Some bn), rc_From = rc_From r,
      rc_To = (case rc_To r of None \<Rightarrow> None | Some to \<Rightarrow> Some to),
      rc_CumulativeGasUsed = rc_CumulativeGasUsed r, rc_GasUsed = rc_GasUsed r,
      rc_ContractAddress = (case rc_ContractAddress r of None \<Rightarrow> None | Some ca \<Rightarrow> Some ca),
      rc_Logs = map (\<lambda>log. case log of None \<Rightarrow> None | Some l \<Rightarrow> Some (map (\<lambda>b. b) l)) (rc_Logs r),
      rc_LogsBloom = rc_LogsBloom r, rc_Status = rc_Status r, rc_ReturnData = map (\<lambda>b. b) (rc_ReturnData r)\<rparr>"

definition AddReceipt :: "Receipt \<Rightarrow> ReceiptStore \<Rightarrow> ReceiptStore" where
  "AddReceipt r s = mput (rc_TxHash r) (Receipt_DeepCopy r) s"

definition GetReceipt :: "ReceiptStore \<Rightarrow> hash \<Rightarrow> Receipt option" where
  "GetReceipt s h = (case mget s h of None \<Rightarrow> None | Some r \<Rightarrow> Some (Receipt_DeepCopy r))"

lemma option_copy [simp]: "(case x of None \<Rightarrow> None | Some y \<Rightarrow> Some y) = x"
  by (cases x) simp_all

lemma Receipt_DeepCopy_id [simp]: "Receipt_DeepCopy r = r"
  by (simp add: Receipt_DeepCopy_def cong: option.case_cong)

lemma GetReceipt_AddReceipt:
  "GetReceipt (AddReceipt r s) h = (if h = rc_TxHash r then Some r else GetReceipt s h)"
  by (simp add: GetReceipt_def AddReceipt_def gomap_simps)

end
