(* ===== verification/EVM_Proof.thy ===== *)
theory EVM_Proof
  imports EVM_State
begin

text \<open>
  Storage values with Merkle proofs (\<open>GetStorageWithProof\<close> and its helpers in
  \<open>internal/shard/evm.go\<close>). The tries of go-ethereum are a parameter: opening a trie at a root,
  walking it (\<open>tries_Prove\<close> gives the nodes it hands to the collector, in order, and an error),
  reading a value, decoding the storage root of an account, and Keccak hashes.
\<close>

record 't tries =
  tries_OpenState :: "hash \<Rightarrow> string + 't"
  tries_OpenStorage :: "hash \<Rightarrow> hash \<Rightarrow> hash \<Rightarrow> string + 't"
  tries_Prove :: "'t \<Rightarrow> byte list \<Rightarrow> (byte list \<times> byte list) list \<times> string option"
  tries_Get :: "'t \<Rightarrow> byte list \<Rightarrow> string + byte list"
  tries_AccountRoot :: "byte list \<Rightarrow> hash option"
  tries_EmptyRoot :: hash
  tries_Keccak :: "byte list \<Rightarrow> byte list"
  tries_KeccakHash :: "byte list \<Rightarrow> hash"
  tries_AddrBytes :: "address \<Rightarrow> byte list"

record StorageProofResponse =
  sp_Address :: address
  sp_Slot :: hash
  sp_Value :: hash
  sp_StateRoot :: hash
  sp_BlockHeight :: u64
  sp_AccountProof :: "byte list list"
  sp_StorageProof :: "byte list list"

text \<open>The collector keeps a copy of every value it is given.\<close>

definition collector_Put :: "byte list \<times> byte list \<Rightarrow> byte list list \<Rightarrow> byte list list" where
  "collector_Put kv nodes = nodes @ [snd kv]"

definition collect :: "(byte list \<times> byte list) list \<Rightarrow> byte list list" where
  "collect puts = fold collector_Put puts []"

definition getAccountProof :: "'t tries \<Rightarrow> hash \<Rightarrow> address \<Rightarrow> string + byte list list \<times> hash" where
  "getAccountProof T stateRoot addr =
     (case tries_OpenState T stateRoot of
        Inl err \<Rightarrow> Inl (''failed to open state trie: '' @ err)
      | Inr tr \<Rightarrow>
          let accountKey = tries_Keccak T (tries_AddrBytes T addr) in
          case tries_Prove T tr accountKey of
            (puts, Some err) \<Rightarrow> Inl (''failed to prove account: '' @ err)
          | (puts, None) \<Rightarrow>
              Inr (collect puts,
                case tries_Get T tr accountKey of
                  Inl _ \<Rightarrow> tries_EmptyRoot T
                | Inr accountData \<Rightarrow>
                    if 0 < length accountData
                    then (case tries_AccountRoot T accountData of None \<Rightarrow> tries_EmptyRoot T | Some root \<Rightarrow> root)
                    else tries_EmptyRoot T))"

definition getStorageProof :: "'s geth \<Rightarrow> 't tries \<Rightarrow> address \<Rightarrow> hash \<Rightarrow> hash \<Rightarrow> 's EVMState
    \<Rightarrow> (string + byte list list) \<times> 's EVMState" where
  "getStorageProof G T addr storageRoot slot e =
     (if storageRoot = 0 \<or> storageRoot = tries_EmptyRoot T then (Inr [], e)
      else let (root, e1) = GetStateRoot G e in
        (case tries_OpenStorage T root (tries_KeccakHash T (tries_AddrBytes T addr)) storageRoot of
           Inl err \<Rightarrow> Inl (''failed to open storage trie: '' @ err)
         | Inr tr \<Rightarrow>
             (case tries_Prove T tr (tries_Keccak T (g_HashBytes G slot)) of
                (puts, Some err) \<Rightarrow> Inl (''failed to prove storage slot: '' @ err)
              | (puts, None) \<Rightarrow> Inr (collect puts)), e1))"

definition GetStorageWithProof :: "'s geth \<Rightarrow> 't tries \<Rightarrow> address \<Rightarrow> hash \<Rightarrow> 's EVMState
    \<Rightarrow> (string + StorageProofResponse) \<times> 's EVMState" where
  "GetStorageWithProof G T addr slot e0 =
     (let (stateRoot, e1) = GetStateRoot G e0;
          (v, e2) = GetStorageAt G addr slot e1
      in case getAccountProof T stateRoot addr of
           Inl err \<Rightarrow> (Inl (''failed to generate account proof: '' @ err), e2)
         | Inr (accountProof, storageRoot) \<Rightarrow>
             (case getStorageProof G T addr storageRoot slot e2 of
                (Inl err, e3) \<Rightarrow> (Inl (''failed to generate storage proof: '' @ err), e3)
              | (Inr storageProof, e3) \<Rightarrow>
                  (Inr \<lparr>sp_Address = addr, sp_Slot = slot, sp_Value = v, sp_StateRoot = stateRoot,
                     sp_BlockHeight = es_blockNum e3, sp_AccountProof = accountProof, sp_StorageProof = storageProof\<rparr>, e3)))"

lemma collect_nodes: "collect puts = map snd puts"
proof -
  have "fold collector_Put puts nodes = nodes @ map snd puts" for nodes
    by (induction puts arbitrary: nodes) (simp_all add: collector_Put_def)
  then show ?thesis
    by (simp add: collect_def)
qed

end
