(* ===== verification/Shard_Server.thy ===== *)
theory Shard_Server
  imports Shard_Chain Block_Buffer Receipts EVM_Proof
begin

text \<open>
  The server of a state shard (\<open>internal/shard/server.go\<close>): its state, the processing of orchestrator
  blocks (queueing Lock, debit, credit, write and Unlock transactions), the block producer and the
  recovery after a crash. The HTTP handlers are in the next theory.

  The outside world is the parameter \<open>E\<close>: go-ethereum, its hex conversions, the generator of UUIDs
  (its n-th value), the answers of other servers (to the n-th request that is sent), and the hash of a
  block. A response carries its body as decoded at the type the caller asks for (a JSON object is \<open>None\<close> if
  it is null). The server keeps the
  list of the requests it has sent. Printing to the log is left out.
\<close>

subsection \<open>The environment\<close>

datatype json = JsNull | JS string | JB bool | JN int | JL "json list" | JO "(string \<times> json) list"

record SetCodeRequest =
  sc_Address :: string
  sc_Code :: string
  sc_Storage :: "(string, string) gomap"

datatype payload = NoBody | BlockBody StateShardBlock | TxBody CrossShardTx | SetCodeBody SetCodeRequest

record http_request =
  rq_method :: string
  rq_url :: string
  rq_body :: payload

record http_response =
  rp_status :: nat
  rp_latest :: "string + u64"
  rp_block :: "string + OrchestratorShardBlock"
  rp_object :: "string + (string, json) gomap option"

record 's env =
  en_geth :: "'s geth"
  en_HexToAddress :: "string \<Rightarrow> address"
  en_HexToHash :: "string \<Rightarrow> hash"
  en_FromHex :: "string \<Rightarrow> byte list"
  en_addrHex :: "address \<Rightarrow> string"
  en_hashHex :: "hash \<Rightarrow> string"
  en_Bytes2Hex :: "byte list \<Rightarrow> string"
  en_uuid :: "nat \<Rightarrow> string"
  en_http :: "nat \<Rightarrow> http_request \<Rightarrow> string + http_response"
  en_blockHash :: "StateShardBlock \<Rightarrow> hash"

definition NumShards :: int where
  "NumShards = 8"

definition MaxBlockBuffer :: int where
  "MaxBlockBuffer = 100"

definition shard_of :: "address \<Rightarrow> int" where
  "shard_of addr = int (last_byte addr) mod NumShards"

subsection \<open>The server\<close>

text \<open>\<open>sv_evmMu\<close> tells whether the mutex of the EVM state is held; \<open>sv_done\<close> is the channel that stops the block
  producer: nil, open or closed; \<open>sv_closed\<close> is the guard \<open>closeOnce\<close>.\<close>

record 's Server =
  sv_shardID :: int
  sv_evmState :: "'s EVMState"
  sv_evmMu :: bool
  sv_chain :: Chain
  sv_orchestrator :: string
  sv_receipts :: ReceiptStore
  sv_blockBuffer :: BlockBuffer
  sv_uuids :: nat
  sv_sent :: "http_request list"
  sv_done :: "bool option"
  sv_closed :: bool

definition http_do :: "'s env \<Rightarrow> http_request \<Rightarrow> 's Server \<Rightarrow> (string + http_response) \<times> 's Server" where
  "http_do E rq s = (en_http E (length (sv_sent s)) rq, s\<lparr>sv_sent := sv_sent s @ [rq]\<rparr>)"

definition new_uuid :: "'s env \<Rightarrow> 's Server \<Rightarrow> string \<times> 's Server" where
  "new_uuid E s = (en_uuid E (sv_uuids s), s\<lparr>sv_uuids := sv_uuids s + 1\<rparr>)"

text \<open>\<open>s.chain.AddTx\<close> of a transaction with a new UUID as its ID.\<close>

definition add_tx :: "'s env \<Rightarrow> Transaction \<Rightarrow> 's Server \<Rightarrow> 's Server" where
  "add_tx E tx s = (case new_uuid E s of (uuid, s1) \<Rightarrow>
     s1\<lparr>sv_chain := AddTx (tx\<lparr>tx_ID := uuid\<rparr>) (sv_chain s1)\<rparr>)"

subsection \<open>Processing an orchestrator block\<close>

definition cross_tx :: "TxType \<Rightarrow> txid \<Rightarrow> Transaction" where
  "cross_tx ty txID = Transaction_zero\<lparr>tx_TxType := ty, tx_CrossShardTxID := txID, tx_IsCrossShard := True\<rparr>"

definition local_rw_set :: "int \<Rightarrow> RwVariable list \<Rightarrow> RwVariable list" where
  "local_rw_set me rwSet = map RwVariable_DeepCopy (filter (\<lambda>rw. ShardNum (rw_ReferenceBlock rw) = me) rwSet)"

definition queue_debit :: "'s env \<Rightarrow> txid \<Rightarrow> 's Server \<Rightarrow> 's Server" where
  "queue_debit E txID s =
     (case GetLockedFunds (c_funds (sv_chain s)) txID of
        None \<Rightarrow> s
      | Some lock \<Rightarrow> add_tx E ((cross_tx TxTypeCrossDebit txID)
          \<lparr>tx_From := lf_Address lock, tx_Value := NewBigInt (Some (lf_Amount lock))\<rparr>) s)"

definition queue_credits :: "'s env \<Rightarrow> txid \<Rightarrow> 's Server \<Rightarrow> 's Server" where
  "queue_credits E txID s =
     (case GetPendingCredits (sv_chain s) txID of
        None \<Rightarrow> s
      | Some credits \<Rightarrow> fold (\<lambda>credit. add_tx E ((cross_tx TxTypeCrossCredit txID)
          \<lparr>tx_To := pc_Address credit, tx_Value := NewBigInt (Some (pc_Amount credit))\<rparr>)) credits s)"

definition queue_write_set :: "'s env \<Rightarrow> txid \<Rightarrow> 's Server \<Rightarrow> 's Server" where
  "queue_write_set E txID s =
     (case GetPendingCall (sv_chain s) txID of
        None \<Rightarrow> s
      | Some pendingCall \<Rightarrow>
          let localRwSet = local_rw_set (sv_shardID s) (ct_RwSet pendingCall)
          in if 0 < length localRwSet
             then add_tx E ((cross_tx TxTypeCrossWriteSet txID)\<lparr>tx_RwSet := localRwSet\<rparr>) s else s)"

definition queue_finalize :: "'s env \<Rightarrow> txid \<Rightarrow> 's Server \<Rightarrow> 's Server" where
  "queue_finalize E txID s =
     (case GetPendingRwSet (sv_chain s) txID of
        None \<Rightarrow> s
      | Some rwSet \<Rightarrow>
          if 0 < length rwSet then add_tx E ((cross_tx TxTypeFinalize txID)\<lparr>tx_RwSet := rwSet\<rparr>) s else s)"

definition has_data :: "Chain \<Rightarrow> txid \<Rightarrow> bool" where
  "has_data c txID \<longleftrightarrow> GetLockedFunds (c_funds c) txID \<noteq> None \<or> GetPendingCredits c txID \<noteq> None
     \<or> GetPendingCall c txID \<noteq> None \<or> GetPendingRwSet c txID \<noteq> None"

text \<open>The body of the first loop: a decision of the orchestrator.\<close>

definition process_result :: "'s env \<Rightarrow> txid \<times> bool \<Rightarrow> 's Server \<Rightarrow> 's Server" where
  "process_result E r s0 =
     (let (txID, committed) = r;
          (fresh, c) = CheckAndMarkCommitProcessed txID (sv_chain s0);
          s = s0\<lparr>sv_chain := c\<rparr>
      in if \<not> fresh then s
         else let s1 = (if committed
                    then queue_finalize E txID (queue_write_set E txID (queue_credits E txID (queue_debit E txID s)))
                    else if has_data (sv_chain s) txID then add_tx E (cross_tx TxTypeCrossAbort txID) s
                    else s)
              in add_tx E (cross_tx TxTypeUnlock txID) s1)"

definition store_credit :: "CrossShardTx \<Rightarrow> 's Server \<Rightarrow> 's Server" where
  "store_credit tx s =
     (if 0 < ToBigInt (ct_Value tx) \<and> shard_of (ct_To tx) = sv_shardID s
      then s\<lparr>sv_chain := StorePendingCredit (ct_ID tx) (ct_To tx) (ToBigInt (ct_Value tx)) (sv_chain s)\<rparr> else s)"

text \<open>The body of the second loop: a transaction to order.\<close>

definition process_order :: "'s env \<Rightarrow> CrossShardTx \<Rightarrow> 's Server \<Rightarrow> 's Server" where
  "process_order E tx s =
     (let localRwSet = local_rw_set (sv_shardID s) (ct_RwSet tx);
          lock = (cross_tx TxTypeLock (ct_ID tx))\<lparr>tx_From := ct_From tx, tx_To := ct_To tx, tx_RwSet := localRwSet\<rparr>
      in if ct_FromShard tx = sv_shardID s
         then add_tx E (lock\<lparr>tx_Value := ct_Value tx\<rparr>) (store_credit tx s)
         else if 0 < length localRwSet
         then let s1 = store_credit tx s;
                  s2 = (if 0 < length (ct_Data tx) then s1\<lparr>sv_chain := StorePendingCall tx (sv_chain s1)\<rparr> else s1)
              in add_tx E lock s2
         else s)"

definition processOrchestratorBlock :: "'s env \<Rightarrow> OrchestratorShardBlock \<Rightarrow> 's Server \<Rightarrow> 's Server" where
  "processOrchestratorBlock E block s =
     (if ob_Height block \<le> GetLastOrchestratorHeight (sv_chain s) then s
      else let s1 = fold (process_result E) (ob_TpcResult block) s;
               s2 = fold (process_order E) (ob_CtToOrder block) s1
           in s2\<lparr>sv_chain := SetLastOrchestratorHeight (ob_Height block) (sv_chain s2)\<rparr>)"

subsection \<open>Recovery and block production\<close>

definition get_request :: "string \<Rightarrow> http_request" where
  "get_request url = \<lparr>rq_method = ''GET'', rq_url = url, rq_body = NoBody\<rparr>"

definition post_request :: "string \<Rightarrow> payload \<Rightarrow> http_request" where
  "post_request url body = \<lparr>rq_method = ''POST'', rq_url = url, rq_body = body\<rparr>"

text \<open>The result is an error, no block (not found) or the block.\<close>

definition fetchOrchestratorBlock :: "'s env \<Rightarrow> u64 \<Rightarrow> 's Server \<Rightarrow> (string + OrchestratorShardBlock option) \<times> 's Server" where
  "fetchOrchestratorBlock E height s =
     (let url = sv_orchestrator s @ ''/block/'' @ show_nat (unat height);
          (r, s1) = http_do E (get_request url) s
      in (case r of
            Inl err \<Rightarrow> Inl (''HTTP request failed: '' @ err)
          | Inr resp \<Rightarrow>
              if rp_status resp = 404 then Inr None
              else if rp_status resp \<noteq> 200 then Inl (''unexpected status '' @ show_nat (rp_status resp))
              else (case rp_block resp of
                      Inl err \<Rightarrow> Inl (''decode failed: '' @ err)
                    | Inr block \<Rightarrow> Inr (Some block)), s1))"

definition recover_step :: "'s env \<Rightarrow> u64 \<Rightarrow> 's Server \<Rightarrow> 's Server" where
  "recover_step E height s =
     (case fetchOrchestratorBlock E height s of
        (Inl err, s1) \<Rightarrow> s1
      | (Inr None, s1) \<Rightarrow> s1
      | (Inr (Some block), s1) \<Rightarrow> processOrchestratorBlock E block s1)"

text \<open>The \<open>for\<close> loop over the missed heights; \<open>None\<close> if it does not end.\<close>

partial_function (option) recover_loop :: "'s env \<Rightarrow> u64 \<Rightarrow> u64 \<Rightarrow> 's Server \<Rightarrow> 's Server option" where
  "recover_loop E height orchestratorHeight s =
     (if height \<le> orchestratorHeight
      then recover_loop E (height + 1) orchestratorHeight (recover_step E height s)
      else Some s)"

declare recover_loop.simps [code]

definition recoverFromOrchestrator :: "'s env \<Rightarrow> 's Server \<Rightarrow> 's Server option" where
  "recoverFromOrchestrator E s =
     (if sv_orchestrator s = [] then Some s
      else let lastHeight = GetLastOrchestratorHeight (sv_chain s);
               (r, s1) = http_do E (get_request (sv_orchestrator s @ ''/block/latest'')) s
           in case r of
                Inl err \<Rightarrow> Some s1
              | Inr resp \<Rightarrow>
                  if rp_status resp \<noteq> 200 then Some s1
                  else (case rp_latest resp of
                     Inl err \<Rightarrow> Some s1
                   | Inr orchestratorHeight \<Rightarrow>
                       if orchestratorHeight \<le> lastHeight then Some s1
                       else recover_loop E (lastHeight + 1) orchestratorHeight s1))"

text \<open>\<open>persistent\<close> and \<open>memory\<close> are the results of \<open>NewEVMState\<close> and \<open>NewMemoryEVMState\<close>.\<close>

definition NewServerForTest :: "u64 \<Rightarrow> (string + 's EVMState) \<Rightarrow> (string + 's EVMState) \<Rightarrow> int \<Rightarrow> string \<Rightarrow> 's Server option" where
  "NewServerForTest now persistent memory shardID orchestratorURL =
     map_option (\<lambda>evmState.
       \<lparr>sv_shardID = shardID, sv_evmState = evmState, sv_evmMu = False, sv_chain = NewChain now shardID,
        sv_orchestrator = orchestratorURL, sv_receipts = NewReceiptStore,
        sv_blockBuffer = NewBlockBuffer shardID 1 MaxBlockBuffer, sv_uuids = 0, sv_sent = [], sv_done = None, sv_closed = False\<rparr>)
     (case persistent of
        Inr e \<Rightarrow> Some e
      | Inl err \<Rightarrow> (case memory of Inr e \<Rightarrow> Some e | Inl err \<Rightarrow> None))"

text \<open>The block producer of the new server runs as \<open>producer_tick\<close> below.\<close>

definition NewServer :: "'s env \<Rightarrow> u64 \<Rightarrow> (string + 's EVMState) \<Rightarrow> (string + 's EVMState) \<Rightarrow> int \<Rightarrow> string \<Rightarrow> 's Server option" where
  "NewServer E now persistent memory shardID orchestratorURL =
     Option.bind (NewServerForTest now persistent memory shardID orchestratorURL) (\<lambda>s. recoverFromOrchestrator E (s\<lparr>sv_done := Some False\<rparr>))"

definition server_ProduceBlock :: "'s env \<Rightarrow> u64 \<Rightarrow> 's Server \<Rightarrow> ((string + StateShardBlock) \<times> 's Server) option" where
  "server_ProduceBlock E now s =
     (case ProduceBlock (en_geth E) (en_blockHash E) now (sv_chain s) (sv_evmState s) of
        None \<Rightarrow> None
      | Some (r, c, e) \<Rightarrow> Some (r, s\<lparr>sv_chain := c, sv_evmState := e\<rparr>))"

definition sendBlockToOrchestratorShard :: "'s env \<Rightarrow> StateShardBlock \<Rightarrow> 's Server \<Rightarrow> 's Server" where
  "sendBlockToOrchestratorShard E block s =
     snd (http_do E (post_request (sv_orchestrator s @ ''/state-shard/block'') (BlockBody block)) s)"

text \<open>One tick of \<open>blockProducer\<close>.\<close>

definition producer_tick :: "'s env \<Rightarrow> u64 \<Rightarrow> 's Server \<Rightarrow> 's Server option" where
  "producer_tick E now s =
     (case server_ProduceBlock E now s of
        None \<Rightarrow> None
      | Some (Inl err, s1) \<Rightarrow> Some s1
      | Some (Inr block, s1) \<Rightarrow> Some (sendBlockToOrchestratorShard E block s1))"

text \<open>The producer can leave its loop once the channel is closed; a tick that is due then may still come first.\<close>

definition producer_done :: "'s Server \<Rightarrow> bool" where
  "producer_done s \<longleftrightarrow> sv_done s = Some True"

definition Server_Close :: "'s Server \<Rightarrow> 's Server" where
  "Server_Close s = (if sv_closed s then s else s\<lparr>sv_closed := True, sv_done := map_option (\<lambda>_. True) (sv_done s)\<rparr>)"

lemma Server_Close_once:
  "Server_Close (Server_Close s) = Server_Close s"
  "\<not> sv_closed s \<Longrightarrow> producer_done (Server_Close s) \<longleftrightarrow> sv_done s \<noteq> None"
  by (auto simp: Server_Close_def producer_done_def)

text \<open>\<open>handleOrchestratorShardBlock\<close> on a decoded block: \<open>True\<close> stands for the status ``ok'', \<open>False\<close> for
  ``buffered''.\<close>

definition receive_block :: "'s env \<Rightarrow> OrchestratorShardBlock \<Rightarrow> 's Server \<Rightarrow> bool \<times> 's Server" where
  "receive_block E block s =
     (let (blocksToProcess, b) = ProcessBlock (sv_blockBuffer s) block;
          s1 = s\<lparr>sv_blockBuffer := b\<rparr>
      in if blocksToProcess = [] then (False, s1)
         else (True, fold (processOrchestratorBlock E) blocksToProcess s1))"

subsection \<open>What processing a block queues\<close>

abbreviation queue :: "'s Server \<Rightarrow> Transaction list" where
  "queue s \<equiv> c_currentTxs (sv_chain s)"

lemma add_tx_queue:
  "queue (add_tx E tx s) = queue s @ [Transaction_DeepCopy (tx\<lparr>tx_ID := en_uuid E (sv_uuids s)\<rparr>)]"
  by (simp add: add_tx_def new_uuid_def AddTx_def)

lemma add_tx_frame [simp]:
  "c_funds (sv_chain (add_tx E tx s)) = c_funds (sv_chain s)"
  "c_pendingCredits (sv_chain (add_tx E tx s)) = c_pendingCredits (sv_chain s)"
  "c_pendingCalls (sv_chain (add_tx E tx s)) = c_pendingCalls (sv_chain s)"
  "c_pendingRwSets (sv_chain (add_tx E tx s)) = c_pendingRwSets (sv_chain s)"
  "c_slotLocks (sv_chain (add_tx E tx s)) = c_slotLocks (sv_chain s)"
  "c_processedCommits (sv_chain (add_tx E tx s)) = c_processedCommits (sv_chain s)"
  "c_lastOrchestratorHeight (sv_chain (add_tx E tx s)) = c_lastOrchestratorHeight (sv_chain s)"
  "sv_shardID (add_tx E tx s) = sv_shardID s" "sv_evmState (add_tx E tx s) = sv_evmState s"
  "sv_blockBuffer (add_tx E tx s) = sv_blockBuffer s"
  by (simp_all add: add_tx_def new_uuid_def AddTx_def)

text \<open>
  \<open>queues P s s1\<close>: going from \<open>s\<close> to \<open>s1\<close> only adds transactions satisfying \<open>P\<close> to the queue; the records
  that decide what is queued stay the same.
\<close>

definition queues :: "(Transaction \<Rightarrow> bool) \<Rightarrow> 's Server \<Rightarrow> 's Server \<Rightarrow> bool" where
  "queues P s s1 \<longleftrightarrow> (\<exists>new. queue s1 = queue s @ new \<and> (\<forall>tx \<in> set new. P tx))
     \<and> c_processedCommits (sv_chain s1) = c_processedCommits (sv_chain s)
     \<and> c_lastOrchestratorHeight (sv_chain s1) = c_lastOrchestratorHeight (sv_chain s)
     \<and> sv_blockBuffer s1 = sv_blockBuffer s \<and> sv_evmState s1 = sv_evmState s"

lemma queues_refl [simp]: "queues P s s"
  by (simp add: queues_def)

lemma queues_trans:
  assumes "queues P s s1" and "queues P s1 s2"
  shows "queues P s s2"
proof -
  obtain new1 new2 where "queue s1 = queue s @ new1" "queue s2 = queue s1 @ new2"
    "\<forall>tx \<in> set new1. P tx" "\<forall>tx \<in> set new2. P tx"
    using assms unfolding queues_def by blast
  then have "\<exists>new. queue s2 = queue s @ new \<and> (\<forall>tx \<in> set new. P tx)"
    by (intro exI [of _ "new1 @ new2"]) auto
  with assms show ?thesis
    by (simp add: queues_def)
qed

lemma queues_fold: "(\<And>x s. x \<in> set xs \<Longrightarrow> queues P s (f x s)) \<Longrightarrow> queues P s (fold f xs s)"
  by (induction xs arbitrary: s) (auto intro: queues_trans)

lemma add_tx_queues: "P (Transaction_DeepCopy (tx\<lparr>tx_ID := en_uuid E (sv_uuids s)\<rparr>)) \<Longrightarrow> queues P s (add_tx E tx s)"
  by (simp add: queues_def add_tx_queue)

abbreviation decision_of :: "txid \<Rightarrow> Transaction \<Rightarrow> bool" where
  "decision_of x tx \<equiv> tx_CrossShardTxID tx = x \<and> tx_TxType tx \<noteq> TxTypeLock"

lemma commit_queues:
  "queues (decision_of x) s (queue_debit E x s)" "queues (decision_of x) s (queue_credits E x s)"
  "queues (decision_of x) s (queue_write_set E x s)" "queues (decision_of x) s (queue_finalize E x s)"
proof -
  note defs = cross_tx_def Transaction_DeepCopy_eq
  show "queues (decision_of x) s (queue_debit E x s)"
    by (auto simp: queue_debit_def defs intro!: add_tx_queues split: option.splits)
  show "queues (decision_of x) s (queue_credits E x s)"
    by (auto simp: queue_credits_def defs intro!: queues_fold add_tx_queues split: option.splits)
  show "queues (decision_of x) s (queue_write_set E x s)"
    by (auto simp: queue_write_set_def defs Let_def intro!: add_tx_queues split: option.splits)
  show "queues (decision_of x) s (queue_finalize E x s)"
    by (auto simp: queue_finalize_def defs intro!: add_tx_queues split: option.splits)
qed

lemma process_result_queues:
  "queues (decision_of x) (s\<lparr>sv_chain := snd (CheckAndMarkCommitProcessed x (sv_chain s))\<rparr>) (process_result E (x, b) s)"
proof -
  let ?s = "s\<lparr>sv_chain := snd (CheckAndMarkCommitProcessed x (sv_chain s))\<rparr>"
  have one: "queues (decision_of x) s1 (add_tx E (cross_tx ty x) s1)" if "ty \<noteq> TxTypeLock" for s1 ty
    by (rule add_tx_queues) (simp add: cross_tx_def Transaction_DeepCopy_eq that)
  have commit: "queues (decision_of x) s1
      (queue_finalize E x (queue_write_set E x (queue_credits E x (queue_debit E x s1))))" for s1
    by (rule queues_trans [OF queues_trans [OF queues_trans [OF commit_queues(1,2)] commit_queues(3)] commit_queues(4)])
  obtain fresh c where c: "CheckAndMarkCommitProcessed x (sv_chain s) = (fresh, c)"
    by fastforce
  show ?thesis
  proof (cases fresh)
    case True
    let ?s1 = "if b then queue_finalize E x (queue_write_set E x (queue_credits E x (queue_debit E x ?s)))
      else if has_data (sv_chain ?s) x then add_tx E (cross_tx TxTypeCrossAbort x) ?s else ?s"
    have "process_result E (x, b) s = add_tx E (cross_tx TxTypeUnlock x) ?s1"
      using True c by (simp add: process_result_def)
    moreover have "queues (decision_of x) ?s ?s1"
      using commit [of ?s] one [of TxTypeCrossAbort ?s] by (cases b; cases "has_data (sv_chain ?s) x") simp_all
    ultimately show ?thesis
      using queues_trans [OF _ one [of TxTypeUnlock]] by simp
  qed (use c in \<open>simp add: process_result_def\<close>)
qed

lemma process_order_queues:
  "queues (\<lambda>t. tx_TxType t = TxTypeLock \<and> tx_CrossShardTxID t = ct_ID tx) s (process_order E tx s)"
proof -
  let ?P = "\<lambda>t. tx_TxType t = TxTypeLock \<and> tx_CrossShardTxID t = ct_ID tx"
  let ?lock = "(cross_tx TxTypeLock (ct_ID tx))\<lparr>tx_From := ct_From tx, tx_To := ct_To tx,
    tx_RwSet := local_rw_set (sv_shardID s) (ct_RwSet tx)\<rparr>"
  let ?s1 = "store_credit tx s"
  let ?s2 = "if 0 < length (ct_Data tx) then ?s1\<lparr>sv_chain := StorePendingCall tx (sv_chain ?s1)\<rparr> else ?s1"
  have "queues ?P s ?s1"
    by (simp add: queues_def store_credit_def StorePendingCredit_def)
  moreover from this have "queues ?P s ?s2"
    by (simp add: queues_def StorePendingCall_def)
  moreover have "queues ?P s' (add_tx E (?lock\<lparr>tx_Value := ct_Value tx\<rparr>) s')" "queues ?P s' (add_tx E ?lock s')" for s'
    by (simp_all add: queues_def add_tx_queue cross_tx_def Transaction_DeepCopy_eq)
  ultimately have "queues ?P s (add_tx E (?lock\<lparr>tx_Value := ct_Value tx\<rparr>) ?s1)" "queues ?P s (add_tx E ?lock ?s2)"
    using queues_trans by blast+
  then show ?thesis
    by (simp add: process_order_def Let_def)
qed

text \<open>Decisions are applied once.\<close>

lemma process_result_decisions:
  assumes "IsCommitProcessed (sv_chain s) x"
  shows "IsCommitProcessed (sv_chain (process_result E r s)) x
    \<and> filter (decision_of x) (queue (process_result E r s)) = filter (decision_of x) (queue s)"
proof -
  obtain y b where r: "r = (y, b)"
    by (cases r)
  show ?thesis
  proof (cases "y = x")
    case True
    with assms show ?thesis
      by (simp add: r process_result_def CheckAndMarkCommitProcessed_def IsCommitProcessed_def)
  next
    case False
    have "IsCommitProcessed (snd (CheckAndMarkCommitProcessed y (sv_chain s))) x"
      "c_currentTxs (snd (CheckAndMarkCommitProcessed y (sv_chain s))) = queue s"
      using assms by (simp_all add: CheckAndMarkCommitProcessed_def IsCommitProcessed_def gomap_simps)
    with False process_result_queues [of y s E b] show ?thesis
      by (auto simp: r queues_def IsCommitProcessed_def filter_empty_conv)
  qed
qed

lemma process_order_decisions:
  "IsCommitProcessed (sv_chain (process_order E tx s)) x = IsCommitProcessed (sv_chain s) x"
  "filter (decision_of x) (queue (process_order E tx s)) = filter (decision_of x) (queue s)"
  using process_order_queues [of tx s E] by (auto simp: queues_def IsCommitProcessed_def filter_empty_conv)

lemma fold_process_result_decisions:
  "IsCommitProcessed (sv_chain s) x \<Longrightarrow> IsCommitProcessed (sv_chain (fold (process_result E) rs s)) x
    \<and> filter (decision_of x) (queue (fold (process_result E) rs s)) = filter (decision_of x) (queue s)"
proof (induction rs arbitrary: s)
  case (Cons r rs)
  show ?case
    using Cons.IH [of "process_result E r s"] process_result_decisions [OF Cons.prems, of E r] by simp
qed simp

lemma fold_process_order_decisions:
  "IsCommitProcessed (sv_chain (fold (process_order E) txs s)) x = IsCommitProcessed (sv_chain s) x
    \<and> filter (decision_of x) (queue (fold (process_order E) txs s)) = filter (decision_of x) (queue s)"
  by (induction txs arbitrary: s) (simp_all add: process_order_decisions)

lemma process_block_decisions:
  assumes "IsCommitProcessed (sv_chain s) x"
  shows "IsCommitProcessed (sv_chain (processOrchestratorBlock E b s)) x
    \<and> filter (decision_of x) (queue (processOrchestratorBlock E b s)) = filter (decision_of x) (queue s)"
  using fold_process_result_decisions [OF assms, of E "ob_TpcResult b"]
    fold_process_order_decisions [of E "ob_CtToOrder b" "fold (process_result E) (ob_TpcResult b) s" x] assms
  by (simp add: processOrchestratorBlock_def SetLastOrchestratorHeight_def Let_def) (simp add: IsCommitProcessed_def)

subsection \<open>Executing a decision\<close>

text \<open>All transactions of a list join the block.\<close>

definition all_run :: "'s geth \<Rightarrow> Transaction list \<Rightarrow> Chain \<Rightarrow> 's EVMState \<Rightarrow> Chain \<Rightarrow> 's EVMState \<Rightarrow> bool" where
  "all_run G txs c e c1 e1 \<longleftrightarrow> (\<forall>done. exec_all G txs done c e = Some (done @ txs, c1, e1))"

lemma exec_all_append:
  "exec_all G (xs @ ys) done c e =
     Option.bind (exec_all G xs done c e) (\<lambda>(done1, c1, e1). exec_all G ys done1 c1 e1)"
  by (induction xs arbitrary: "done" c e) (auto split: option.splits)

lemma all_run_Nil: "all_run G [] c e c e"
  by (simp add: all_run_def)

lemma all_run_one: "exec_one G tx c e = Some (True, c1, e1) \<Longrightarrow> all_run G [tx] c e c1 e1"
  by (simp add: all_run_def)

lemma all_run_append: "all_run G xs c e c1 e1 \<Longrightarrow> all_run G ys c1 e1 c2 e2 \<Longrightarrow> all_run G (xs @ ys) c e c2 e2"
  by (simp add: all_run_def exec_all_append)

text \<open>Clean-up on behalf of one transaction takes locks away from this transaction only.\<close>

definition loses :: "txid \<Rightarrow> Chain \<Rightarrow> Chain \<Rightarrow> bool" where
  "loses x c c1 \<longleftrightarrow> slots_wf (c_slotLocks c1)
     \<and> (\<forall>sk. slot_holder (c_slotLocks c1) sk = slot_holder (c_slotLocks c) sk
          \<or> slot_holder (c_slotLocks c) sk = Some x \<and> slot_holder (c_slotLocks c1) sk = None)
     \<and> (\<forall>y. y \<noteq> x \<longrightarrow> GetLockedFunds (c_funds c1) y = GetLockedFunds (c_funds c) y)"

lemma losesD:
  assumes "loses x c c1"
  shows "slots_wf (c_slotLocks c1)"
    and "slot_holder (c_slotLocks c1) sk = slot_holder (c_slotLocks c) sk
      \<or> slot_holder (c_slotLocks c) sk = Some x \<and> slot_holder (c_slotLocks c1) sk = None"
    and "y \<noteq> x \<Longrightarrow> GetLockedFunds (c_funds c1) y = GetLockedFunds (c_funds c) y"
  using assms unfolding loses_def by blast+

lemma loses_refl: "slots_wf (c_slotLocks c) \<Longrightarrow> loses x c c"
  by (simp add: loses_def)

lemma loses_trans:
  assumes "loses x c c1" and "loses x c1 c2"
  shows "loses x c c2"
  unfolding loses_def
proof (intro conjI allI impI)
  show "slot_holder (c_slotLocks c2) sk = slot_holder (c_slotLocks c) sk
      \<or> slot_holder (c_slotLocks c) sk = Some x \<and> slot_holder (c_slotLocks c2) sk = None" for sk
    using losesD(2) [OF assms(1), of sk] losesD(2) [OF assms(2), of sk] by auto
qed (use losesD(1,3) [OF assms(2)] losesD(3) [OF assms(1)] in auto)

lemma loses_ops:
  assumes "loses x c c1"
  shows "loses x c (clear_lock x c1)" "loses x c (unlock_all_slots x c1)" "loses x c (clearPendingRwSetLocked x c1)"
    "loses x c (clearPendingCallLocked x c1)" "loses x c (clearPendingCreditLocked x c1)"
    "loses x c (clearPendingCreditForAddressLocked x a c1)" "loses x c (c1\<lparr>c_prepares := p\<rparr>)"
proof -
  have wf: "slots_wf (c_slotLocks c1)"
    by (rule losesD(1) [OF assms])
  have "loses x c1 (clear_lock x c1)" "loses x c1 (unlock_all_slots x c1)" "loses x c1 (clearPendingRwSetLocked x c1)"
    "loses x c1 (clearPendingCallLocked x c1)" "loses x c1 (clearPendingCreditLocked x c1)"
    "loses x c1 (clearPendingCreditForAddressLocked x a c1)" "loses x c1 (c1\<lparr>c_prepares := p\<rparr>)"
    using wf unlockAll_law [OF wf, of x]
    by (auto simp: loses_def clear_lock_def unlock_all_slots_def clearPendingRwSetLocked_def clearPendingCallLocked_def
        clearPendingCreditLocked_def clearPendingCreditForAddressLocked_def fl.clear_funds Let_def split: option.splits)
  then show "loses x c (clear_lock x c1)" "loses x c (unlock_all_slots x c1)" "loses x c (clearPendingRwSetLocked x c1)"
    "loses x c (clearPendingCallLocked x c1)" "loses x c (clearPendingCreditLocked x c1)"
    "loses x c (clearPendingCreditForAddressLocked x a c1)" "loses x c (c1\<lparr>c_prepares := p\<rparr>)"
    using loses_trans [OF assms] by blast+
qed

lemma loses_clear_all: "loses x c c1 \<Longrightarrow> loses x c (clearAllMetadataLocked x c1)"
  unfolding clearAllMetadataLocked_def Let_def by (intro loses_ops)

lemma cleanup_loses:
  assumes "slots_wf (c_slotLocks c)" and "tx_CrossShardTxID tx = x"
  shows "loses x c (cleanupAfterExecutionLocked tx c)"
  using loses_refl [OF assms(1), of x]
  by (auto simp: cleanupAfterExecutionLocked_def assms(2) Let_def loses_ops loses_clear_all split: TxType.splits)

text \<open>What a transaction holds is gone, what others hold is unchanged.\<close>

definition released :: "txid \<Rightarrow> Chain \<Rightarrow> Chain \<Rightarrow> bool" where
  "released x c c1 \<longleftrightarrow> (\<forall>sk. slot_holder (c_slotLocks c1) sk =
        (if slot_holder (c_slotLocks c) sk = Some x then None else slot_holder (c_slotLocks c) sk))
     \<and> GetLockedFunds (c_funds c1) = (GetLockedFunds (c_funds c))(x := None) \<and> \<not> has_data c1 x"

lemma loses_cleared:
  assumes "loses x c c1"
  shows "released x c (clearAllMetadataLocked x c1)"
proof -
  let ?c = "clearAllMetadataLocked x c1"
  have "slot_holder (c_slotLocks ?c) sk =
      (if slot_holder (c_slotLocks c) sk = Some x then None else slot_holder (c_slotLocks c) sk)" for sk
    using unlockAll_law [OF losesD(1) [OF assms], of x sk] losesD(2) [OF assms, of sk] by auto
  moreover have "GetLockedFunds (c_funds ?c) = (GetLockedFunds (c_funds c))(x := None)"
    using losesD(3) [OF assms] by (auto simp: fun_eq_iff fl.clear_funds)
  moreover from this have "\<not> has_data ?c x"
    by (simp add: has_data_def GetPendingCredits_def GetPendingCall_def GetPendingRwSet_def gomap_simps)
  ultimately show ?thesis
    by (simp add: released_def)
qed

subsubsection \<open>The effect of a commit on the state\<close>

definition debit_ledger :: "LockedFunds \<Rightarrow> ledger \<Rightarrow> ledger" where
  "debit_ledger f w = w\<lparr>bal := (bal w)(lf_Address f := bal w (lf_Address f) - word_of_int (lf_Amount f))\<rparr>"

definition credit_ledger :: "PendingCredit \<Rightarrow> ledger \<Rightarrow> ledger" where
  "credit_ledger p w = w\<lparr>bal := (bal w)(pc_Address p := bal w (pc_Address p) + word_of_int (pc_Amount p))\<rparr>"

definition commit_effect :: "(byte list \<Rightarrow> hash) \<Rightarrow> int \<Rightarrow> Chain \<Rightarrow> txid \<Rightarrow> ledger \<Rightarrow> ledger" where
  "commit_effect b me c x w =
     (let w1 = (case GetLockedFunds (c_funds c) x of None \<Rightarrow> w | Some f \<Rightarrow> debit_ledger f w);
          w2 = (case GetPendingCredits c x of None \<Rightarrow> w1 | Some credits \<Rightarrow> fold credit_ledger credits w1);
          w3 = (case GetPendingCall c x of None \<Rightarrow> w2
                | Some call \<Rightarrow> write_ledger b (write_items (local_rw_set me (ct_RwSet call))) w2)
      in case GetPendingRwSet c x of None \<Rightarrow> w3 | Some rwSet \<Rightarrow> write_ledger b (write_items rwSet) w3)"

context geth_state
begin

text \<open>The transactions of \<open>L\<close>, all of priority 1, take a state with ledger \<open>w\<close> to one with ledger \<open>w1\<close>.\<close>

definition effects :: "txid \<Rightarrow> Transaction list \<Rightarrow> ledger \<Rightarrow> ledger \<Rightarrow> bool" where
  "effects x L w w1 \<longleftrightarrow> (\<forall>tx \<in> set L. Priority (tx_TxType tx) = 1)
     \<and> (\<forall>c e. ok (es_stateDB e) \<longrightarrow> slots_wf (c_slotLocks c) \<longrightarrow> view (es_stateDB e) = w \<longrightarrow>
          (\<exists>c1 e1. all_run G L c e c1 e1 \<and> ok (es_stateDB e1) \<and> view (es_stateDB e1) = w1 \<and> loses x c c1))"

lemma effects_Nil: "effects x [] w w"
  by (simp add: effects_def) (blast intro: all_run_Nil loses_refl)

lemma effects_append:
  assumes "effects x L w w1" and "effects x M w1 w2"
  shows "effects x (L @ M) w w2"
proof -
  have "\<exists>c2 e2. all_run G (L @ M) c e c2 e2 \<and> ok (es_stateDB e2) \<and> view (es_stateDB e2) = w2 \<and> loses x c c2"
    if pre: "ok (es_stateDB e)" "slots_wf (c_slotLocks c)" "view (es_stateDB e) = w" for c e
  proof -
    obtain c1 e1 where 1: "all_run G L c e c1 e1" "ok (es_stateDB e1)" "view (es_stateDB e1) = w1" "loses x c c1"
      using assms(1) pre unfolding effects_def by blast
    obtain c2 e2 where 2: "all_run G M c1 e1 c2 e2" "ok (es_stateDB e2)" "view (es_stateDB e2) = w2" "loses x c1 c2"
      using assms(2) 1(2,3) losesD(1) [OF 1(4)] unfolding effects_def by blast
    show ?thesis
      using all_run_append [OF 1(1) 2(1)] 2(2,3) loses_trans [OF 1(4) 2(4)] by blast
  qed
  with assms show ?thesis
    unfolding effects_def by auto
qed

lemma effects_one:
  assumes "Priority (tx_TxType tx) = 1" and "tx_CrossShardTxID tx = x"
    and exec: "\<And>e. ok (es_stateDB e) \<Longrightarrow> view (es_stateDB e) = w \<Longrightarrow>
      \<exists>e1. ExecuteTx G tx e = Some (None, e1) \<and> ok (es_stateDB e1) \<and> view (es_stateDB e1) = w1"
  shows "effects x [tx] w w1"
proof -
  have ty: "tx_TxType tx \<noteq> TxTypeLock" "tx_TxType tx \<noteq> TxTypeLocal"
    using assms(1) by auto
  have "\<exists>c1 e1. all_run G [tx] c e c1 e1 \<and> ok (es_stateDB e1) \<and> view (es_stateDB e1) = w1 \<and> loses x c c1"
    if pre: "ok (es_stateDB e)" "slots_wf (c_slotLocks c)" "view (es_stateDB e) = w" for c e
  proof -
    obtain n e2 where n: "ES_Snapshot G e = (n, e2)"
      by fastforce
    obtain e1 where e1: "ExecuteTx G tx e2 = Some (None, e1)" "ok (es_stateDB e1)" "view (es_stateDB e1) = w1"
      using exec [of e2] Snapshot_law(1,2) [OF pre(1) n] pre(3) by auto
    then have "exec_one G tx c e = Some (True, cleanupAfterExecutionLocked tx c, e1)"
      using ty n by (simp add: exec_one_def checkLocalTxLockConflict_def)
    from all_run_one [OF this] cleanup_loses [OF pre(2) assms(2)] e1(2,3) show ?thesis
      by blast
  qed
  with assms(1) show ?thesis
    by (simp add: effects_def)
qed


lemma effects_debit:
  assumes "0 \<le> lf_Amount f" and "lf_Amount f \<le> uint (bal w (lf_Address f))"
    and "tx_TxType tx = TxTypeCrossDebit" and "tx_CrossShardTxID tx = x" and "tx_From tx = lf_Address f"
    and "ToBigInt (tx_Value tx) = lf_Amount f"
  shows "effects x [tx] w (debit_ledger f w)"
proof (rule effects_one)
  fix e :: "'s EVMState"
  assume e: "ok (es_stateDB e)" "view (es_stateDB e) = w"
  have "lf_Amount f < 2 ^ 256"
    using assms(2) uint_lt2p [of "bal w (lf_Address f)"] by simp
  from Debit_law [OF e(1) assms(1) this, of "lf_Address f"] assms(2-6) e(2)
  show "\<exists>e1. ExecuteTx G tx e = Some (None, e1) \<and> ok (es_stateDB e1) \<and> view (es_stateDB e1) = debit_ledger f w"
    by (auto simp: ExecuteTx_def debit_ledger_def)
qed (use assms in simp_all)

lemma effects_credit:
  assumes "0 \<le> pc_Amount p" and "pc_Amount p < 2 ^ 256"
    and "tx_TxType tx = TxTypeCrossCredit" and "tx_CrossShardTxID tx = x" and "tx_To tx = pc_Address p"
    and "ToBigInt (tx_Value tx) = pc_Amount p"
  shows "effects x [tx] w (credit_ledger p w)"
proof (rule effects_one)
  fix e :: "'s EVMState"
  assume e: "ok (es_stateDB e)" "view (es_stateDB e) = w"
  then obtain e1 where "Credit G (pc_Address p) (pc_Amount p) e = Some e1" "ok (es_stateDB e1)"
    "view (es_stateDB e1) = w\<lparr>bal := (bal w)(pc_Address p := bal w (pc_Address p) + word_of_int (pc_Amount p))\<rparr>"
    using Credit_law [OF e(1) assms(1,2), of "pc_Address p"] by blast
  with assms(3-6) show "\<exists>e1. ExecuteTx G tx e = Some (None, e1) \<and> ok (es_stateDB e1) \<and> view (es_stateDB e1) = credit_ledger p w"
    by (simp add: ExecuteTx_def credit_ledger_def)
qed (use assms in simp_all)

lemma effects_write:
  assumes "tx_TxType tx \<in> {TxTypeCrossWriteSet, TxTypeFinalize}" and "tx_CrossShardTxID tx = x" and "tx_RwSet tx = rw"
  shows "effects x [tx] w (write_ledger (g_BytesToHash G) (write_items rw) w)"
proof (rule effects_one)
  fix e :: "'s EVMState"
  assume e: "ok (es_stateDB e)" "view (es_stateDB e) = w"
  from applyWriteSet_law [OF e(1), of rw] assms e(2)
  show "\<exists>e1. ExecuteTx G tx e = Some (None, e1) \<and> ok (es_stateDB e1)
      \<and> view (es_stateDB e1) = write_ledger (g_BytesToHash G) (write_items rw) w"
    by (auto simp: ExecuteTx_def)
qed (use assms in auto)

end

lemma write_ledger_Nil [simp]: "write_ledger b (write_items []) w = w"
  by (simp add: write_ledger_def write_items_def)

lemma sort_key_sorted: "sorted (map f xs) \<Longrightarrow> sort_key f xs = xs"
  by (induction xs) (simp_all add: insort_is_Cons)

text \<open>What a commit queues, and what it does.\<close>

context geth_state
begin

lemma queue_debit_effects:
  assumes "\<And>f. GetLockedFunds (c_funds (sv_chain s)) x = Some f \<Longrightarrow> 0 \<le> lf_Amount f \<and> lf_Amount f \<le> uint (bal w (lf_Address f))"
  shows "\<exists>L. queue (queue_debit E x s) = queue s @ L
    \<and> effects x L w (case GetLockedFunds (c_funds (sv_chain s)) x of None \<Rightarrow> w | Some f \<Rightarrow> debit_ledger f w)"
proof (cases "GetLockedFunds (c_funds (sv_chain s)) x")
  case None
  then show ?thesis
    using effects_Nil by (simp add: queue_debit_def)
next
  case (Some f)
  with effects_debit [of f w _ x] assms [OF Some] show ?thesis
    by (simp add: queue_debit_def add_tx_queue Transaction_DeepCopy_eq cross_tx_def)
qed

lemma add_credits_effects:
  assumes "\<forall>p \<in> set credits. 0 \<le> pc_Amount p \<and> pc_Amount p < 2 ^ 256"
  shows "\<exists>L. queue (fold (\<lambda>credit. add_tx E ((cross_tx TxTypeCrossCredit x)
      \<lparr>tx_To := pc_Address credit, tx_Value := NewBigInt (Some (pc_Amount credit))\<rparr>)) credits s) = queue s @ L
    \<and> effects x L w (fold credit_ledger credits w)"
  using assms
proof (induction credits arbitrary: s w)
  case Nil
  show ?case
    using effects_Nil by simp
next
  case (Cons p credits)
  let ?tx = "(cross_tx TxTypeCrossCredit x)\<lparr>tx_To := pc_Address p, tx_Value := NewBigInt (Some (pc_Amount p))\<rparr>"
  let ?tx1 = "Transaction_DeepCopy (?tx\<lparr>tx_ID := en_uuid E (sv_uuids s)\<rparr>)"
  have tx1: "effects x [?tx1] w (credit_ledger p w)"
    using Cons.prems by (intro effects_credit) (simp_all add: Transaction_DeepCopy_eq cross_tx_def)
  obtain L where L: "queue (fold (\<lambda>credit. add_tx E ((cross_tx TxTypeCrossCredit x)
      \<lparr>tx_To := pc_Address credit, tx_Value := NewBigInt (Some (pc_Amount credit))\<rparr>)) credits (add_tx E ?tx s))
      = queue (add_tx E ?tx s) @ L" "effects x L (credit_ledger p w) (fold credit_ledger credits (credit_ledger p w))"
    using Cons.IH [of "add_tx E ?tx s" "credit_ledger p w"] Cons.prems by auto
  have "effects x (?tx1 # L) w (fold credit_ledger (p # credits) w)"
    using effects_append [OF tx1 L(2)] by simp
  with L(1) show ?case
    by (intro exI [of _ "?tx1 # L"]) (simp add: add_tx_queue)
qed

lemma queue_writes_effects:
  "\<exists>L. queue (queue_write_set E x s) = queue s @ L
    \<and> effects x L w (case GetPendingCall (sv_chain s) x of None \<Rightarrow> w
        | Some call \<Rightarrow> write_ledger (g_BytesToHash G) (write_items (local_rw_set (sv_shardID s) (ct_RwSet call))) w)"
  "\<exists>L. queue (queue_finalize E x s) = queue s @ L
    \<and> effects x L w (case GetPendingRwSet (sv_chain s) x of None \<Rightarrow> w | Some rwSet \<Rightarrow> write_ledger (g_BytesToHash G) (write_items rwSet) w)"
proof -
  have tx: "effects x [Transaction_DeepCopy ((cross_tx ty x)\<lparr>tx_RwSet := rw, tx_ID := i\<rparr>)] w (write_ledger (g_BytesToHash G) (write_items rw) w)"
    if "ty \<in> {TxTypeCrossWriteSet, TxTypeFinalize}" for ty rw i
    using that by (intro effects_write) (auto simp: Transaction_DeepCopy_eq cross_tx_def)
  show "\<exists>L. queue (queue_write_set E x s) = queue s @ L
    \<and> effects x L w (case GetPendingCall (sv_chain s) x of None \<Rightarrow> w
        | Some call \<Rightarrow> write_ledger (g_BytesToHash G) (write_items (local_rw_set (sv_shardID s) (ct_RwSet call))) w)"
    using effects_Nil tx by (auto simp: queue_write_set_def add_tx_queue Let_def split: option.splits)
  show "\<exists>L. queue (queue_finalize E x s) = queue s @ L
    \<and> effects x L w (case GetPendingRwSet (sv_chain s) x of None \<Rightarrow> w | Some rwSet \<Rightarrow> write_ledger (g_BytesToHash G) (write_items rwSet) w)"
    using effects_Nil tx by (auto simp: queue_finalize_def add_tx_queue split: option.splits)
qed

end

lemma fold_add_tx_frame [simp]:
  "c_funds (sv_chain (fold (\<lambda>y. add_tx E (f y)) ys s)) = c_funds (sv_chain s)"
  "c_pendingCredits (sv_chain (fold (\<lambda>y. add_tx E (f y)) ys s)) = c_pendingCredits (sv_chain s)"
  "c_pendingCalls (sv_chain (fold (\<lambda>y. add_tx E (f y)) ys s)) = c_pendingCalls (sv_chain s)"
  "c_pendingRwSets (sv_chain (fold (\<lambda>y. add_tx E (f y)) ys s)) = c_pendingRwSets (sv_chain s)"
  "c_slotLocks (sv_chain (fold (\<lambda>y. add_tx E (f y)) ys s)) = c_slotLocks (sv_chain s)"
  "sv_shardID (fold (\<lambda>y. add_tx E (f y)) ys s) = sv_shardID s"
  "sv_evmState (fold (\<lambda>y. add_tx E (f y)) ys s) = sv_evmState s"
  by (induction ys arbitrary: s) simp_all

text \<open>Queueing a decision leaves the records it is computed from alone.\<close>

definition records_kept :: "'s Server \<Rightarrow> 's Server \<Rightarrow> bool" where
  "records_kept s s1 \<longleftrightarrow> c_funds (sv_chain s1) = c_funds (sv_chain s) \<and> c_pendingCredits (sv_chain s1) = c_pendingCredits (sv_chain s)
     \<and> c_pendingCalls (sv_chain s1) = c_pendingCalls (sv_chain s) \<and> c_pendingRwSets (sv_chain s1) = c_pendingRwSets (sv_chain s)
     \<and> c_slotLocks (sv_chain s1) = c_slotLocks (sv_chain s) \<and> sv_shardID s1 = sv_shardID s \<and> sv_evmState s1 = sv_evmState s"

lemma records_kept_queue:
  "records_kept s (queue_debit E x s)" "records_kept s (queue_credits E x s)"
  "records_kept s (queue_write_set E x s)" "records_kept s (queue_finalize E x s)" "records_kept s (add_tx E tx s)"
  by (simp_all add: records_kept_def queue_debit_def queue_credits_def queue_write_set_def queue_finalize_def Let_def
      split: option.splits)

lemma records_kept_trans: "records_kept s s1 \<Longrightarrow> records_kept s1 s2 \<Longrightarrow> records_kept s s2"
  by (simp add: records_kept_def)

lemma records_keptD:
  assumes "records_kept s s1"
  shows "GetLockedFunds (c_funds (sv_chain s1)) = GetLockedFunds (c_funds (sv_chain s))"
    "GetPendingCredits (sv_chain s1) = GetPendingCredits (sv_chain s)" "GetPendingCall (sv_chain s1) = GetPendingCall (sv_chain s)"
    "GetPendingRwSet (sv_chain s1) = GetPendingRwSet (sv_chain s)" "sv_shardID s1 = sv_shardID s"
  using assms by (simp_all add: records_kept_def GetPendingCredits_def GetPendingCall_def GetPendingRwSet_def fun_eq_iff)

text \<open>When the debit and the credits of a commit can be carried out.\<close>

definition commit_ready :: "ledger \<Rightarrow> Chain \<Rightarrow> txid \<Rightarrow> bool" where
  "commit_ready w c x \<longleftrightarrow>
     (\<forall>f. GetLockedFunds (c_funds c) x = Some f \<longrightarrow> 0 \<le> lf_Amount f \<and> lf_Amount f \<le> uint (bal w (lf_Address f)))
     \<and> (\<forall>credits. GetPendingCredits c x = Some credits \<longrightarrow> (\<forall>p \<in> set credits. 0 \<le> pc_Amount p \<and> pc_Amount p < 2 ^ 256))"

abbreviation queue_commit :: "'s env \<Rightarrow> txid \<Rightarrow> 's Server \<Rightarrow> 's Server" where
  "queue_commit E x s \<equiv> queue_finalize E x (queue_write_set E x (queue_credits E x (queue_debit E x s)))"

context geth_state
begin

lemma queue_credits_effects:
  assumes "commit_ready w0 (sv_chain s) x"
  shows "\<exists>L. queue (queue_credits E x s) = queue s @ L
    \<and> effects x L w (case GetPendingCredits (sv_chain s) x of None \<Rightarrow> w | Some credits \<Rightarrow> fold credit_ledger credits w)"
proof (cases "GetPendingCredits (sv_chain s) x")
  case None
  then show ?thesis
    using effects_Nil by (simp add: queue_credits_def)
next
  case (Some credits)
  with assms add_credits_effects [of credits E x s w] show ?thesis
    by (simp add: queue_credits_def commit_ready_def)
qed

lemma queue_commit_effects:
  assumes "commit_ready w (sv_chain s) x"
  shows "\<exists>L. queue (queue_commit E x s) = queue s @ L \<and> effects x L w (commit_effect (g_BytesToHash G) (sv_shardID s) (sv_chain s) x w)"
proof -
  let ?s1 = "queue_debit E x s"
  let ?s2 = "queue_credits E x ?s1"
  let ?s3 = "queue_write_set E x ?s2"
  note r1 = records_kept_queue(1) [of s E x]
  note r2 = records_kept_trans [OF r1 records_kept_queue(2) [of ?s1 E x]]
  note r3 = records_kept_trans [OF r2 records_kept_queue(3) [of ?s2 E x]]
  have "commit_ready w (sv_chain ?s1) x"
    using assms by (simp add: commit_ready_def records_keptD [OF r1])
  note ready = this
  define w1 where "w1 = (case GetLockedFunds (c_funds (sv_chain s)) x of None \<Rightarrow> w | Some f \<Rightarrow> debit_ledger f w)"
  define w2 where "w2 = (case GetPendingCredits (sv_chain s) x of None \<Rightarrow> w1 | Some credits \<Rightarrow> fold credit_ledger credits w1)"
  define w3 where "w3 = (case GetPendingCall (sv_chain s) x of None \<Rightarrow> w2
    | Some call \<Rightarrow> write_ledger (g_BytesToHash G) (write_items (local_rw_set (sv_shardID s) (ct_RwSet call))) w2)"
  define w4 where "w4 = (case GetPendingRwSet (sv_chain s) x of None \<Rightarrow> w3 | Some rwSet \<Rightarrow> write_ledger (g_BytesToHash G) (write_items rwSet) w3)"
  obtain L1 where L1: "queue ?s1 = queue s @ L1" "effects x L1 w w1"
    using queue_debit_effects [of s x w E] assms by (auto simp: commit_ready_def w1_def)
  obtain L2 where L2: "queue ?s2 = queue ?s1 @ L2" "effects x L2 w1 w2"
    using queue_credits_effects [OF ready, of E w1] unfolding records_keptD [OF r1] w2_def [symmetric] by blast
  obtain L3 where L3: "queue ?s3 = queue ?s2 @ L3" "effects x L3 w2 w3"
    using queue_writes_effects(1) [of E x ?s2 w2] unfolding records_keptD [OF r2] w3_def [symmetric] by blast
  obtain L4 where L4: "queue (queue_commit E x s) = queue ?s3 @ L4" "effects x L4 w3 w4"
    using queue_writes_effects(2) [of E x ?s3 w3] unfolding records_keptD [OF r3] w4_def [symmetric] by blast
  have "effects x (((L1 @ L2) @ L3) @ L4) w w4"
    by (intro effects_append [OF effects_append [OF effects_append]]) (fact L1 L2 L3 L4)+
  moreover have "w4 = commit_effect (g_BytesToHash G) (sv_shardID s) (sv_chain s) x w"
    unfolding commit_effect_def Let_def w4_def w3_def w2_def w1_def ..
  moreover have "queue (queue_commit E x s) = queue s @ (((L1 @ L2) @ L3) @ L4)"
    by (simp add: L1(1) L2(1) L3(1) L4(1))
  ultimately show ?thesis
    by blast
qed

lemma commit_runs:
  assumes "ok (es_stateDB e)" and "slots_wf (c_slotLocks c)" and "view (es_stateDB e) = w" and "effects x L w w1"
    and "tx_TxType ul = TxTypeUnlock" and "tx_CrossShardTxID ul = x" and "x \<noteq> []"
  shows "\<exists>c1 e1. exec_all G (sortTransactionsByPriority (L @ [ul])) [] c e = Some (L @ [ul], c1, e1)
    \<and> ok (es_stateDB e1) \<and> view (es_stateDB e1) = w1 \<and> released x c c1"
proof -
  have "\<forall>tx \<in> set L. Priority (tx_TxType tx) = 1"
    using assms(4) by (simp add: effects_def)
  then have "sorted (map (\<lambda>tx. Priority (tx_TxType tx)) (L @ [ul]))"
    using assms(5) by (induction L) (auto simp: sorted_append)
  then have sort: "sortTransactionsByPriority (L @ [ul]) = L @ [ul]"
    by (simp add: sortTransactionsByPriority_def sort_key_sorted)
  obtain c1 e1 where 1: "all_run G L c e c1 e1" "ok (es_stateDB e1)" "view (es_stateDB e1) = w1" "loses x c c1"
    using assms(1-4) unfolding effects_def by blast
  obtain e2 where 2: "exec_one G ul c1 e1 = Some (True, unlocked x c1, e2)" "ok (es_stateDB e2)" "view (es_stateDB e2) = w1"
    using exec_one_unlock [OF 1(2) assms(5), of c1] assms(6,7) 1(3) by auto
  have "exec_all G (L @ [ul]) [] c e = Some (L @ [ul], unlocked x c1, e2)"
    using all_run_append [OF 1(1) all_run_one [OF 2(1)]] by (simp add: all_run_def)
  moreover have "released x c (unlocked x c1)"
    by (rule loses_cleared) (intro loses_ops 1(4))
  ultimately show ?thesis
    using 2(2,3) sort by auto
qed

end

lemma server_ProduceBlock_Inr:
  assumes "server_ProduceBlock E now s = Some (Inr b, s1)"
    and "exec_all (en_geth E) (sortTransactionsByPriority (queue s)) [] (sv_chain s) (sv_evmState s) = Some (txs, c2, e2)"
  obtains root where "ES_Commit (en_geth E) (c_height (sv_chain s) + 1) e2 = (Inr root, sv_evmState s1)" and "sb_TxOrdering b = txs"
    and "c_slotLocks (sv_chain s1) = c_slotLocks c2" and "c_funds (sv_chain s1) = c_funds c2" and "queue s1 = []"
    and "has_data (sv_chain s1) = has_data c2"
proof -
  obtain c1 e1 where p: "ProduceBlock (en_geth E) (en_blockHash E) now (sv_chain s) (sv_evmState s) = Some (Inr b, c1, e1)"
    and s1: "s1 = s\<lparr>sv_chain := c1, sv_evmState := e1\<rparr>"
    using assms(1) by (auto simp: server_ProduceBlock_def split: option.splits)
  show thesis
    using p
  proof (rule ProduceBlock_Inr)
    fix c' e' root
    assume run: "exec_all (en_geth E) (sortTransactionsByPriority (queue s)) [] (sv_chain s) (sv_evmState s) = Some (sb_TxOrdering b, c', e')"
      and "ES_Commit (en_geth E) (c_height (sv_chain s) + 1) e' = (Inr root, e1)"
      and c1: "c1 = c'\<lparr>c_blocks := c_blocks (sv_chain s) @ [b], c_height := c_height (sv_chain s) + 1,
        c_currentTxs := [], c_prepareTxs := [], c_prepares := []\<rparr>"
    moreover have "has_data c1 = has_data c'"
      by (simp add: c1 has_data_def [abs_def] GetPendingCredits_def GetPendingCall_def GetPendingRwSet_def)
    ultimately show thesis
      using that assms(2) by (simp add: s1)
  qed
qed

lemma released_cong:
  "released x c c1 \<Longrightarrow> c_slotLocks c' = c_slotLocks c \<Longrightarrow> c_funds c' = c_funds c \<Longrightarrow> c_slotLocks c1' = c_slotLocks c1 \<Longrightarrow>
     c_funds c1' = c_funds c1 \<Longrightarrow> has_data c1' = has_data c1 \<Longrightarrow> released x c' c1'"
  by (simp add: released_def)

lemma process_result_fresh:
  assumes "\<not> IsCommitProcessed (sv_chain s) x"
  defines "s0 \<equiv> s\<lparr>sv_chain := MarkCommitProcessed x (sv_chain s)\<rparr>"
  shows "process_result E (x, True) s = add_tx E (cross_tx TxTypeUnlock x) (queue_commit E x s0)"
    and "process_result E (x, False) s = add_tx E (cross_tx TxTypeUnlock x)
      (if has_data (sv_chain s0) x then add_tx E (cross_tx TxTypeCrossAbort x) s0 else s0)"
    and "records_kept s s0" and "queue s0 = queue s"
  using assms(1)
  by (simp_all add: process_result_def CheckAndMarkCommitProcessed_def IsCommitProcessed_def s0_def MarkCommitProcessed_def
      records_kept_def)

text \<open>A decision on a shard with an empty queue: what waits, and what running it does.\<close>

lemma process_commit_queue:
  assumes "geth_state (en_geth E) ok view saved" and "queue s = []" and "\<not> IsCommitProcessed (sv_chain s) x" and "commit_ready w (sv_chain s) x"
  obtains L ul where "queue (process_result E (x, True) s) = L @ [ul]" and "tx_TxType ul = TxTypeUnlock" and "tx_CrossShardTxID ul = x"
    and "geth_state.effects (en_geth E) ok view x L w (commit_effect (g_BytesToHash (en_geth E)) (sv_shardID s) (sv_chain s) x w)"
    and "records_kept s (process_result E (x, True) s)"
proof -
  define s0 where "s0 = s\<lparr>sv_chain := MarkCommitProcessed x (sv_chain s)\<rparr>"
  note fresh = process_result_fresh [OF assms(3), folded s0_def]
  have kept: "records_kept s (process_result E (x, True) s)"
    unfolding fresh(1) by (intro records_kept_trans [OF _ records_kept_queue(5)] records_kept_trans [OF _ records_kept_queue(4)]
        records_kept_trans [OF _ records_kept_queue(3)] records_kept_trans [OF _ records_kept_queue(2)]
        records_kept_trans [OF fresh(3) records_kept_queue(1)])
  have "commit_ready w (sv_chain s0) x"
    using assms(4) by (simp add: commit_ready_def records_keptD [OF fresh(3)])
  moreover have "commit_effect (g_BytesToHash (en_geth E)) (sv_shardID s0) (sv_chain s0) x w
      = commit_effect (g_BytesToHash (en_geth E)) (sv_shardID s) (sv_chain s) x w"
    unfolding commit_effect_def records_keptD [OF fresh(3)] ..
  ultimately obtain L where "queue (queue_commit E x s0) = L"
    "geth_state.effects (en_geth E) ok view x L w (commit_effect (g_BytesToHash (en_geth E)) (sv_shardID s) (sv_chain s) x w)"
    using geth_state.queue_commit_effects [OF assms(1), of w s0 x E] fresh(4) assms(2) by auto
  then show thesis
    using that [of L "Transaction_DeepCopy ((cross_tx TxTypeUnlock x)\<lparr>tx_ID := en_uuid E (sv_uuids (queue_commit E x s0))\<rparr>)"] kept
    by (simp add: fresh(1) add_tx_queue Transaction_DeepCopy_eq cross_tx_def)
qed

subsection \<open>Properties\<close>

definition sample_env :: "mem env" where
  "sample_env = \<lparr>en_geth = mem_geth, en_HexToAddress = (\<lambda>_. 0), en_HexToHash = (\<lambda>_. 0), en_FromHex = (\<lambda>_. []),
     en_addrHex = (\<lambda>_. ''0x''), en_hashHex = (\<lambda>_. ''0x''), en_Bytes2Hex = (\<lambda>_. []), en_uuid = show_nat,
     en_http = (\<lambda>_ _. Inl ''connection refused''), en_blockHash = (\<lambda>_. 7)\<rparr>"

text \<open>A shard on which transaction t has reserved 30 coins of account 1 and locked slot 0 of contract 2.\<close>

definition sample_server :: "mem Server" where
  "sample_server = \<lparr>sv_shardID = 2, sv_evmState = sample_mem, sv_evmMu = False,
     sv_chain = (LockFunds ''t'' 1 30 sample_shard)\<lparr>c_pendingRwSets := [(''t'', sample_read)], c_slotLocks := [(2, [(0, ''t'')])]\<rparr>,
     sv_orchestrator = [], sv_receipts = NewReceiptStore, sv_blockBuffer = NewBlockBuffer 2 1 MaxBlockBuffer,
     sv_uuids = 0, sv_sent = [], sv_done = Some False, sv_closed = False\<rparr>"

lemma sample_server_facts:
  "geth_state (en_geth sample_env) (\<lambda>_. True) mem_view mem_saved" "slots_wf (c_slotLocks (sv_chain sample_server))"
  "queue sample_server = []" "\<not> IsCommitProcessed (sv_chain sample_server) ''t''"
  "commit_ready (mem_view (es_stateDB (sv_evmState sample_server))) (sv_chain sample_server) ''t''"
  using mg.geth_state_axioms
  by (auto simp: sample_env_def sample_server_def LockFunds_def sample_shard_def NewChain_def IsCommitProcessed_def
      slots_wf_def wfmap_def commit_ready_def fl.lock_funds GetPendingCredits_def sample_mem_def mem_view_def mgetd_def split: if_splits)



context geth_state
begin

lemma exec_one_abort:
  assumes "ok (es_stateDB e)" and "tx_TxType tx = TxTypeCrossAbort" and "tx_CrossShardTxID tx = x" and "x \<noteq> []"
  shows "\<exists>e1. exec_one G tx c e = Some (True, clearAllMetadataLocked x c, e1) \<and> ok (es_stateDB e1) \<and> view (es_stateDB e1) = view (es_stateDB e)"
proof -
  obtain n e1 where n: "ES_Snapshot G e = (n, e1)"
    by fastforce
  from Snapshot_law(1,2) [OF assms(1) n] n show ?thesis
    using assms(2-4) by (simp add: exec_one_def checkLocalTxLockConflict_def ExecuteTx_def cleanupAfterExecutionLocked_def Let_def)
qed

lemma abort_runs:
  assumes "ok (es_stateDB e)" and "slots_wf (c_slotLocks c)" and "txs = [ul] \<or> txs = [ab, ul]" and "x \<noteq> []"
    and "tx_TxType ul = TxTypeUnlock" "tx_CrossShardTxID ul = x" "tx_TxType ab = TxTypeCrossAbort" "tx_CrossShardTxID ab = x"
  shows "\<exists>txs1 c1 e1. exec_all G (sortTransactionsByPriority txs) [] c e = Some (txs1, c1, e1)
    \<and> ok (es_stateDB e1) \<and> view (es_stateDB e1) = view (es_stateDB e) \<and> released x c c1"
proof -
  obtain e1 where 1: "exec_one G ul c e = Some (True, unlocked x c, e1)" "ok (es_stateDB e1)" "view (es_stateDB e1) = view (es_stateDB e)"
    using exec_one_unlock [OF assms(1,5), of c] assms(4,6) by auto
  obtain e2 where 2: "exec_one G ab (unlocked x c) e1 = Some (True, clearAllMetadataLocked x (unlocked x c), e2)"
    "ok (es_stateDB e2)" "view (es_stateDB e2) = view (es_stateDB e)"
    using exec_one_abort [OF 1(2) assms(7,8,4), of "unlocked x c"] 1(3) by auto
  have l: "loses x c (clearPendingRwSetLocked x (unlock_all_slots x c))"
    by (intro loses_ops loses_refl assms(2))
  have "released x c (unlocked x c)" "released x c (clearAllMetadataLocked x (unlocked x c))"
    using loses_cleared [OF l] loses_cleared [OF loses_clear_all [OF l]] by simp_all
  then show ?thesis
    using assms(3,5,7) 1 2 by (auto simp: sortTransactionsByPriority_def)
qed

end



text \<open>C13. A decision is applied once: after a shard has processed the decision on a transaction, no sequence of
  orchestrator blocks, repeated, reordered or replayed, queues another debit, credit, write, abort
  or unlock for it.\<close>

theorem decision_applied_once:
  assumes "IsCommitProcessed (sv_chain s) x"
  shows "filter (decision_of x) (queue (fold (processOrchestratorBlock E) blocks s)) = filter (decision_of x) (queue s)"
proof -
  have "IsCommitProcessed (sv_chain (fold (processOrchestratorBlock E) blocks s)) x
    \<and> filter (decision_of x) (queue (fold (processOrchestratorBlock E) blocks s)) = filter (decision_of x) (queue s)"
    using assms
  proof (induction blocks arbitrary: s)
    case (Cons b blocks)
    show ?case
      using Cons.IH [of "processOrchestratorBlock E b s"] process_block_decisions [OF Cons.prems, of E b] by simp
  qed simp
  then show ?thesis ..
qed

theorem decision_applied_once_witness:
  "filter (decision_of ''t'') (queue (fold (processOrchestratorBlock sample_env)
      [\<lparr>ob_Height = 5, ob_PrevHash = 0, ob_Timestamp = 0, ob_TpcResult = [(''t'', True)], ob_CtToOrder = []\<rparr>]
      (process_result sample_env (''t'', True) sample_server)))
    = filter (decision_of ''t'') (queue (process_result sample_env (''t'', True) sample_server))"
proof (rule decision_applied_once)
  show "IsCommitProcessed (sv_chain (process_result sample_env (''t'', True) sample_server)) ''t''"
    by code_simp
qed

lemma recover_loop_ends:
  "unat orchestratorHeight + 1 < 2 ^ 64 \<Longrightarrow> \<exists>s1. recover_loop E height orchestratorHeight s = Some s1"
proof (induction "unat orchestratorHeight + 1 - unat height" arbitrary: height s rule: less_induct)
  case less
  show ?case
  proof (cases "height \<le> orchestratorHeight")
    case True
    then have "unat height \<le> unat orchestratorHeight"
      by (simp add: word_le_nat_alt)
    moreover from this have "unat (height + 1) = unat height + 1"
      using less.prems by (intro unat_Suc_u64) simp
    ultimately have "unat orchestratorHeight + 1 - unat (height + 1) < unat orchestratorHeight + 1 - unat height"
      by simp
    from less.hyps [OF this less.prems] True show ?thesis
      by (simp add: recover_loop.simps [of E height])
  qed (simp add: recover_loop.simps)
qed

text \<open>Recovery does not touch the block buffer.\<close>

lemma process_block_buffer: "sv_blockBuffer (processOrchestratorBlock E b s) = sv_blockBuffer s"
proof -
  have r: "sv_blockBuffer (process_result E r s) = sv_blockBuffer s" for r and s :: "'a Server"
    using process_result_queues [of "fst r" s E "snd r"] by (simp add: queues_def)
  have o: "sv_blockBuffer (process_order E tx s) = sv_blockBuffer s" for tx and s :: "'a Server"
    using process_order_queues [of tx s E] by (simp add: queues_def)
  have "sv_blockBuffer (fold (process_result E) rs s) = sv_blockBuffer s"
    "sv_blockBuffer (fold (process_order E) txs s) = sv_blockBuffer s" for rs txs and s :: "'a Server"
    by (induction rs arbitrary: s, simp_all add: r) (induction txs arbitrary: s, simp_all add: o)
  then show ?thesis
    by (simp add: processOrchestratorBlock_def Let_def)
qed

lemma recover_step_buffer: "sv_blockBuffer (recover_step E height s) = sv_blockBuffer s"
  by (auto simp: recover_step_def fetchOrchestratorBlock_def http_do_def process_block_buffer Let_def split: prod.splits sum.splits option.splits)

lemma recover_loop_buffer:
  assumes "recover_loop E height h s = Some s1"
  shows "sv_blockBuffer s1 = sv_blockBuffer s"
  using recover_loop.raw_induct [of "\<lambda>E height h s s1. sv_blockBuffer s1 = sv_blockBuffer s", OF _ assms]
  by (metis option.inject recover_step_buffer)

lemma recover_buffer: "recoverFromOrchestrator E s = Some s1 \<Longrightarrow> sv_blockBuffer s1 = sv_blockBuffer s"
  using recover_loop_buffer by (fastforce simp: recoverFromOrchestrator_def http_do_def Let_def split: if_splits sum.splits)

text \<open>C31. Recovery ends: for every answer of the orchestrator whose height is not the largest 64-bit number, the
  loop over the missed blocks ends, whatever the other answers are.\<close>

theorem recovery_ends:
  assumes "\<forall>n rq resp h. en_http E n rq = Inr resp \<longrightarrow> rp_latest resp = Inr h \<longrightarrow> unat h + 1 < 2 ^ 64"
  shows "\<exists>s1. recoverFromOrchestrator E s = Some s1"
proof -
  have "\<exists>s1. recover_loop E (h + 1) h' s' = Some s1" if "en_http E n rq = Inr resp" "rp_latest resp = Inr h'" for h h' s' n rq resp
    using recover_loop_ends assms that by blast
  then show ?thesis
    by (auto simp: recoverFromOrchestrator_def http_do_def Let_def split: sum.splits)
qed

text \<open>An orchestrator whose latest block is block 1.\<close>

definition recovery_env :: "mem env" where
  "recovery_env = sample_env\<lparr>en_http := (\<lambda>_ _. Inr \<lparr>rp_status = 200, rp_latest = Inr 1,
     rp_block = Inr \<lparr>ob_Height = 1, ob_PrevHash = 0, ob_Timestamp = 0, ob_TpcResult = [], ob_CtToOrder = []\<rparr>,
     rp_object = Inl ''no object''\<rparr>)\<rparr>"

theorem recovery_ends_witness: "\<exists>s1. recoverFromOrchestrator recovery_env (sample_server\<lparr>sv_orchestrator := ''http://o''\<rparr>) = Some s1"
  by (rule recovery_ends) (simp add: recovery_env_def sample_env_def)

lemma receive_ahead:
  assumes "bb_expected (sv_blockBuffer s) = 1" and "1 < ob_Height b"
  shows "fst (receive_block E b s) = False \<and> sv_chain (snd (receive_block E b s)) = sv_chain s
    \<and> bb_expected (sv_blockBuffer (snd (receive_block E b s))) = 1"
  using assms by (auto simp: receive_block_def ProcessBlock_def)

text \<open>C36. A recovered shard stalls. Start-up recovery replays the blocks of the orchestrator but leaves the block
  buffer expecting block 1, so whatever blocks with a later height arrive afterwards, none is processed:
  the chain stays as recovery left it.\<close>

theorem recovered_shard_stalls:
  assumes "NewServer E now persistent memory shardID url = Some s" and "\<forall>b \<in> set blocks. 1 < ob_Height b"
  shows "sv_chain (fold (\<lambda>b s. snd (receive_block E b s)) blocks s) = sv_chain s"
proof -
  have "bb_expected (sv_blockBuffer s) = 1"
    using assms(1) recover_buffer by (fastforce simp: NewServer_def NewServerForTest_def NewBlockBuffer_def bind_eq_Some_conv)
  then show ?thesis
    using assms(2) by (induction blocks arbitrary: s) (simp_all add: receive_ahead)
qed

theorem recovered_shard_stalls_witness:
  "\<exists>s b. NewServer recovery_env 5 (Inr sample_mem) (Inl ''unused'') 2 ''http://o'' = Some s
    \<and> c_lastOrchestratorHeight (sv_chain s) = 1 \<and> ob_Height b = 2 \<and> ob_TpcResult b = [(''t'', True)]
    \<and> sv_chain (snd (receive_block recovery_env b s)) = sv_chain s"
proof -
  let ?b = "\<lparr>ob_Height = 2, ob_PrevHash = 0, ob_Timestamp = 0, ob_TpcResult = [(''t'', True)], ob_CtToOrder = []\<rparr>"
  have "map_option (\<lambda>s. c_lastOrchestratorHeight (sv_chain s)) (NewServer recovery_env 5 (Inr sample_mem) (Inl ''unused'') 2 ''http://o'') = Some 1"
    by code_simp
  then obtain s where s: "NewServer recovery_env 5 (Inr sample_mem) (Inl ''unused'') 2 ''http://o'' = Some s" "c_lastOrchestratorHeight (sv_chain s) = 1"
    by auto
  from recovered_shard_stalls [OF s(1), of "[?b]"] show ?thesis
    by (intro exI [of _ s] exI [of _ ?b]) (simp add: s)
qed

end
