(* ===== verification/Shard_Handlers.thy ===== *)
theory Shard_Handlers
  imports Shard_Server
begin

text \<open>
  The HTTP handlers of a state shard (\<open>internal/shard/server.go\<close>) and their routes. A handler gets the
  decoded body of its request, or the error of decoding it, and ends with an answer, with a panic (the
  HTTP server drops the request and goes on), or blocked on the mutex of the EVM state. What a handler
  has written before it panics stays.
\<close>

subsection \<open>Requests and answers\<close>

record TransferRequest =
  tr_From :: string
  tr_To :: string
  tr_Amount :: string

record FaucetRequest =
  fr_Address :: string
  fr_Amount :: string

record CreditRequest =
  cq_TxID :: string
  cq_Address :: string
  cq_Amount :: string

record CrossShardTransferRequest =
  cs_From :: string
  cs_To :: string
  cs_ToShard :: int
  cs_Amount :: string

record DeployRequest =
  dq_From :: string
  dq_Bytecode :: string
  dq_Value :: string
  dq_Gas :: u64

record CallRequest =
  ca_From :: string
  ca_To :: string
  ca_Data :: string
  ca_Value :: string
  ca_Gas :: u64

record StateFetchRequest =
  sf_Address :: address

record StateFetchResponse =
  sr_Success :: bool
  sr_Error :: string
  sr_Balance :: int
  sr_Nonce :: u64
  sr_Code :: "byte list"
  sr_CodeHash :: hash

record TxSubmitRequest =
  ts_From :: string
  ts_To :: string
  ts_Value :: string
  ts_Data :: string
  ts_Gas :: u64

datatype reply =
    HttpError nat string
  | Json json
  | PrepareReply PrepareResponse
  | FetchReply StateFetchResponse
  | RwReply RwSetReply

datatype outcome = Answer reply | Panic | Blocked

definition ok_object :: "(string, json) gomap \<Rightarrow> outcome" where
  "ok_object obj = Answer (Json (JO obj))"

definition bad_request :: "string \<Rightarrow> outcome" where
  "bad_request err = Answer (HttpError 400 err)"

definition MinGasLimit :: u64 where
  "MinGasLimit = 21000"

definition DefaultGasLimit :: u64 where
  "DefaultGasLimit = 1000000"

definition MaxGasLimit :: u64 where
  "MaxGasLimit = 30000000"

definition SimulationGasLimit :: u64 where
  "SimulationGasLimit = 3000000"

subsection \<open>Accounts\<close>

definition handleGetBalance :: "'s env \<Rightarrow> string \<Rightarrow> 's Server \<Rightarrow> outcome \<times> 's Server" where
  "handleGetBalance E address s =
     (let addr = en_HexToAddress E address;
          (balance, e) = ES_GetBalance (en_geth E) addr (sv_evmState s)
      in (ok_object [(''address'', JS (en_addrHex E addr)), (''balance'', JS (show_int balance))], s\<lparr>sv_evmState := e\<rparr>))"

definition handleLocalTransfer :: "'s env \<Rightarrow> string + TransferRequest \<Rightarrow> 's Server \<Rightarrow> outcome \<times> 's Server" where
  "handleLocalTransfer E body s =
     (case body of
        Inl err \<Rightarrow> (bad_request err, s)
      | Inr req \<Rightarrow>
          (case set_string (tr_Amount req) 10 of
             None \<Rightarrow> (bad_request ''invalid amount'', s)
           | Some amount \<Rightarrow>
               (case Debit (en_geth E) (en_HexToAddress E (tr_From req)) amount (sv_evmState s) of
                  None \<Rightarrow> (Panic, s)
                | Some (Some err, e) \<Rightarrow> (bad_request ''insufficient funds'', s\<lparr>sv_evmState := e\<rparr>)
                | Some (None, e) \<Rightarrow>
                    (case Credit (en_geth E) (en_HexToAddress E (tr_To req)) amount e of
                       None \<Rightarrow> (Panic, s\<lparr>sv_evmState := e\<rparr>)
                     | Some e1 \<Rightarrow> (ok_object [(''status'', JS ''success'')], s\<lparr>sv_evmState := e1\<rparr>)))))"

definition handleFaucet :: "'s env \<Rightarrow> string + FaucetRequest \<Rightarrow> 's Server \<Rightarrow> outcome \<times> 's Server" where
  "handleFaucet E body s =
     (case body of
        Inl err \<Rightarrow> (bad_request err, s)
      | Inr req \<Rightarrow>
          (case set_string (fr_Amount req) 10 of
             None \<Rightarrow> (bad_request ''invalid amount'', s)
           | Some amount \<Rightarrow>
               (case Credit (en_geth E) (en_HexToAddress E (fr_Address req)) amount (sv_evmState s) of
                  None \<Rightarrow> (Panic, s)
                | Some e \<Rightarrow> (ok_object [(''status'', JS ''success'')], s\<lparr>sv_evmState := e\<rparr>))))"

subsection \<open>Direct two-phase commit\<close>

text \<open>A request without an amount panics in \<open>CanDebit\<close> while the mutex is held.\<close>

definition handlePrepare :: "'s env \<Rightarrow> string + PrepareRequest \<Rightarrow> 's Server \<Rightarrow> outcome \<times> 's Server" where
  "handlePrepare E body s =
     (case body of
        Inl err \<Rightarrow> (bad_request err, s)
      | Inr req \<Rightarrow>
          if sv_evmMu s then (Blocked, s)
          else (case pr_Amount req of
             None \<Rightarrow> (Panic, s\<lparr>sv_evmMu := True\<rparr>)
           | Some amount \<Rightarrow>
               let lockedAmount = GetLockedAmountForAddress (pr_Address req) (sv_chain s);
                   (canCommit, e) = CanDebit (en_geth E) (pr_Address req) amount lockedAmount (sv_evmState s);
                   c = (if canCommit then LockFunds (pr_TxID req) (pr_Address req) amount (sv_chain s) else sv_chain s)
               in (Answer (PrepareReply \<lparr>ps_TxID = pr_TxID req, ps_Success = canCommit,
                     ps_Error = (if canCommit then [] else ''insufficient available balance'')\<rparr>),
                   s\<lparr>sv_evmState := e, sv_chain := c\<rparr>)))"

definition handleCommit :: "'s env \<Rightarrow> string + CommitRequest \<Rightarrow> 's Server \<Rightarrow> outcome \<times> 's Server" where
  "handleCommit E body s =
     (case body of
        Inl err \<Rightarrow> (bad_request err, s)
      | Inr req \<Rightarrow>
          (case GetLockedFunds (c_funds (sv_chain s)) (cr_TxID req) of
             None \<Rightarrow> (ok_object [(''success'', JB False)], s)
           | Some lock \<Rightarrow>
               (case Debit (en_geth E) (lf_Address lock) (lf_Amount lock) (sv_evmState s) of
                  None \<Rightarrow> (Panic, s)
                | Some (_, e) \<Rightarrow>
                    (ok_object [(''success'', JB True)], s\<lparr>sv_evmState := e, sv_chain := chain_ClearLock (cr_TxID req) (sv_chain s)\<rparr>))))"

definition handleAbort :: "string + CommitRequest \<Rightarrow> 's Server \<Rightarrow> outcome \<times> 's Server" where
  "handleAbort body s =
     (case body of
        Inl err \<Rightarrow> (bad_request err, s)
      | Inr req \<Rightarrow>
          (case GetLockedFunds (c_funds (sv_chain s)) (cr_TxID req) of
             None \<Rightarrow> (ok_object [(''success'', JB False)], s)
           | Some lock \<Rightarrow> (ok_object [(''success'', JB True)], s\<lparr>sv_chain := chain_ClearLock (cr_TxID req) (sv_chain s)\<rparr>)))"

definition handleCredit :: "'s env \<Rightarrow> string + CreditRequest \<Rightarrow> 's Server \<Rightarrow> outcome \<times> 's Server" where
  "handleCredit E body s =
     (case body of
        Inl err \<Rightarrow> (bad_request err, s)
      | Inr req \<Rightarrow>
          (case set_string (cq_Amount req) 10 of
             None \<Rightarrow> (bad_request ''invalid amount'', s)
           | Some amount \<Rightarrow>
               (case Credit (en_geth E) (en_HexToAddress E (cq_Address req)) amount (sv_evmState s) of
                  None \<Rightarrow> (Panic, s)
                | Some e \<Rightarrow> (ok_object [(''success'', JB True)], s\<lparr>sv_evmState := e\<rparr>))))"

subsection \<open>Forwarding to the orchestrator\<close>

definition touched :: "address \<Rightarrow> int \<Rightarrow> RwVariable" where
  "touched addr shardID = \<lparr>rw_Address = addr, rw_ReferenceBlock = \<lparr>ShardNum = shardID, BlockHash = 0, BlockHeight = 0\<rparr>,
     rw_ReadSet = [], rw_WriteSet = []\<rparr>"

definition handleCrossShardTransfer :: "'s env \<Rightarrow> string + CrossShardTransferRequest \<Rightarrow> 's Server \<Rightarrow> outcome \<times> 's Server" where
  "handleCrossShardTransfer E body s =
     (case body of
        Inl err \<Rightarrow> (bad_request err, s)
      | Inr req \<Rightarrow>
          (case set_string (cs_Amount req) 10 of
             None \<Rightarrow> (bad_request ''invalid amount'', s)
           | Some amount \<Rightarrow>
               let toAddr = en_HexToAddress E (cs_To req);
                   (uuid, s1) = new_uuid E s;
                   tx = CrossShardTx_zero\<lparr>ct_ID := uuid, ct_FromShard := sv_shardID s, ct_From := en_HexToAddress E (cs_From req),
                     ct_To := toAddr, ct_Value := NewBigInt (Some amount), ct_RwSet := [touched toAddr (cs_ToShard req)]\<rparr>;
                   (r, s2) = http_do E (post_request (sv_orchestrator s @ ''/cross-shard/call'') (TxBody tx)) s1
               in (case r of
                     Inl err \<Rightarrow> Answer (HttpError 503 (''orchestrator unavailable: '' @ err))
                   | Inr resp \<Rightarrow>
                       (case rp_object resp of
                          Inl err \<Rightarrow> Answer (HttpError 502 (''failed to decode orchestrator response: '' @ err))
                        | Inr None \<Rightarrow> Answer (Json JsNull)
                        | Inr (Some result) \<Rightarrow> ok_object result), s2)))"

text \<open>A null answer decodes to a nil map, and setting its field panics.\<close>

definition forwardToOrchestrator :: "'s env \<Rightarrow> address \<Rightarrow> address \<Rightarrow> int \<Rightarrow> byte list \<Rightarrow> u64 \<Rightarrow> (address, int) gomap
    \<Rightarrow> 's Server \<Rightarrow> outcome \<times> 's Server" where
  "forwardToOrchestrator E from to value data gas crossShardAddrs s =
     (let rwSet = map (\<lambda>(addr, shardID). touched addr shardID) crossShardAddrs;
          (uuid, s1) = new_uuid E s;
          tx = CrossShardTx_zero\<lparr>ct_ID := uuid, ct_FromShard := sv_shardID s, ct_From := from, ct_To := to,
            ct_Value := NewBigInt (Some value), ct_Gas := gas, ct_Data := data, ct_RwSet := rwSet\<rparr>;
          (r, s2) = http_do E (post_request (sv_orchestrator s @ ''/cross-shard/call'') (TxBody tx)) s1
      in (case r of
            Inl err \<Rightarrow> Answer (HttpError 503 (''orchestrator unavailable: '' @ err))
          | Inr resp \<Rightarrow>
              (case rp_object resp of
                 Inl err \<Rightarrow> Answer (HttpError 502 (''failed to decode orchestrator response: '' @ err))
               | Inr None \<Rightarrow> Panic
               | Inr (Some result) \<Rightarrow> ok_object (mput ''cross_shard'' (JB True) result)), s2))"

definition handleHealth :: "'s Server \<Rightarrow> outcome \<times> 's Server" where
  "handleHealth s = (ok_object [(''status'', JS ''healthy'')], s)"

definition handleInfo :: "'s Server \<Rightarrow> outcome \<times> 's Server" where
  "handleInfo s = (ok_object [(''shard_id'', JN (sv_shardID s)), (''orchestrator'', JS (sv_orchestrator s))], s)"

subsection \<open>Contracts\<close>

text \<open>A value field: zero if it is empty.\<close>

definition parse_value :: "string \<Rightarrow> int option" where
  "parse_value v = (if v = [] then Some 0 else set_string v 10)"

definition storage_hex :: "'s env \<Rightarrow> (hash, hash) gomap \<Rightarrow> (string, string) gomap" where
  "storage_hex E storageWrites =
     fold (\<lambda>(slot, value). mput (en_hashHex E slot) (en_hashHex E value)) storageWrites []"

definition handleDeploy :: "'s env \<Rightarrow> string + DeployRequest \<Rightarrow> 's Server \<Rightarrow> outcome \<times> 's Server" where
  "handleDeploy E body s =
     (case body of
        Inl err \<Rightarrow> (bad_request err, s)
      | Inr req \<Rightarrow>
          (case parse_value (dq_Value req) of
             None \<Rightarrow> (bad_request ''invalid value'', s)
           | Some value \<Rightarrow>
               let gas = (if dq_Gas req = 0 then 3000000 else dq_Gas req)
               in case DeployContractTracked (en_geth E) (en_HexToAddress E (dq_From req)) (en_FromHex E (dq_Bytecode req)) value gas NumShards (sv_evmState s) of
                    None \<Rightarrow> (Panic, s)
                  | Some (d, e) \<Rightarrow>
                      let gasUsed = (''gas_used'', JN (uint (dr_gasUsed d)));
                          s1 = s\<lparr>sv_evmState := e\<rparr>
                      in case dr_err d of
                           Some err \<Rightarrow> (ok_object [(''success'', JB False), (''error'', JS err), gasUsed], s1)
                         | None \<Rightarrow>
                             let addr = (''address'', JS (en_addrHex E (dr_addr d)));
                                 targetShard = shard_of (dr_addr d);
                                 target = (''target_shard'', JN targetShard);
                                 (deployedCode, e2) = ES_GetCode (en_geth E) (dr_addr d) e;
                                 s2 = s\<lparr>sv_evmState := e2\<rparr>;
                                 deployed = ok_object [(''success'', JB True), addr, (''return'', JS (en_Bytes2Hex E (dr_ret d))), gasUsed,
                                   target, (''storage_slots'', JN (int (length (dr_writes d))))]
                             in if targetShard = sv_shardID s then (deployed, s2)
                                else let setCodeReq = \<lparr>sc_Address = en_addrHex E (dr_addr d), sc_Code = en_Bytes2Hex E deployedCode,
                                           sc_Storage = storage_hex E (dr_writes d)\<rparr>;
                                         targetURL = ''http://shard-'' @ show_int targetShard @ '':8545/evm/setcode'';
                                         (r, s3) = http_do E (post_request targetURL (SetCodeBody setCodeReq)) s2
                                     in (case r of
                                           Inl err \<Rightarrow> ok_object [(''success'', JB False),
                                             (''error'', JS (''failed to forward to shard '' @ show_int targetShard @ '': '' @ err)), addr, gasUsed, target]
                                         | Inr resp \<Rightarrow> deployed, s3)))"

text \<open>\<open>sc_Storage\<close> is in the order of the iteration.\<close>

definition handleSetCode :: "'s env \<Rightarrow> string + SetCodeRequest \<Rightarrow> 's Server \<Rightarrow> outcome \<times> 's Server" where
  "handleSetCode E body s =
     (case body of
        Inl err \<Rightarrow> (bad_request err, s)
      | Inr req \<Rightarrow>
          let addr = en_HexToAddress E (sc_Address req);
              targetShard = shard_of addr
          in if targetShard \<noteq> sv_shardID s
             then (bad_request (''address '' @ en_addrHex E addr @ '' belongs to shard '' @ show_int targetShard @ '', not '' @ show_int (sv_shardID s)), s)
             else let e = ES_SetCode (en_geth E) addr (en_FromHex E (sc_Code req)) (sv_evmState s);
                      e1 = fold (\<lambda>(slotHex, valueHex). SetStorageAt (en_geth E) addr (en_HexToHash E slotHex) (en_HexToHash E valueHex)) (sc_Storage req) e
                  in (ok_object [(''success'', JB True), (''address'', JS (en_addrHex E addr)), (''storage_slots'', JN (int (length (sc_Storage req))))],
                      s\<lparr>sv_evmState := e1\<rparr>))"

definition call_reply :: "'s env \<Rightarrow> byte list \<Rightarrow> u64 \<Rightarrow> string option \<Rightarrow> outcome" where
  "call_reply E ret gasUsed err =
     (case err of
        Some e \<Rightarrow> ok_object [(''success'', JB False), (''error'', JS e), (''gas_used'', JN (uint gasUsed))]
      | None \<Rightarrow> ok_object [(''success'', JB True), (''return'', JS (en_Bytes2Hex E ret)), (''gas_used'', JN (uint gasUsed))])"

definition handleCall :: "'s env \<Rightarrow> string + CallRequest \<Rightarrow> 's Server \<Rightarrow> outcome \<times> 's Server" where
  "handleCall E body s =
     (case body of
        Inl err \<Rightarrow> (bad_request err, s)
      | Inr req \<Rightarrow>
          (case parse_value (ca_Value req) of
             None \<Rightarrow> (bad_request ''invalid value'', s)
           | Some value \<Rightarrow>
               let gas = (if ca_Gas req = 0 then 1000000 else ca_Gas req)
               in case CallContract (en_geth E) (en_HexToAddress E (ca_From req)) (en_HexToAddress E (ca_To req)) (en_FromHex E (ca_Data req)) value gas (sv_evmState s) of
                    None \<Rightarrow> (Panic, s)
                  | Some ((ret, gasUsed, logs, err), e) \<Rightarrow> (call_reply E ret gasUsed err, s\<lparr>sv_evmState := e\<rparr>)))"

definition handleStaticCall :: "'s env \<Rightarrow> string + CallRequest \<Rightarrow> 's Server \<Rightarrow> outcome \<times> 's Server" where
  "handleStaticCall E body s =
     (case body of
        Inl err \<Rightarrow> (bad_request err, s)
      | Inr req \<Rightarrow>
          let gas = (if ca_Gas req = 0 then 1000000 else ca_Gas req);
              ((ret, gasUsed, err), e) = ES_StaticCall (en_geth E) (en_HexToAddress E (ca_From req)) (en_HexToAddress E (ca_To req)) (en_FromHex E (ca_Data req)) gas (sv_evmState s)
          in (call_reply E ret gasUsed err, s\<lparr>sv_evmState := e\<rparr>))"

definition handleGetCode :: "'s env \<Rightarrow> string \<Rightarrow> 's Server \<Rightarrow> outcome \<times> 's Server" where
  "handleGetCode E address s =
     (let addr = en_HexToAddress E address;
          (code, e) = ES_GetCode (en_geth E) addr (sv_evmState s)
      in (ok_object [(''address'', JS (en_addrHex E addr)), (''code'', JS (en_Bytes2Hex E code))], s\<lparr>sv_evmState := e\<rparr>))"

definition formatProof :: "'s env \<Rightarrow> byte list list \<Rightarrow> json" where
  "formatProof E proof = JL (map (\<lambda>p. JS (''0x'' @ en_Bytes2Hex E p)) proof)"

definition handleGetStorage :: "'s env \<Rightarrow> 't tries \<Rightarrow> string \<Rightarrow> string \<Rightarrow> string \<Rightarrow> 's Server \<Rightarrow> outcome \<times> 's Server" where
  "handleGetStorage E T address slotHex proof s =
     (let addr = en_HexToAddress E address;
          slot = en_HexToHash E slotHex
      in if proof = ''true''
         then (case GetStorageWithProof (en_geth E) T addr slot (sv_evmState s) of
                 (Inl err, e) \<Rightarrow> (Answer (HttpError 500 (''failed to generate proof: '' @ err)), s\<lparr>sv_evmState := e\<rparr>)
               | (Inr p, e) \<Rightarrow>
                   (ok_object [(''address'', JS (en_addrHex E (sp_Address p))), (''slot'', JS (en_hashHex E (sp_Slot p))),
                      (''value'', JS (en_hashHex E (sp_Value p))), (''state_root'', JS (en_hashHex E (sp_StateRoot p))),
                      (''block_height'', JN (uint (sp_BlockHeight p))), (''account_proof'', formatProof E (sp_AccountProof p)),
                      (''storage_proof'', formatProof E (sp_StorageProof p))], s\<lparr>sv_evmState := e\<rparr>))
         else let (value, e) = GetStorageAt (en_geth E) addr slot (sv_evmState s)
              in (ok_object [(''address'', JS (en_addrHex E addr)), (''slot'', JS (en_hashHex E slot)), (''value'', JS (en_hashHex E value))],
                  s\<lparr>sv_evmState := e\<rparr>))"

definition handleGetStateRoot :: "'s env \<Rightarrow> 's Server \<Rightarrow> outcome \<times> 's Server" where
  "handleGetStateRoot E s =
     (let (root, e) = GetStateRoot (en_geth E) (sv_evmState s)
      in (ok_object [(''state_root'', JS (en_hashHex E root))], s\<lparr>sv_evmState := e\<rparr>))"

subsection \<open>Blocks and state of the protocol\<close>

definition handleOrchestratorShardBlock :: "'s env \<Rightarrow> string + OrchestratorShardBlock \<Rightarrow> 's Server \<Rightarrow> outcome \<times> 's Server" where
  "handleOrchestratorShardBlock E body s =
     (case body of
        Inl err \<Rightarrow> (bad_request err, s)
      | Inr block \<Rightarrow>
          let (processed, s1) = receive_block E block s
          in (ok_object [(''status'', JS (if processed then ''ok'' else ''buffered''))], s1))"

definition handleStateFetch :: "'s env \<Rightarrow> string + StateFetchRequest \<Rightarrow> 's Server \<Rightarrow> outcome \<times> 's Server" where
  "handleStateFetch E body s =
     (case body of
        Inl err \<Rightarrow> (bad_request err, s)
      | Inr req \<Rightarrow>
          let (acct, e) = ES_GetAccountState (en_geth E) (sf_Address req) (sv_evmState s)
          in (Answer (FetchReply \<lparr>sr_Success = True, sr_Error = [], sr_Balance = as_Balance acct, sr_Nonce = as_Nonce acct,
                sr_Code = as_Code acct, sr_CodeHash = as_CodeHash acct\<rparr>), s\<lparr>sv_evmState := e\<rparr>))"

definition handleRwSet :: "'s env \<Rightarrow> string + RwSetRequest \<Rightarrow> 's Server \<Rightarrow> outcome \<times> 's Server" where
  "handleRwSet E body s =
     (case body of
        Inl err \<Rightarrow> (bad_request err, s)
      | Inr req \<Rightarrow>
          let targetShard = shard_of (rr_Address req)
          in if targetShard \<noteq> sv_shardID s
             then (Answer (RwReply \<lparr>ry_Success = False, ry_RwSet = [], ry_Error = ''address '' @ en_addrHex E (rr_Address req) @
                     '' belongs to shard '' @ show_int targetShard @ '', not '' @ show_int (sv_shardID s), ry_GasUsed = 0\<rparr>), s)
             else let refBlock = (rr_ReferenceBlock req)\<lparr>ShardNum := sv_shardID s\<rparr>
                  in case SimulateCallForRwSet (en_geth E) (rr_Caller req) (rr_Address req) (rr_Data req) (ToBigInt (rr_Value req)) 1000000 refBlock NumShards (sv_evmState s) of
                       None \<Rightarrow> (Panic, s)
                     | Some (Inl err, gasUsed, e) \<Rightarrow>
                         (Answer (RwReply \<lparr>ry_Success = False, ry_RwSet = [], ry_Error = err, ry_GasUsed = gasUsed\<rparr>), s\<lparr>sv_evmState := e\<rparr>)
                     | Some (Inr rwSet, gasUsed, e) \<Rightarrow>
                         (Answer (RwReply \<lparr>ry_Success = True, ry_RwSet = rwSet, ry_Error = [], ry_GasUsed = gasUsed\<rparr>), s\<lparr>sv_evmState := e\<rparr>))"

subsection \<open>Submission of transactions\<close>

text \<open>Lower case of ASCII letters: the messages of the EVM are ASCII.\<close>

definition to_lower :: "char \<Rightarrow> char" where
  "to_lower c = (let n = (of_char c :: nat) in if 65 \<le> n \<and> n \<le> 90 then char_of (n + 32) else c)"

fun contains :: "string \<Rightarrow> string \<Rightarrow> bool" where
  "contains [] sub = (sub = [])"
| "contains (c # s) sub = (take (length sub) (c # s) = sub \<or> contains s sub)"

definition containsIgnoreCase :: "string \<Rightarrow> string \<Rightarrow> bool" where
  "containsIgnoreCase s sub = contains (map to_lower s) (map to_lower sub)"

definition isDefiniteLocalError :: "string \<Rightarrow> bool" where
  "isDefiniteLocalError errStr =
     list_ex (\<lambda>e. length e \<le> length errStr \<and> containsIgnoreCase errStr e)
       [''insufficient balance'', ''insufficient funds'', ''nonce too low'', ''nonce too high'']"

datatype route = ToOrchestrator "(address, int) gomap" | LocalFailure string | LocalTx

definition cross_shard_map :: "int \<Rightarrow> address list \<Rightarrow> (address, int) gomap" where
  "cross_shard_map me accessedAddrs =
     fold (\<lambda>addr m. if shard_of addr \<noteq> me then mput addr (shard_of addr) m else m) accessedAddrs []"

text \<open>How \<open>handleTxSubmit\<close> decides between the orchestrator and the local queue.\<close>

definition submit_route :: "'s env \<Rightarrow> address \<Rightarrow> address \<Rightarrow> int \<Rightarrow> byte list \<Rightarrow> u64 \<Rightarrow> 's Server \<Rightarrow> (route \<times> 's Server) option" where
  "submit_route E from to value data gas s0 =
     (let toShard = shard_of to;
          (toCode, e) = ES_GetCode (en_geth E) to (sv_evmState s0);
          s = s0\<lparr>sv_evmState := e\<rparr>
      in if toShard \<noteq> sv_shardID s then Some (ToOrchestrator [(to, toShard)], s)
         else if 0 < length toCode \<and> 0 < length data
         then let simGas = (if gas < SimulationGasLimit then SimulationGasLimit else gas)
              in case SimulateCall (en_geth E) from to data value simGas (sv_shardID s) NumShards e of
                   None \<Rightarrow> None
                 | Some ((ret, accessedAddrs, hasCrossShard, simErr), e1) \<Rightarrow>
                     Some (case simErr of
                         Some errStr \<Rightarrow> if isDefiniteLocalError errStr then LocalFailure errStr else ToOrchestrator [(to, toShard)]
                       | None \<Rightarrow> if hasCrossShard then ToOrchestrator (cross_shard_map (sv_shardID s) accessedAddrs) else LocalTx,
                       s\<lparr>sv_evmState := e1\<rparr>)
         else Some (LocalTx, s))"

definition local_failure :: "string \<Rightarrow> outcome" where
  "local_failure err = ok_object [(''success'', JB False), (''error'', JS err), (''cross_shard'', JB False)]"

definition queue_local :: "'s env \<Rightarrow> address \<Rightarrow> address \<Rightarrow> int \<Rightarrow> byte list \<Rightarrow> u64 \<Rightarrow> 's Server \<Rightarrow> outcome \<times> 's Server" where
  "queue_local E from to value data gas s =
     (let lockedAmount = GetLockedAmountForAddress from (sv_chain s);
          (can, e) = (if 0 < value then CanDebit (en_geth E) from value lockedAmount (sv_evmState s) else (True, sv_evmState s));
          s1 = s\<lparr>sv_evmState := e\<rparr>
      in if \<not> can then (local_failure ''insufficient balance'', s1)
         else (ok_object [(''success'', JB True), (''tx_id'', JS (en_uuid E (sv_uuids s1))), (''status'', JS ''queued''), (''cross_shard'', JB False)],
               add_tx E (Transaction_zero\<lparr>tx_From := from, tx_To := to, tx_Value := NewBigInt (Some value), tx_Gas := gas, tx_Data := data\<rparr>) s1))"

definition handleTxSubmit :: "'s env \<Rightarrow> string + TxSubmitRequest \<Rightarrow> 's Server \<Rightarrow> outcome \<times> 's Server" where
  "handleTxSubmit E body s =
     (case body of
        Inl err \<Rightarrow> (bad_request err, s)
      | Inr req \<Rightarrow>
          (case parse_value (ts_Value req) of
             None \<Rightarrow> (bad_request ''invalid value'', s)
           | Some value \<Rightarrow>
               let from = en_HexToAddress E (ts_From req);
                   to = en_HexToAddress E (ts_To req);
                   data = en_FromHex E (ts_Data req);
                   gas = (if ts_Gas req = 0 then DefaultGasLimit else ts_Gas req);
                   fromShard = shard_of from;
                   refuse = (\<lambda>err. ok_object [(''success'', JB False), (''error'', JS err)])
               in if gas < MinGasLimit
                  then (refuse (''gas limit '' @ show_nat (unat gas) @ '' below minimum '' @ show_nat (unat MinGasLimit)), s)
                  else if MaxGasLimit < gas
                  then (refuse (''gas limit '' @ show_nat (unat gas) @ '' exceeds maximum '' @ show_nat (unat MaxGasLimit)), s)
                  else if fromShard \<noteq> sv_shardID s
                  then (bad_request (''sender '' @ en_addrHex E from @ '' belongs to shard '' @ show_int fromShard @ '', not shard '' @ show_int (sv_shardID s)), s)
                  else (case submit_route E from to value data gas s of
                     None \<Rightarrow> (Panic, s)
                   | Some (LocalFailure err, s1) \<Rightarrow> (local_failure err, s1)
                   | Some (ToOrchestrator crossShardAddrs, s1) \<Rightarrow> forwardToOrchestrator E from to value data gas crossShardAddrs s1
                   | Some (LocalTx, s1) \<Rightarrow> queue_local E from to value data gas s1)))"

subsection \<open>The direct two-phase commit\<close>

lemma funds_backed_ClearLock:
  assumes "funds_wf l"
  shows "funds_backed w (ClearLock l t) = funds_backed w (clearLockLocked l t)"
proof -
  have "getLockedAmountForAddrLocked (ClearLock l t) = getLockedAmountForAddrLocked (clearLockLocked l t)"
    using fc.amount_clear [OF assms, of t] fl.amount_clear [OF assms, of t] by auto
  then show ?thesis
    using fc.clear_ok [OF assms, of t] fl.clear_ok [OF assms, of t] by (simp add: funds_backed_def fc.clear_funds fl.clear_funds)
qed

context geth_state
begin

lemma handlePrepare_law:
  fixes a :: int and p :: address
  assumes "en_geth E = G" and "ok (es_stateDB (sv_evmState s))" and "\<not> sv_evmMu s"
  defines "w \<equiv> view (es_stateDB (sv_evmState s))" and "l \<equiv> c_funds (sv_chain s)"
  defines "can \<equiv> a \<le> uint (bal w p) - getLockedAmountForAddrLocked l p"
  shows "\<exists>e. handlePrepare E (Inr \<lparr>pr_TxID = x, pr_Address = p, pr_Amount = Some a\<rparr>) s =
      (Answer (PrepareReply \<lparr>ps_TxID = x, ps_Success = can, ps_Error = (if can then [] else ''insufficient available balance'')\<rparr>),
       s\<lparr>sv_evmState := e, sv_chain := (sv_chain s)\<lparr>c_funds := (if can then lockFundsLocked l x p a else l)\<rparr>\<rparr>) \<and> same (sv_evmState s) e"
proof -
  obtain b e where c: "CanDebit G p a (getLockedAmountForAddrLocked l p) (sv_evmState s) = (b, e)"
    by fastforce
  from CanDebit_law [OF assms(2), of p a "getLockedAmountForAddrLocked l p"] c have "b = can" "same (sv_evmState s) e"
    by (simp_all add: can_def w_def)
  then show ?thesis
    using assms(1,3) c unfolding l_def by (intro exI [of _ e])
      (cases s; auto simp: handlePrepare_def GetLockedAmountForAddress_def LockFunds_def)
qed

lemma handleCommit_law:
  assumes "en_geth E = G" and "ok (es_stateDB (sv_evmState s))" and "funds_backed (view (es_stateDB (sv_evmState s))) (c_funds (sv_chain s))"
    and "GetLockedFunds (c_funds (sv_chain s)) x = Some f"
  defines "w \<equiv> view (es_stateDB (sv_evmState s))"
  defines "w1 \<equiv> w\<lparr>bal := (bal w)(lf_Address f := bal w (lf_Address f) - word_of_int (lf_Amount f))\<rparr>"
  shows "\<exists>e. handleCommit E (Inr \<lparr>cr_TxID = x\<rparr>) s =
      (ok_object [(''success'', JB True)], s\<lparr>sv_evmState := e, sv_chain := (sv_chain s)\<lparr>c_funds := ClearLock (c_funds (sv_chain s)) x\<rparr>\<rparr>)
    \<and> ok (es_stateDB e) \<and> view (es_stateDB e) = w1 \<and> funds_backed w1 (ClearLock (c_funds (sv_chain s)) x)"
proof -
  have "bal w1 = (bal w)(lf_Address f := bal w (lf_Address f) - word_of_int (lf_Amount f))"
    by (simp add: w1_def)
  note f = funds_backed_debit [OF assms(3) [folded w_def] assms(4) this]
  have "lf_Amount f < 2 ^ 256"
    using f(2) uint_lt2p [of "bal w (lf_Address f)"] by simp
  from Debit_law [OF assms(2) f(1) this, of "lf_Address f"] f(2) obtain e where
    "Debit G (lf_Address f) (lf_Amount f) (sv_evmState s) = Some (None, e)" "ok (es_stateDB e)" "view (es_stateDB e) = w1"
    unfolding w_def w1_def by fastforce
  moreover have "funds_wf (c_funds (sv_chain s))"
    using assms(3) by (simp add: funds_backed_def)
  ultimately show ?thesis
    using f(3) assms(1,4) by (auto simp: handleCommit_def chain_ClearLock_def funds_backed_ClearLock)
qed

end


text \<open>A shard with no reservations.\<close>

definition fresh_server :: "mem Server" where
  "fresh_server = sample_server\<lparr>sv_chain := sample_shard\<rparr>"

lemma fresh_server_facts:
  "\<not> sv_evmMu fresh_server" "funds_backed (mem_view (es_stateDB (sv_evmState fresh_server))) (c_funds (sv_chain fresh_server))"
  "GetLockedFunds (c_funds (sv_chain fresh_server)) x = None" "getLockedAmountForAddrLocked (c_funds (sv_chain fresh_server)) a = 0"
  "uint (bal (mem_view (es_stateDB (sv_evmState fresh_server))) 1) = 100"
  using funds_wf_empty
  by (simp_all add: fresh_server_def sample_server_def sample_shard_def NewChain_def funds_backed_def GetLockedFunds_def
      FundLocks_empty_def getLockedAmountForAddrLocked_def mgetd_def sample_mem_def mem_view_def)


subsection \<open>Routing of submitted transactions\<close>

definition submit_gas :: "TxSubmitRequest \<Rightarrow> u64" where
  "submit_gas req = (if ts_Gas req = 0 then DefaultGasLimit else ts_Gas req)"

definition submit_valid :: "'s env \<Rightarrow> TxSubmitRequest \<Rightarrow> 's Server \<Rightarrow> bool" where
  "submit_valid E req s \<longleftrightarrow> MinGasLimit \<le> submit_gas req \<and> submit_gas req \<le> MaxGasLimit
     \<and> shard_of (en_HexToAddress E (ts_From req)) = sv_shardID s"

lemma handleTxSubmit_run:
  fixes E :: "'s env" and s :: "'s Server"
  assumes "parse_value (ts_Value req) = Some v"
  defines "from \<equiv> en_HexToAddress E (ts_From req)" and "to \<equiv> en_HexToAddress E (ts_To req)" and "data \<equiv> en_FromHex E (ts_Data req)"
  shows "\<not> submit_valid E req s \<Longrightarrow> snd (handleTxSubmit E (Inr req) s) = s"
    and "submit_valid E req s \<Longrightarrow> handleTxSubmit E (Inr req) s = (case submit_route E from to v data (submit_gas req) s of
         None \<Rightarrow> (Panic, s)
       | Some (LocalFailure err, s1) \<Rightarrow> (local_failure err, s1)
       | Some (ToOrchestrator m, s1) \<Rightarrow> forwardToOrchestrator E from to v data (submit_gas req) m s1
       | Some (LocalTx, s1) \<Rightarrow> queue_local E from to v data (submit_gas req) s1)"
  unfolding handleTxSubmit_def submit_valid_def Let_def from_def to_def data_def assms(1) sum.case option.case submit_gas_def [symmetric]
  by (auto simp: not_le)

lemma add_tx_sent [simp]: "sv_sent (add_tx E tx s) = sv_sent s"
  by (simp add: add_tx_def new_uuid_def)

lemma submit_route_cross: "shard_of to \<noteq> sv_shardID s \<Longrightarrow> submit_route E from to v data gas s \<noteq> None"
  by (auto simp: submit_route_def Let_def split: prod.splits)

context geth_state
begin

lemma submit_route_law:
  assumes "en_geth E = G" and "ok (es_stateDB (sv_evmState s))" and "submit_route E from to value data gas s = Some (r, s1)"
  shows "\<exists>e. s1 = s\<lparr>sv_evmState := e\<rparr> \<and> same (sv_evmState s) e"
    and "shard_of to \<noteq> sv_shardID s \<Longrightarrow> r = ToOrchestrator [(to, shard_of to)]"
    and "r = LocalTx \<Longrightarrow> shard_of to = sv_shardID s"
proof -
  obtain toCode e where c: "ES_GetCode G to (sv_evmState s) = (toCode, e)"
    by fastforce
  have e: "same (sv_evmState s) e"
    using es_db_read [OF assms(2), of "GetCode to"] c by (auto simp: ES_GetCode_def reads_only_def split: prod.splits)
  from assms(3) consider "shard_of to \<noteq> sv_shardID s" "r = ToOrchestrator [(to, shard_of to)]" "s1 = s\<lparr>sv_evmState := e\<rparr>"
    | "shard_of to = sv_shardID s" "r = LocalTx" "s1 = s\<lparr>sv_evmState := e\<rparr>"
    | out e1 g where "shard_of to = sv_shardID s" "SimulateCall G from to data value g (sv_shardID s) NumShards e = Some (out, e1)" "s1 = s\<lparr>sv_evmState := e1\<rparr>"
    unfolding submit_route_def assms(1) by (auto simp: c Let_def split: if_splits option.splits prod.splits)
  note cases = this
  show "\<exists>e. s1 = s\<lparr>sv_evmState := e\<rparr> \<and> same (sv_evmState s) e"
    using cases e SimulateCall_pure [OF sameD(1) [OF e]] same_trans [OF e] by metis
  show "shard_of to \<noteq> sv_shardID s \<Longrightarrow> r = ToOrchestrator [(to, shard_of to)]" "r = LocalTx \<Longrightarrow> shard_of to = sv_shardID s"
    using cases by auto
qed

lemma queue_local_law:
  assumes "en_geth E = G" and "ok (es_stateDB (sv_evmState s))" and "queue_local E from to v data gas s = (out, s1)"
  defines "can \<equiv> (0 < v \<longrightarrow> v \<le> uint (bal (view (es_stateDB (sv_evmState s))) from) - getLockedAmountForAddrLocked (c_funds (sv_chain s)) from)"
  shows "\<exists>e. same (sv_evmState s) e \<and> s1 = (if can then add_tx E (Transaction_zero\<lparr>tx_From := from, tx_To := to, tx_Value := Some (Some v), tx_Gas := gas,
    tx_Data := data\<rparr>) (s\<lparr>sv_evmState := e\<rparr>) else s\<lparr>sv_evmState := e\<rparr>)"
proof (cases "0 < v")
  case True
  let ?l = "getLockedAmountForAddrLocked (c_funds (sv_chain s)) from"
  obtain b e where c: "CanDebit G from v ?l (sv_evmState s) = (b, e)"
    by fastforce
  from CanDebit_law [OF assms(2), of "from" v ?l] c have "b = can" "same (sv_evmState s) e"
    using True by (simp_all add: can_def)
  then show ?thesis
    using assms(1,3) True c by (intro exI [of _ e]) (auto simp: queue_local_def GetLockedAmountForAddress_def NewBigInt_def Let_def split: if_splits)
next
  case False
  then show ?thesis
    using assms(1,3) same_refl [OF assms(2)] by (intro exI [of _ "sv_evmState s"]) (auto simp: queue_local_def NewBigInt_def can_def Let_def)
qed

end


text \<open>Address 2 belongs to shard 2, address 1 to shard 1.\<close>

definition routing_env :: "mem env" where
  "routing_env = sample_env\<lparr>en_HexToAddress := (\<lambda>h. if h = ''a'' then 2 else 1)\<rparr>"


subsection \<open>Contracts deployed for another shard\<close>

text \<open>The recorded writes of a run form a map: every slot once.\<close>

definition writes_wf :: "'s TrackingStateDB \<Rightarrow> bool" where
  "writes_wf t \<longleftrightarrow> (\<forall>a. wfmap (mgetd [] (td_storageWrites t) a))"

lemma tracking_call_writes_wf: "writes_wf t \<Longrightarrow> writes_wf (snd (tracking_call D c t))"
proof -
  assume wf: "writes_wf t"
  have "td_storageWrites (snd (tracking_call D c t)) = (case c of SetState a k v \<Rightarrow> note_write a k v (td_storageWrites t) | _ \<Rightarrow> td_storageWrites t)"
    by (cases c) (simp_all add: tracking_call_def forward_inner tracking_GetState_def tracking_GetStateAndCommittedState_def
        tracking_SetState_def recordAccess_def Let_def split: prod.splits)
  then show ?thesis
    using wf by (cases c) (auto simp: writes_wf_def note_write_def Let_def mgetd_mput wfmap_def distinct_update)
qed

lemma run_writes_wf: "writes_wf t \<Longrightarrow> writes_wf (snd (run_evm p (tracking_call D) t))"
proof (induction p arbitrary: t)
  case (Op c k)
  have "writes_wf (snd (evm_op_run (tracking_call D) c t))"
    using Op.prems tracking_call_writes_wf [of _ D] by (cases c) (auto simp: can_transfer_def transfer_def Let_def split_def)
  then show ?case
    using Op.IH by simp
qed simp

lemma deploy_writes_wf:
  assumes "DeployContractTracked G a code v gas n e = Some (d, e1)"
  shows "wfmap (dr_writes d)"
proof -
  have "writes_wf (NewTrackingStateDB s 0 n)" for s :: 'a
    by (simp add: writes_wf_def NewTrackingStateDB_def)
  from run_writes_wf [OF this] assms show ?thesis
    by (auto simp: DeployContractTracked_def writes_wf_def GetStorageWritesForAddress_def Let_def split_def split: option.splits)
qed

text \<open>The storage that is sent lists the recorded writes.\<close>

lemma mput_append: "mget m k = None \<Longrightarrow> mput k v m = m @ [(k, v)]"
  by (induction m) (auto split: if_splits)

lemma storage_hex_map:
  assumes "inj (en_hashHex E)" and "wfmap m"
  shows "storage_hex E m = map (\<lambda>(k, v). (en_hashHex E k, en_hashHex E v)) m"
proof -
  let ?f = "\<lambda>(k, v). (en_hashHex E k, en_hashHex E v)"
  have "fold (\<lambda>(k, v). mput (en_hashHex E k) (en_hashHex E v)) m (map ?f m0) = map ?f (m0 @ m)" if "wfmap (m0 @ m)" for m0 m
    using that
  proof (induction m arbitrary: m0)
    case (Cons p m)
    obtain k v where p: "p = (k, v)"
      by fastforce
    have "wfmap ((m0 @ [p]) @ m)"
      using Cons.prems by simp
    moreover have "mget (map ?f m0) (en_hashHex E k) = None"
      using Cons.prems assms(1) by (force simp: p wfmap_def map_of_eq_None_iff inj_eq)
    ultimately show ?case
      using Cons.IH [of "m0 @ [p]"] by (simp add: p mput_append)
  qed simp
  from this [of "[]" m] assms(2) show ?thesis
    by (simp add: storage_hex_def)
qed

context geth_state
begin

lemma SetCode_law:
  assumes "ok (es_stateDB e)"
  shows "ok (es_stateDB (ES_SetCode G a code e))" "sto (view (es_stateDB (ES_SetCode G a code e))) = sto (view (es_stateDB e))"
  using es_db_write(1) [OF assms, of "SetCode a code"] other_call [OF assms, of "SetCode a code"]
  by (simp_all add: ES_SetCode_def is_snapshot_call_def storage_call_def es_db_inner)

lemma set_storage_fold:
  assumes "ok (es_stateDB e)"
  shows "let e1 = fold (\<lambda>(k, v). SetStorageAt G a k v) kvs e in
    ok (es_stateDB e1) \<and> sto (view (es_stateDB e1)) = (sto (view (es_stateDB e)))(a := fold (\<lambda>(k, v) f. f(k := v)) kvs (sto (view (es_stateDB e)) a))"
  using assms
proof (induction kvs arbitrary: e)
  case (Cons p kvs)
  then show ?case
    using SetStorageAt_law [OF Cons.prems] by (cases p) (simp add: Let_def fun_upd_def cong: if_cong)
qed (simp add: Let_def)

end

lemma fold_override:
  "wfmap m \<Longrightarrow> fold (\<lambda>(k, v) f. f(k := v)) m f = (\<lambda>k. case mget m k of None \<Rightarrow> f k | Some v \<Rightarrow> v)"
proof (induction m arbitrary: f)
  case (Cons p m)
  obtain k v where p: "p = (k, v)"
    by fastforce
  have "mget m k = None" and "wfmap m"
    using Cons.prems by (simp_all add: p wfmap_def map_of_eq_None_iff)
  then show ?case
    using Cons.IH [of "f(k := v)"] by (auto simp: p fun_eq_iff split: option.splits)
qed simp


text \<open>Numbers in decimal for hashes and addresses; a constructor that writes 5 to slot 0.\<close>

definition parse_word :: "string \<Rightarrow> 'a :: len word" where
  "parse_word t = (case scan_digits 10 0 t of None \<Rightarrow> 0 | Some n \<Rightarrow> of_nat n)"

lemma parse_word_show: "parse_word (show_nat (unat w)) = w"
  by (simp add: parse_word_def scan_show_nat)

definition decimal_env :: "mem env" where
  "decimal_env = sample_env\<lparr>en_HexToHash := parse_word, en_hashHex := (\<lambda>h. show_nat (unat h)),
     en_HexToAddress := parse_word, en_addrHex := (\<lambda>a. show_nat (unat a)),
     en_geth := mem_geth\<lparr>g_Create := (\<lambda>cx a code gas v. Op (DB (SetState (a + 1) 0 5)) (\<lambda>_. Done \<lparr>er_ret = code, er_addr = a + 1, er_gasLeft = gas, er_err = None\<rparr>))\<rparr>\<rparr>"


text \<open>A commit is reported as successful even if nothing was debited: when the balance no longer covers the reserved
  amount, the commit request leaves balances and storage unchanged and drops the reservation, and
  still answers with success.\<close>

lemma failed_debit_reported:
  assumes "geth_state (en_geth E) ok view saved" and "ok (es_stateDB (sv_evmState s))"
    and "GetLockedFunds (c_funds (sv_chain s)) x = Some f" and "lf_Amount f < 2 ^ 256"
    and "uint (bal (view (es_stateDB (sv_evmState s))) (lf_Address f)) < lf_Amount f"
    and "handleCommit E (Inr \<lparr>cr_TxID = x\<rparr>) s = (out, s1)"
  shows "out = ok_object [(''success'', JB True)] \<and> view (es_stateDB (sv_evmState s1)) = view (es_stateDB (sv_evmState s))
    \<and> GetLockedFunds (c_funds (sv_chain s1)) x = None"
proof -
  have "0 \<le> lf_Amount f"
    using assms(5) uint_ge_0 [of "bal (view (es_stateDB (sv_evmState s))) (lf_Address f)"] by linarith
  from geth_state.Debit_law [OF assms(1,2) this assms(4), of "lf_Address f"] assms(5) obtain e where
    e: "Debit (en_geth E) (lf_Address f) (lf_Amount f) (sv_evmState s) = Some (Some ErrInsufficientFunds, e)"
      "geth_state.same ok view saved (sv_evmState s) e"
    by auto
  from geth_state.sameD(2) [OF assms(1) e(2)] e(1) assms(3,6) show ?thesis
    by (auto simp: handleCommit_def chain_ClearLock_def fc.clear_funds)
qed

text \<open>A local transfer of 90 after 30 of 100 coins were reserved.\<close>

end
