(* ===== verification/Shard_RPC.thy ===== *)
theory Shard_RPC
  imports Shard_Handlers
begin

text \<open>
  The JSON-RPC interface of a state shard (\<open>internal/shard/jsonrpc.go\<close>) and the routes of the server
  (\<open>setupRoutes\<close>), which together with the block producer are the steps a shard can take. A raw
  parameter carries what it decodes to at each type the handler asks for.
\<close>

subsection \<open>JSON-RPC\<close>

record txArgs =
  ta_From :: address
  ta_To :: "address option"
  ta_Data :: "byte list"
  ta_Value :: "int option"
  ta_Gas :: "u64 option"

record raw_param =
  rm_address :: "address option"
  rm_hash :: "hash option"
  rm_args :: "txArgs option"

record jsonRPCRequest =
  jq_Method :: string
  jq_Params :: "raw_param list"
  jq_ID :: json

datatype rpc_result =
    RNil | RU64 u64 | RBig int | RBytes "byte list" | RString string | RReceipt Receipt | RObject "(string, json) gomap"

record rpcError =
  rx_Code :: int
  rx_Message :: string

record jsonRPCResponse =
  jr_Result :: rpc_result
  jr_Error :: "rpcError option"
  jr_ID :: json

datatype rpc_outcome = RpcAnswer jsonRPCResponse | RpcBad string | RpcPanic

definition DefaultDeployGas :: u64 where
  "DefaultDeployGas = 3000000"

definition DefaultCallGas :: u64 where
  "DefaultCallGas = 1000000"

definition DefaultEstimateGas :: u64 where
  "DefaultEstimateGas = 100000"

definition ChainID :: u64 where
  "ChainID = 1337"

definition rpc_fail :: "int \<Rightarrow> string \<Rightarrow> rpc_result \<times> rpcError option" where
  "rpc_fail code msg = (RNil, Some \<lparr>rx_Code = code, rx_Message = msg\<rparr>)"

text \<open>The methods that read one account; the read is \<open>f\<close>.\<close>

definition rpc_account :: "(address \<Rightarrow> 's EVMState \<Rightarrow> rpc_result \<times> 's EVMState) \<Rightarrow> raw_param list \<Rightarrow> 's Server
    \<Rightarrow> ((rpc_result \<times> rpcError option) \<times> 's Server) option" where
  "rpc_account f ps s =
     (case ps of
        [] \<Rightarrow> None
      | p # _ \<Rightarrow>
          (case rm_address p of
             None \<Rightarrow> Some (rpc_fail (-32602) ''invalid address parameter'', s)
           | Some addr \<Rightarrow> (case f addr (sv_evmState s) of (r, e) \<Rightarrow> Some ((r, None), s\<lparr>sv_evmState := e\<rparr>))))"

definition rpc_receipt :: "hash \<Rightarrow> txArgs \<Rightarrow> 's EVMState \<Rightarrow> address option \<Rightarrow> byte list \<Rightarrow> u64 \<Rightarrow> byte list list \<Rightarrow> Receipt" where
  "rpc_receipt txHash args e contractAddr returnData gasUsed logs =
     \<lparr>rc_TxHash = txHash, rc_TransactionIndex = 0, rc_BlockHash = 0, rc_BlockNumber = Some (sint (es_blockNum e)),
      rc_From = ta_From args, rc_To = ta_To args, rc_CumulativeGasUsed = gasUsed, rc_GasUsed = gasUsed,
      rc_ContractAddress = contractAddr, rc_Logs = map Some logs, rc_LogsBloom = replicate 256 0, rc_Status = 1,
      rc_ReturnData = returnData\<rparr>"

definition rpc_sendTransaction :: "'s env \<Rightarrow> raw_param list \<Rightarrow> 's Server \<Rightarrow> ((rpc_result \<times> rpcError option) \<times> 's Server) option" where
  "rpc_sendTransaction E ps s0 =
     (case ps of
        [] \<Rightarrow> None
      | p # _ \<Rightarrow>
          (case rm_args p of
             None \<Rightarrow> Some (rpc_fail (-32602) ''invalid transaction parameters'', s0)
           | Some args \<Rightarrow>
               let gas = (case ta_Gas args of None \<Rightarrow> DefaultDeployGas | Some g \<Rightarrow> g);
                   value = (case ta_Value args of None \<Rightarrow> 0 | Some v \<Rightarrow> v);
                   (txID, s) = new_uuid E s0;
                   txHash = g_BytesToHash (en_geth E) (string_bytes txID);
                   finish = (\<lambda>err contractAddr returnData gasUsed logs e. case err of
                       Some msg \<Rightarrow> (rpc_fail (-32000) msg, s\<lparr>sv_evmState := e\<rparr>)
                     | None \<Rightarrow> ((RString (en_hashHex E txHash), None),
                         s\<lparr>sv_evmState := e, sv_receipts := AddReceipt (rpc_receipt txHash args e contractAddr returnData gasUsed logs) (sv_receipts s)\<rparr>))
               in case ta_To args of
                    None \<Rightarrow> map_option (\<lambda>(d, e). finish (dr_err d) (Some (dr_addr d)) (dr_ret d) (dr_gasUsed d) (dr_logs d) e)
                      (DeployContract (en_geth E) (ta_From args) (ta_Data args) value gas (sv_evmState s))
                  | Some to \<Rightarrow> map_option (\<lambda>((ret, gasUsed, logs, err), e). finish err None ret gasUsed logs e)
                      (CallContract (en_geth E) (ta_From args) to (ta_Data args) value gas (sv_evmState s))))"

definition rpc_getReceipt :: "raw_param list \<Rightarrow> 's Server \<Rightarrow> ((rpc_result \<times> rpcError option) \<times> 's Server) option" where
  "rpc_getReceipt ps s =
     (case ps of
        [] \<Rightarrow> None
      | p # _ \<Rightarrow>
          (case rm_hash p of
             None \<Rightarrow> Some (rpc_fail (-32602) ''invalid transaction hash'', s)
           | Some hash \<Rightarrow>
               (case GetReceipt (sv_receipts s) hash of
                  Some receipt \<Rightarrow> Some ((RReceipt receipt, None), s)
                | None \<Rightarrow> Some ((RNil, None), s))))"

definition rpc_block :: "'s env \<Rightarrow> 's EVMState \<Rightarrow> rpc_result \<times> 's EVMState" where
  "rpc_block E e =
     (let (root, e1) = GetStateRoot (en_geth E) e;
          zero = JS (en_hashHex E 0)
      in (RObject [(''number'', JN (uint (es_blockNum e))), (''hash'', zero), (''parentHash'', zero),
           (''nonce'', JS ''0x0000000000000000''), (''sha3Uncles'', zero), (''logsBloom'', JS (''0x'' @ replicate 512 (CHR ''0''))),
           (''transactionsRoot'', zero), (''stateRoot'', JS (en_hashHex E root)), (''receiptsRoot'', zero),
           (''miner'', JS (en_addrHex E 0)), (''difficulty'', JS ''0x0''), (''totalDifficulty'', JS ''0x0''),
           (''extraData'', JS ''0x''), (''size'', JS ''0x0''), (''gasLimit'', JS ''0x1c9c380''), (''gasUsed'', JS ''0x0''),
           (''timestamp'', JN (uint (es_timestamp e))), (''transactions'', JL []), (''uncles'', JL [])], e1))"

definition rpc_call :: "'s env \<Rightarrow> raw_param list \<Rightarrow> 's Server \<Rightarrow> ((rpc_result \<times> rpcError option) \<times> 's Server) option" where
  "rpc_call E ps s =
     (case ps of
        [] \<Rightarrow> None
      | p # _ \<Rightarrow>
          (case rm_args p of
             None \<Rightarrow> Some (rpc_fail (-32602) ''invalid call parameters'', s)
           | Some args \<Rightarrow>
               let gas = (case ta_Gas args of None \<Rightarrow> DefaultCallGas | Some g \<Rightarrow> g)
               in case ta_To args of
                    None \<Rightarrow> Some (rpc_fail (-32000) ''to address required'', s)
                  | Some to \<Rightarrow>
                      (case ES_StaticCall (en_geth E) (ta_From args) to (ta_Data args) gas (sv_evmState s) of
                         ((ret, gasUsed, err), e) \<Rightarrow>
                           Some (case err of Some msg \<Rightarrow> rpc_fail (-32000) msg | None \<Rightarrow> (RBytes ret, None), s\<lparr>sv_evmState := e\<rparr>))))"

definition rpc_method :: "'s env \<Rightarrow> string \<Rightarrow> raw_param list \<Rightarrow> 's Server \<Rightarrow> ((rpc_result \<times> rpcError option) \<times> 's Server) option" where
  "rpc_method E m ps s =
     (let G = en_geth E; e = sv_evmState s in
      if m = ''eth_chainId'' then Some ((RU64 ChainID, None), s)
      else if m = ''eth_blockNumber'' then Some ((RU64 (es_blockNum e), None), s)
      else if m = ''eth_getBalance'' then rpc_account (\<lambda>a. map_prod RBig id \<circ> ES_GetBalance G a) ps s
      else if m = ''eth_getCode'' then rpc_account (\<lambda>a. map_prod RBytes id \<circ> ES_GetCode G a) ps s
      else if m = ''eth_getTransactionCount'' then rpc_account (\<lambda>a. map_prod RU64 id \<circ> ES_GetNonce G a) ps s
      else if m = ''eth_sendTransaction'' then rpc_sendTransaction E ps s
      else if m = ''eth_getTransactionReceipt'' then rpc_getReceipt ps s
      else if m = ''eth_getBlockByNumber'' then (case rpc_block E e of (r, e1) \<Rightarrow> Some ((r, None), s\<lparr>sv_evmState := e1\<rparr>))
      else if m = ''eth_call'' then rpc_call E ps s
      else if m = ''eth_gasPrice'' then Some ((RU64 0, None), s)
      else if m = ''eth_estimateGas'' then Some ((RU64 DefaultEstimateGas, None), s)
      else Some (rpc_fail (-32601) (''method not found: '' @ m), s))"

definition handleJSONRPC :: "'s env \<Rightarrow> string + jsonRPCRequest \<Rightarrow> 's Server \<Rightarrow> rpc_outcome \<times> 's Server" where
  "handleJSONRPC E body s =
     (case body of
        Inl err \<Rightarrow> (RpcBad err, s)
      | Inr req \<Rightarrow>
          (case rpc_method E (jq_Method req) (jq_Params req) s of
             None \<Rightarrow> (RpcPanic, s)
           | Some ((result, err), s1) \<Rightarrow> (RpcAnswer \<lparr>jr_Result = result, jr_Error = err, jr_ID = jq_ID req\<rparr>, s1)))"

subsection \<open>The steps of a shard\<close>

datatype request =
    RqBalance string | RqTransfer "string + TransferRequest" | RqFaucet "string + FaucetRequest"
  | RqDeploy "string + DeployRequest" | RqCall "string + CallRequest" | RqStaticCall "string + CallRequest"
  | RqCode string | RqSetCode "string + SetCodeRequest" | RqStorage string string string | RqStateRoot
  | RqPrepare "string + PrepareRequest" | RqCommit "string + CommitRequest" | RqAbort "string + CommitRequest"
  | RqCredit "string + CreditRequest" | RqFetch "string + StateFetchRequest" | RqRwSet "string + RwSetRequest"
  | RqCrossTransfer "string + CrossShardTransferRequest" | RqSubmit "string + TxSubmitRequest"
  | RqBlock "string + OrchestratorShardBlock" | RqHealth | RqInfo | RqRPC "string + jsonRPCRequest"

text \<open>The route table, without the answers.\<close>

fun serve :: "'s env \<Rightarrow> 't tries \<Rightarrow> request \<Rightarrow> 's Server \<Rightarrow> 's Server" where
  "serve E T (RqBalance a) s = snd (handleGetBalance E a s)"
| "serve E T (RqTransfer b) s = snd (handleLocalTransfer E b s)"
| "serve E T (RqFaucet b) s = snd (handleFaucet E b s)"
| "serve E T (RqDeploy b) s = snd (handleDeploy E b s)"
| "serve E T (RqCall b) s = snd (handleCall E b s)"
| "serve E T (RqStaticCall b) s = snd (handleStaticCall E b s)"
| "serve E T (RqCode a) s = snd (handleGetCode E a s)"
| "serve E T (RqSetCode b) s = snd (handleSetCode E b s)"
| "serve E T (RqStorage a k p) s = snd (handleGetStorage E T a k p s)"
| "serve E T RqStateRoot s = snd (handleGetStateRoot E s)"
| "serve E T (RqPrepare b) s = snd (handlePrepare E b s)"
| "serve E T (RqCommit b) s = snd (handleCommit E b s)"
| "serve E T (RqAbort b) s = snd (handleAbort b s)"
| "serve E T (RqCredit b) s = snd (handleCredit E b s)"
| "serve E T (RqFetch b) s = snd (handleStateFetch E b s)"
| "serve E T (RqRwSet b) s = snd (handleRwSet E b s)"
| "serve E T (RqCrossTransfer b) s = snd (handleCrossShardTransfer E b s)"
| "serve E T (RqSubmit b) s = snd (handleTxSubmit E b s)"
| "serve E T (RqBlock b) s = snd (handleOrchestratorShardBlock E b s)"
| "serve E T RqHealth s = snd (handleHealth s)"
| "serve E T RqInfo s = snd (handleInfo s)"
| "serve E T (RqRPC b) s = snd (handleJSONRPC E b s)"

text \<open>The steps of a shard: it serves a request, or its block producer ticks.\<close>

inductive shard_step :: "'s env \<Rightarrow> 't tries \<Rightarrow> 's Server \<Rightarrow> 's Server \<Rightarrow> bool" for E T where
  Serve: "shard_step E T s (serve E T rq s)"
| Tick: "producer_tick E now s = Some s1 \<Longrightarrow> shard_step E T s s1"

inductive_cases shard_stepE: "shard_step E T s s1"

subsection \<open>What requests leave alone\<close>

text \<open>
  No request touches the slot locks or the blocks of the chain, and a held mutex stays held. The block
  buffer changes only when an orchestrator block arrives.
\<close>

definition serves :: "'s Server \<Rightarrow> 's Server \<Rightarrow> bool" where
  "serves s s1 \<longleftrightarrow> c_slotLocks (sv_chain s1) = c_slotLocks (sv_chain s) \<and> c_blocks (sv_chain s1) = c_blocks (sv_chain s)
     \<and> c_height (sv_chain s1) = c_height (sv_chain s) \<and> c_shardID (sv_chain s1) = c_shardID (sv_chain s) \<and> (sv_evmMu s \<longrightarrow> sv_evmMu s1)"

lemma serves_refl [simp]: "serves s s"
  by (simp add: serves_def)

lemma serves_trans: "serves s s1 \<Longrightarrow> serves s1 s2 \<Longrightarrow> serves s s2"
  by (simp add: serves_def)

lemma serves_fold: "(\<And>x s. serves s (f x s)) \<Longrightarrow> serves s (fold f xs s)"
  by (induction xs arbitrary: s) (auto intro: serves_trans)

text \<open>Processing an orchestrator block queues transactions and notes credits, calls and decisions.\<close>

definition shape :: "'s Server \<Rightarrow> slot_table \<times> StateShardBlock list \<times> u64 \<times> int \<times> bool" where
  "shape s = (c_slotLocks (sv_chain s), c_blocks (sv_chain s), c_height (sv_chain s), c_shardID (sv_chain s), sv_evmMu s)"

lemma shape_serves: "shape s1 = shape s \<Longrightarrow> serves s s1"
  by (simp add: shape_def serves_def)

lemma shape_fold: "(\<And>x s. shape (f x s) = shape s) \<Longrightarrow> shape (fold f xs s) = shape s"
  by (induction xs arbitrary: s) auto

lemma shape_add_tx [simp]: "shape (add_tx E tx s) = shape s"
  by (simp add: shape_def add_tx_def new_uuid_def AddTx_def)

lemma shape_queue [simp]:
  "shape (queue_debit E x s) = shape s" "shape (queue_credits E x s) = shape s" "shape (queue_write_set E x s) = shape s"
  "shape (queue_finalize E x s) = shape s"
  by (auto simp: queue_debit_def queue_credits_def queue_write_set_def queue_finalize_def Let_def shape_fold split: option.splits)

lemma shape_process_result [simp]: "shape (process_result E r s) = shape s"
proof -
  have "shape (s\<lparr>sv_chain := c\<rparr>) = shape s" if "CheckAndMarkCommitProcessed x (sv_chain s) = (b, c)" for x b c
    using that by (auto simp: CheckAndMarkCommitProcessed_def shape_def split: if_splits)
  then show ?thesis
    by (auto simp: process_result_def Let_def split: prod.splits)
qed

lemma shape_process_order [simp]: "shape (process_order E tx s) = shape s"
proof -
  have "shape (store_credit tx s) = shape s" "shape (s\<lparr>sv_chain := StorePendingCall tx (sv_chain s)\<rparr>) = shape s" for s :: "'a Server"
    by (auto simp: store_credit_def StorePendingCredit_def StorePendingCall_def shape_def Let_def)
  then show ?thesis
    by (auto simp: process_order_def Let_def)
qed

lemma serves_process_block: "serves s (processOrchestratorBlock E b s)"
proof -
  have "shape (s\<lparr>sv_chain := SetLastOrchestratorHeight h (sv_chain s)\<rparr>) = shape s" for h and s :: "'a Server"
    by (simp add: shape_def SetLastOrchestratorHeight_def)
  then show ?thesis
    by (intro shape_serves) (simp add: processOrchestratorBlock_def Let_def shape_fold)
qed

lemma serves_receive: "serves s (snd (receive_block E b s))" "bb_inv (sv_blockBuffer s) \<Longrightarrow> bb_inv (sv_blockBuffer (snd (receive_block E b s)))"
proof -
  obtain bs bb where p: "ProcessBlock (sv_blockBuffer s) b = (bs, bb)"
    by fastforce
  have s: "serves s (s\<lparr>sv_blockBuffer := bb\<rparr>)"
    by (simp add: serves_def)
  have "sv_blockBuffer (fold (processOrchestratorBlock E) bs s) = sv_blockBuffer s" for s :: "'a Server"
    by (induction bs arbitrary: s) (simp_all add: process_block_buffer)
  with serves_trans [OF s serves_fold [of "processOrchestratorBlock E"]] serves_process_block s ProcessBlock_inv [of "sv_blockBuffer s" b] p
  show "serves s (snd (receive_block E b s))" "bb_inv (sv_blockBuffer s) \<Longrightarrow> bb_inv (sv_blockBuffer (snd (receive_block E b s)))"
    by (auto simp: receive_block_def Let_def)
qed

text \<open>Most handlers change at most the EVM state, the receipts, the log of requests and the UUIDs used.\<close>

definition quiet :: "'s Server \<Rightarrow> 's Server \<Rightarrow> bool" where
  "quiet s s1 \<longleftrightarrow> sv_chain s1 = sv_chain s \<and> sv_blockBuffer s1 = sv_blockBuffer s \<and> sv_evmMu s1 = sv_evmMu s"

lemma quiet_simps [simp]:
  "quiet s s" "quiet s (s1\<lparr>sv_evmState := e\<rparr>) = quiet s s1" "quiet s (s1\<lparr>sv_sent := q\<rparr>) = quiet s s1"
  "quiet s (s1\<lparr>sv_uuids := n\<rparr>) = quiet s s1" "quiet s (s1\<lparr>sv_receipts := r\<rparr>) = quiet s s1"
  by (simp_all add: quiet_def)

lemma quietD: "quiet s s1 \<Longrightarrow> serves s s1" "quiet s s1 \<Longrightarrow> sv_blockBuffer s1 = sv_blockBuffer s"
  by (simp_all add: quiet_def serves_def)

lemmas result_splits = sum.splits option.splits prod.splits if_splits

lemma quiet_accounts:
  "quiet s (snd (handleGetBalance E a s))" "quiet s (snd (handleLocalTransfer E b1 s))" "quiet s (snd (handleFaucet E b2 s))"
  "quiet s (snd (handleCredit E b3 s))" "quiet s (snd (handleGetCode E a s))" "quiet s (snd (handleGetStateRoot E s))"
  "quiet s (snd (handleStateFetch E b4 s))" "quiet s (snd (handleHealth s))" "quiet s (snd (handleInfo s))"
  by (simp_all add: handleGetBalance_def handleLocalTransfer_def handleFaucet_def handleCredit_def handleGetCode_def
      handleGetStateRoot_def handleStateFetch_def handleHealth_def handleInfo_def Let_def split: result_splits)

lemma quiet_contracts:
  "quiet s (snd (handleCall E b5 s))" "quiet s (snd (handleStaticCall E b5 s))" "quiet s (snd (handleSetCode E b6 s))"
  "quiet s (snd (handleGetStorage E T a k p s))" "quiet s (snd (handleRwSet E b7 s))" "quiet s (snd (handleDeploy E b8 s))"
  "quiet s (snd (handleCrossShardTransfer E b9 s))" "quiet s (snd (forwardToOrchestrator E from to v data gas m s))"
  by (simp_all add: handleCall_def handleStaticCall_def handleSetCode_def handleGetStorage_def handleRwSet_def handleDeploy_def
      handleCrossShardTransfer_def forwardToOrchestrator_def new_uuid_def http_do_def Let_def split: result_splits)

lemma quiet_rpc: "quiet s (snd (handleJSONRPC E b s))"
proof -
  have "quiet s s1" if "rpc_method E m ps s = Some (r, s1)" for m ps r s1
    using that by (auto simp: rpc_method_def rpc_account_def rpc_sendTransaction_def rpc_getReceipt_def rpc_call_def new_uuid_def Let_def
        split: if_splits list.splits option.splits prod.splits)
  then show ?thesis
    by (auto simp: handleJSONRPC_def split: sum.splits option.splits)
qed

lemmas quiet_handlers = quiet_accounts quiet_contracts quiet_rpc

lemma serves_submit: "serves s (snd (handleTxSubmit E b s)) \<and> sv_blockBuffer (snd (handleTxSubmit E b s)) = sv_blockBuffer s"
proof -
  have r: "quiet s s1" if "submit_route E from to v data gas s = Some (r, s1)" for "from" to v data gas r s1
    using that by (auto simp: submit_route_def Let_def split: result_splits)
  have f: "quiet s (snd (forwardToOrchestrator E from to v data gas m s1))" if "quiet s s1" for "from" to v data gas m s1
    using that quiet_contracts(8) [of s1 E "from" to v data gas m] by (simp add: quiet_def)
  have l: "serves s (snd (queue_local E from to v data gas s1)) \<and> sv_blockBuffer (snd (queue_local E from to v data gas s1)) = sv_blockBuffer s"
    if "quiet s s1" for "from" to v data gas s1
    using that by (auto simp: queue_local_def quiet_def serves_def add_tx_def new_uuid_def AddTx_def Let_def split: result_splits)
  let ?good = "\<lambda>s1. serves s s1 \<and> sv_blockBuffer s1 = sv_blockBuffer s"
  have q: "?good s1" if "quiet s s1" for s1
    using that by (simp add: quiet_def serves_def)
  have valid: "?good (snd (handleTxSubmit E (Inr req) s))" if "parse_value (ts_Value req) = Some v" "submit_valid E req s" for req v
    unfolding handleTxSubmit_run(2) [OF that]
    using q [OF r] q [OF f [OF r]] l [OF r] by (simp split: option.split route.split)
  show ?thesis
  proof (cases b)
    case (Inr req)
    show ?thesis
    proof (cases "parse_value (ts_Value req)")
      case None
      then show ?thesis
        by (simp add: Inr handleTxSubmit_def)
    next
      case (Some v)
      show ?thesis
        using valid [OF Some] handleTxSubmit_run(1) [OF Some, where E = E and s = s] by (cases "submit_valid E req s") (simp_all add: Inr)
    qed
  qed (simp add: handleTxSubmit_def)
qed

lemma serves_2pc:
  "serves s (snd (handlePrepare E b1 s)) \<and> sv_blockBuffer (snd (handlePrepare E b1 s)) = sv_blockBuffer s"
  "serves s (snd (handleCommit E b2 s)) \<and> sv_blockBuffer (snd (handleCommit E b2 s)) = sv_blockBuffer s"
  "serves s (snd (handleAbort b2 s)) \<and> sv_blockBuffer (snd (handleAbort b2 s)) = sv_blockBuffer s"
  by (auto simp: handlePrepare_def handleCommit_def handleAbort_def serves_def LockFunds_def chain_ClearLock_def Let_def split: result_splits)

lemma serve_law: "serves s (serve E T rq s) \<and> (bb_inv (sv_blockBuffer s) \<longrightarrow> bb_inv (sv_blockBuffer (serve E T rq s)))"
proof (cases rq)
  case (RqBlock b)
  then show ?thesis
    using serves_receive [of s E] by (auto simp: handleOrchestratorShardBlock_def split: sum.splits prod.splits) (metis snd_conv)+
qed (simp_all add: quiet_handlers [THEN quietD(1)] quiet_handlers [THEN quietD(2)] serves_submit serves_2pc)

subsection \<open>What the block producer leaves alone\<close>

text \<open>Executing a transaction keeps the slot table well-formed, whatever the database answers.\<close>

lemma failure_slots_wf: "slots_wf (c_slotLocks c) \<Longrightarrow> slots_wf (c_slotLocks (cleanupAfterFailureLocked tx c))"
  using sl.unlock_all_ok by (auto simp: cleanupAfterFailureLocked_def chain_ops split: TxType.splits)

lemma exec_lock_slots_wf:
  assumes "slots_wf (c_slotLocks c)" and "exec_lock G tx c e = (inc, c1, e1)"
  shows "slots_wf (c_slotLocks c1)"
proof -
  have r: "slots_wf (c_slotLocks c1)" if wf: "slots_wf (c_slotLocks c)" and l: "lock_read_set G tx c e = (inc, c1, e1)" for c e
  proof -
    obtain r t e2 where i: "lock_items (GetStorageAt G) (g_BytesToHash G) (tx_CrossShardTxID tx) (read_items (tx_RwSet tx)) [] (c_slotLocks c) e = (r, t, e2)"
      by (metis surj_pair)
    have "slots_wf t"
    proof (cases r)
      case None
      show ?thesis
        using lock_items_success [OF wf i [unfolded None]] by blast
    next
      case (Some err)
      show ?thesis
        using lock_items_failure [OF wf i [unfolded Some]] by simp
    qed
    then show ?thesis
      using l i failure_slots_wf cleanup_slots_wf
      by (auto simp: lock_read_set_def validateAndLockReadSetLocked_def clear_lock_def split: option.splits)
  qed
  have "slots_wf (c_slotLocks c1)" if "lock_read_set G tx (c\<lparr>c_funds := f\<rparr>) e' = (inc, c1, e1)" for f e'
    using r [OF _ that] assms(1) by simp
  then show ?thesis
    using assms r [OF assms(1)] failure_slots_wf [OF assms(1), of tx] by (auto simp: exec_lock_def Let_def split: if_splits prod.splits)
qed

lemma exec_one_slots_wf:
  "slots_wf (c_slotLocks c) \<Longrightarrow> exec_one G tx c e = Some (inc, c1, e1) \<Longrightarrow> slots_wf (c_slotLocks c1)"
  using exec_lock_slots_wf failure_slots_wf cleanup_slots_wf
  by (auto simp: exec_one_def Let_def split: if_splits option.splits prod.splits)

lemma ProduceBlock_slots_wf:
  assumes "slots_wf (c_slotLocks c)" and "ProduceBlock G H now c e = Some (r, c1, e1)"
  shows "slots_wf (c_slotLocks c1)"
proof -
  obtain txs c2 e2 where run: "exec_all G (sortTransactionsByPriority (c_currentTxs c)) [] c e = Some (txs, c2, e2)"
    using assms(2) by (auto simp: ProduceBlock_def split: option.splits)
  have "slots_wf (c_slotLocks c2)"
    by (rule exec_all_induct [OF run, where P = "\<lambda>_ c _. slots_wf (c_slotLocks c)"]) (auto intro: assms(1) exec_one_slots_wf)
  then show ?thesis
    using assms(2) run by (auto simp: ProduceBlock_def Let_def split: sum.splits prod.splits if_splits)
qed

lemma ProduceBlock_height:
  assumes "ProduceBlock G H now c e = Some (r, c1, e1)"
  shows "c_height c1 = c_height c \<or> c_height c1 = c_height c + 1"
proof -
  obtain txs c2 e2 where run: "exec_all G (sortTransactionsByPriority (c_currentTxs c)) [] c e = Some (txs, c2, e2)"
    using assms by (auto simp: ProduceBlock_def split: option.splits)
  then show ?thesis
    using assms exec_all_frame [OF run] by (auto simp: ProduceBlock_def chain_frame_def Let_def split: sum.splits prod.splits if_splits)
qed

lemma producer_tick_law:
  assumes "producer_tick E now s = Some s1"
  shows "\<exists>r e. ProduceBlock (en_geth E) (en_blockHash E) now (sv_chain s) (sv_evmState s) = Some (r, sv_chain s1, e)
    \<and> sv_blockBuffer s1 = sv_blockBuffer s \<and> sv_evmMu s1 = sv_evmMu s"
  using assms by (auto simp: producer_tick_def server_ProduceBlock_def sendBlockToOrchestratorShard_def http_do_def
      split: option.splits sum.splits prod.splits)

subsection \<open>Invariants\<close>

definition shard_inv :: "'s env \<Rightarrow> 's Server \<Rightarrow> bool" where
  "shard_inv E s \<longleftrightarrow> slots_wf (c_slotLocks (sv_chain s)) \<and> chain_linked (en_blockHash E) (sv_chain s) \<and> bb_inv (sv_blockBuffer s)"

lemma shard_step_inv:
  assumes "shard_step E T s s1" and "shard_inv E s" and "unat (c_height (sv_chain s)) + 1 < 2 ^ 64"
  shows "shard_inv E s1 \<and> unat (c_height (sv_chain s1)) \<le> unat (c_height (sv_chain s)) + 1"
  using assms(1)
proof (rule shard_stepE)
  fix rq
  assume "s1 = serve E T rq s"
  then show ?thesis
    using serve_law [of s E T rq] assms(2) by (simp add: shard_inv_def serves_def chain_linked_def)
next
  fix now
  assume "producer_tick E now s = Some s1"
  from producer_tick_law [OF this] obtain r e where
    run: "ProduceBlock (en_geth E) (en_blockHash E) now (sv_chain s) (sv_evmState s) = Some (r, sv_chain s1, e)"
      "sv_blockBuffer s1 = sv_blockBuffer s"
    by blast
  show ?thesis
    using ProduceBlock_slots_wf [OF _ run(1)] ProduceBlock_linked [OF _ assms(3) run(1)] ProduceBlock_height [OF run(1)]
      unat_Suc_u64 [OF assms(3)] assms(2) run(2) by (auto simp: shard_inv_def)
qed

lemma shard_steps_inv:
  assumes "(shard_step E T ^^ n) s s1" and "shard_inv E s" and "unat (c_height (sv_chain s)) + n < 2 ^ 64"
  shows "shard_inv E s1 \<and> unat (c_height (sv_chain s1)) \<le> unat (c_height (sv_chain s)) + n"
  using assms(1,3)
proof (induction n arbitrary: s1)
  case (Suc n)
  then obtain s2 where s2: "(shard_step E T ^^ n) s s2" "shard_step E T s2 s1"
    by auto
  from Suc.IH [OF s2(1)] Suc.prems(2) have "shard_inv E s2" "unat (c_height (sv_chain s2)) \<le> unat (c_height (sv_chain s)) + n"
    by simp_all
  with shard_step_inv [OF s2(2)] Suc.prems(2) show ?case
    by fastforce
qed (simp add: assms(2))

lemma serves_recover_step: "serves s (recover_step E k s)"
proof -
  have "serves s (snd (fetchOrchestratorBlock E k s))"
    by (simp add: fetchOrchestratorBlock_def http_do_def serves_def Let_def)
  then show ?thesis
    by (auto simp: recover_step_def intro: serves_trans [OF _ serves_process_block] split: prod.splits sum.splits option.splits)
qed

lemma serves_recover_loop:
  assumes "recover_loop E k n s = Some s1"
  shows "serves s s1"
  using recover_loop.raw_induct [of "\<lambda>E k n s s1. serves s s1", OF _ assms] serves_recover_step serves_trans
  by (metis option.inject serves_refl)

lemma serves_recover: "recoverFromOrchestrator E s = Some s1 \<Longrightarrow> serves s s1"
  using serves_recover_loop [of E] serves_trans [of s "s\<lparr>sv_sent := q\<rparr>" s1 for q]
  by (fastforce simp: recoverFromOrchestrator_def http_do_def serves_def Let_def split: if_splits sum.splits)

subsection \<open>Properties\<close>

lemma new_server_inv:
  assumes "NewServer E now persistent memory me url = Some s"
  shows "shard_inv E s \<and> c_height (sv_chain s) = 0"
proof -
  obtain s0 where s0: "NewServerForTest now persistent memory me url = Some s0" "recoverFromOrchestrator E (s0\<lparr>sv_done := Some False\<rparr>) = Some s"
    using assms by (auto simp: NewServer_def bind_eq_Some_conv)
  then have "shard_inv E s0" "c_height (sv_chain s0) = 0"
    using NewChain_linked [of "en_blockHash E" now me] bb_inv_New [of me 1 MaxBlockBuffer]
    by (auto simp: NewServerForTest_def shard_inv_def NewChain_def)
  with serves_recover [OF s0(2)] recover_buffer [OF s0(2)] show ?thesis
    by (simp add: shard_inv_def serves_def chain_linked_def)
qed

text \<open>C21. A shard keeps its invariants: whatever requests arrive, whenever the block producer ticks, and whatever the database
  and the orchestrator answer, from start-up on the table of slot locks is well-formed, the blocks are
  numbered consecutively and linked by their hashes, and the buffered orchestrator blocks lie ahead of
  the expected one, as long as fewer than 2^64 steps are taken.\<close>

theorem shard_invariants:
  assumes "NewServer E now persistent memory me url = Some s0" and "(shard_step E T ^^ n) s0 s" and "n < 2 ^ 64"
  shows "slots_wf (c_slotLocks (sv_chain s)) \<and> chain_linked (en_blockHash E) (sv_chain s) \<and> bb_inv (sv_blockBuffer s)"
  using shard_steps_inv [OF assms(2)] new_server_inv [OF assms(1)] assms(3) by (simp add: shard_inv_def)

text \<open>A trie without nodes.\<close>

definition sample_tries :: "unit tries" where
  "sample_tries = \<lparr>tries_OpenState = (\<lambda>_. Inr ()), tries_OpenStorage = (\<lambda>_ _ _. Inr ()), tries_Prove = (\<lambda>_ _. ([], None)),
     tries_Get = (\<lambda>_ _. Inr []), tries_AccountRoot = (\<lambda>_. None), tries_EmptyRoot = 0, tries_Keccak = (\<lambda>_. []),
     tries_KeccakHash = (\<lambda>_. 0), tries_AddrBytes = (\<lambda>_. [])\<rparr>"

theorem shard_invariants_witness:
  "\<exists>s0 s1 s. NewServer recovery_env 5 (Inr sample_mem) (Inl ''unused'') 2 ''http://o'' = Some s0
    \<and> producer_tick recovery_env 9 s0 = Some s1 \<and> s = serve recovery_env sample_tries (RqFaucet (Inr \<lparr>fr_Address = ''1'', fr_Amount = ''5''\<rparr>)) s1
    \<and> c_height (sv_chain s) = 1 \<and> chain_linked (en_blockHash recovery_env) (sv_chain s)"
proof -
  let ?f = "serve recovery_env sample_tries (RqFaucet (Inr \<lparr>fr_Address = ''1'', fr_Amount = ''5''\<rparr>))"
  have "case NewServer recovery_env 5 (Inr sample_mem) (Inl ''unused'') 2 ''http://o'' of None \<Rightarrow> False
      | Some s0 \<Rightarrow> (case producer_tick recovery_env 9 s0 of None \<Rightarrow> False | Some s1 \<Rightarrow> c_height (sv_chain (?f s1)) = 1)"
    by code_simp
  then obtain s0 s1 where run: "NewServer recovery_env 5 (Inr sample_mem) (Inl ''unused'') 2 ''http://o'' = Some s0"
    "producer_tick recovery_env 9 s0 = Some s1" "c_height (sv_chain (?f s1)) = 1"
    by (auto split: option.splits)
  have "(shard_step recovery_env sample_tries ^^ Suc (Suc 0)) s0 (?f s1)"
    by (rule relpowp_Suc_I, rule relpowp_Suc_I, rule relpowp_0_I, rule Tick, rule run(2), rule Serve)
  from shard_invariants [OF run(1) this] run show ?thesis
    by auto
qed

text \<open>C39. A prepare request without an amount stops all later ones: it panics while it holds the mutex of the EVM state, and in
  every state the shard can reach afterwards each well-formed prepare request blocks for ever.\<close>

theorem prepare_stuck:
  assumes "pr_Amount req = None" and "\<not> sv_evmMu s" and "(shard_step E T)\<^sup>*\<^sup>* (snd (handlePrepare E (Inr req) s)) s1"
  shows "fst (handlePrepare E (Inr req) s) = Panic \<and> handlePrepare E (Inr req1) s1 = (Blocked, s1)"
proof -
  have p: "handlePrepare E (Inr req) s = (Panic, s\<lparr>sv_evmMu := True\<rparr>)"
    using assms(1,2) by (simp add: handlePrepare_def)
  have "sv_evmMu s1"
    using assms(3)
  proof (induction rule: rtranclp_induct)
    case (step s1 s2)
    from step.hyps(2) step.IH show ?case
      using serve_law [of s1 E T] producer_tick_law [of E] by (auto elim!: shard_stepE simp: serves_def)
  qed (simp add: p)
  then show ?thesis
    by (simp add: p) (simp add: handlePrepare_def)
qed

theorem prepare_stuck_witness:
  "let req = \<lparr>pr_TxID = ''x'', pr_Address = 1, pr_Amount = None\<rparr>; s = snd (handlePrepare sample_env (Inr req) fresh_server) in
   handlePrepare sample_env (Inr (req\<lparr>pr_Amount := Some 30\<rparr>)) (serve sample_env sample_tries RqHealth s)
     = (Blocked, serve sample_env sample_tries RqHealth s)"
proof -
  let ?req = "\<lparr>pr_TxID = ''x'', pr_Address = 1, pr_Amount = None\<rparr>"
  let ?s = "snd (handlePrepare sample_env (Inr ?req) fresh_server)"
  have "(shard_step sample_env sample_tries)\<^sup>*\<^sup>* ?s (serve sample_env sample_tries RqHealth ?s)"
    by (rule r_into_rtranclp) (rule Serve)
  from prepare_stuck [OF _ fresh_server_facts(1) this] show ?thesis
    by (simp add: Let_def)
qed

end
