(* ===== verification/Cluster.thy ===== *)
theory Cluster
  imports Orchestrator_Service Shard_RPC
begin

text \<open>
  The composition of the service and the shards: the service broadcasts the blocks of its chain, the
  shards process them through their buffers, execute their queues and send back blocks with votes, and
  the network between them loses, repeats and reorders messages. The lemmas say what a shard shows of
  itself to the rest of the system, which blocks its buffer releases, which votes the service's chain
  has seen, and give the invariant of the system: every shard follows the chain, and every recorded vote
  was sent by the shard it is recorded for.
\<close>

subsection \<open>What leaves a shard\<close>

text \<open>The state blocks a shard has sent: requests make it send transactions and code, but no blocks.\<close>

fun body_blocks :: "payload \<Rightarrow> StateShardBlock list" where
  "body_blocks (BlockBody block) = [block]"
| "body_blocks _ = []"

definition sent_blocks :: "'s Server \<Rightarrow> StateShardBlock list" where
  "sent_blocks s = concat (map (\<lambda>q. body_blocks (rq_body q)) (sv_sent s))"

lemma sent_blocks_simps [simp]:
  "sent_blocks (s\<lparr>sv_evmState := e\<rparr>) = sent_blocks s" "sent_blocks (s\<lparr>sv_chain := c\<rparr>) = sent_blocks s"
  "sent_blocks (s\<lparr>sv_uuids := n\<rparr>) = sent_blocks s" "sent_blocks (s\<lparr>sv_receipts := r\<rparr>) = sent_blocks s"
  "sent_blocks (s\<lparr>sv_blockBuffer := bb\<rparr>) = sent_blocks s" "sent_blocks (s\<lparr>sv_evmMu := m\<rparr>) = sent_blocks s"
  "sent_blocks (add_tx E tx s) = sent_blocks s"
  by (simp_all add: sent_blocks_def)

lemma sent_blocks_send [simp]: "sent_blocks (s\<lparr>sv_sent := qs @ [q]\<rparr>) = sent_blocks (s\<lparr>sv_sent := qs\<rparr>) @ body_blocks (rq_body q)"
  "sent_blocks (s\<lparr>sv_uuids := n, sv_sent := qs\<rparr>) = sent_blocks (s\<lparr>sv_sent := qs\<rparr>)" 
  "sent_blocks (s\<lparr>sv_evmState := e, sv_sent := qs\<rparr>) = sent_blocks (s\<lparr>sv_sent := qs\<rparr>)" 
  "sent_blocks (s\<lparr>sv_sent := sv_sent s\<rparr>) = sent_blocks s" 
  by (simp_all add: sent_blocks_def)

lemma sent_blocks_accounts [simp]:
  "sent_blocks (snd (handleGetBalance E a s)) = sent_blocks s" "sent_blocks (snd (handleLocalTransfer E b1 s)) = sent_blocks s"
  "sent_blocks (snd (handleFaucet E b2 s)) = sent_blocks s" "sent_blocks (snd (handleCredit E b3 s)) = sent_blocks s"
  "sent_blocks (snd (handleGetCode E a s)) = sent_blocks s" "sent_blocks (snd (handleGetStateRoot E s)) = sent_blocks s"
  "sent_blocks (snd (handleStateFetch E b4 s)) = sent_blocks s" "sent_blocks (snd (handleHealth s)) = sent_blocks s"
  "sent_blocks (snd (handleInfo s)) = sent_blocks s"
  by (simp_all add: handleGetBalance_def handleLocalTransfer_def handleFaucet_def handleCredit_def handleGetCode_def
      handleGetStateRoot_def handleStateFetch_def handleHealth_def handleInfo_def Let_def split: result_splits)

lemma sent_blocks_contracts [simp]:
  "sent_blocks (snd (handleCall E b5 s)) = sent_blocks s" "sent_blocks (snd (handleStaticCall E b5 s)) = sent_blocks s"
  "sent_blocks (snd (handleSetCode E b6 s)) = sent_blocks s" "sent_blocks (snd (handleGetStorage E T a k p s)) = sent_blocks s"
  "sent_blocks (snd (handleRwSet E b7 s)) = sent_blocks s" "sent_blocks (snd (handleDeploy E b8 s)) = sent_blocks s"
  "sent_blocks (snd (handleCrossShardTransfer E b9 s)) = sent_blocks s" "sent_blocks (snd (forwardToOrchestrator E from to v data gas m s)) = sent_blocks s"
  by (simp_all add: handleCall_def handleStaticCall_def handleSetCode_def handleGetStorage_def handleRwSet_def handleDeploy_def
      handleCrossShardTransfer_def forwardToOrchestrator_def new_uuid_def http_do_def post_request_def Let_def split: result_splits)

lemma sent_blocks_rpc [simp]: "sent_blocks (snd (handleJSONRPC E b s)) = sent_blocks s"
proof -
  have "sent_blocks s1 = sent_blocks s" if "rpc_method E m ps s = Some (r, s1)" for m ps r s1
    using that by (auto simp: rpc_method_def rpc_account_def rpc_sendTransaction_def rpc_getReceipt_def rpc_call_def new_uuid_def Let_def
        split: if_splits list.splits option.splits prod.splits)
  then show ?thesis
    by (auto simp: handleJSONRPC_def split: sum.splits option.splits)
qed

text \<open>What the orchestrator and the rest of the cluster can tell of a shard.\<close>

definition outside :: "'s Server \<Rightarrow> StateShardBlock list \<times> u64 \<times> BlockBuffer \<times> int" where
  "outside s = (sent_blocks s, c_lastOrchestratorHeight (sv_chain s), sv_blockBuffer s, c_shardID (sv_chain s))"

lemma outside_quiet: "quiet s s1 \<Longrightarrow> sent_blocks s1 = sent_blocks s \<Longrightarrow> outside s1 = outside s"
  by (simp add: outside_def quiet_def)

lemma outside_add_tx [simp]: "outside (add_tx E tx s) = outside s"
  by (simp add: outside_def add_tx_def new_uuid_def AddTx_def)

lemma outside_submit: "outside (snd (handleTxSubmit E b s)) = outside s"
proof -
  have r: "outside s1 = outside s" if "submit_route E from to v data gas s = Some (r, s1)" for "from" to v data gas r s1
    using that by (auto simp: submit_route_def outside_def Let_def split: result_splits)
  have f: "outside (snd (forwardToOrchestrator E from to v data gas m s1)) = outside s1" for "from" to v data gas m s1
    by (rule outside_quiet) (simp_all add: quiet_contracts)
  have l: "outside (snd (queue_local E from to v data gas s1)) = outside s1" for "from" to v data gas s1
    by (auto simp: queue_local_def new_uuid_def outside_def add_tx_def AddTx_def Let_def split: result_splits)
  have valid: "outside (snd (handleTxSubmit E (Inr req) s)) = outside s" if "parse_value (ts_Value req) = Some v" "submit_valid E req s" for req v
    unfolding handleTxSubmit_run(2) [OF that] using r by (simp add: f l split: option.split route.split)
  show ?thesis
  proof (cases b)
    case (Inr req)
    show ?thesis
    proof (cases "parse_value (ts_Value req)")
      case None
      then show ?thesis
        by (simp add: Inr handleTxSubmit_def)
    next
      case (Some v)
      show ?thesis
        using valid [OF Some] handleTxSubmit_run(1) [OF Some, where E = E and s = s] by (cases "submit_valid E req s") (simp_all add: Inr)
    qed
  qed (simp add: handleTxSubmit_def)
qed

lemma outside_2pc:
  "outside (snd (handlePrepare E b1 s)) = outside s" "outside (snd (handleCommit E b2 s)) = outside s" "outside (snd (handleAbort b2 s)) = outside s"
  by (auto simp: handlePrepare_def handleCommit_def handleAbort_def outside_def LockFunds_def chain_ClearLock_def Let_def split: result_splits)

lemma serve_outside: "\<forall>b. rq \<noteq> RqBlock b \<Longrightarrow> outside (serve E T rq s) = outside s"
  by (cases rq) (simp_all add: outside_quiet quiet_handlers outside_submit outside_2pc)

text \<open>The producer sends at most one block, under the number of the shard.\<close>

lemma ProduceBlock_outside:
  assumes "ProduceBlock G H now c e = Some (r, c1, e1)"
  shows "c_shardID c1 = c_shardID c \<and> c_lastOrchestratorHeight c1 = c_lastOrchestratorHeight c \<and> (\<forall>block. r = Inr block \<longrightarrow> sb_ShardID block = c_shardID c)"
proof -
  obtain txs c2 e2 where run: "exec_all G (sortTransactionsByPriority (c_currentTxs c)) [] c e = Some (txs, c2, e2)"
    using assms by (auto simp: ProduceBlock_def split: option.splits)
  then show ?thesis
    using assms exec_all_frame [OF run] by (auto simp: ProduceBlock_def chain_frame_def Let_def split: sum.splits prod.splits if_splits)
qed

lemma tick_outside:
  assumes "producer_tick E now s = Some s1"
  shows "outside s1 = outside s \<or> (\<exists>block. outside s1 = (sent_blocks s @ [block], snd (outside s)) \<and> sb_ShardID block = c_shardID (sv_chain s))"
proof -
  obtain r c e where run: "ProduceBlock (en_geth E) (en_blockHash E) now (sv_chain s) (sv_evmState s) = Some (r, c, e)"
    using assms by (auto simp: producer_tick_def server_ProduceBlock_def split: option.splits)
  from ProduceBlock_outside [OF this] assms run show ?thesis
    by (cases r) (auto simp: producer_tick_def server_ProduceBlock_def sendBlockToOrchestratorShard_def http_do_def post_request_def outside_def)
qed

text \<open>Processing a block moves the height and sends nothing.\<close>

lemma outside_fold: "(\<And>x s. outside (f x s) = outside s) \<Longrightarrow> outside (fold f xs s) = outside s"
  by (induction xs arbitrary: s) auto

lemma outside_queue [simp]:
  "outside (queue_debit E x s) = outside s" "outside (queue_credits E x s) = outside s" "outside (queue_write_set E x s) = outside s"
  "outside (queue_finalize E x s) = outside s"
  by (auto simp: queue_debit_def queue_credits_def queue_write_set_def queue_finalize_def Let_def outside_fold split: option.splits)

lemma outside_process_result [simp]: "outside (process_result E r s) = outside s"
proof -
  have "outside (s\<lparr>sv_chain := c\<rparr>) = outside s" if "CheckAndMarkCommitProcessed x (sv_chain s) = (b, c)" for x b c
    using that by (auto simp: CheckAndMarkCommitProcessed_def outside_def split: if_splits)
  then show ?thesis
    by (auto simp: process_result_def Let_def split: prod.splits)
qed

lemma outside_process_order [simp]: "outside (process_order E tx s) = outside s"
proof -
  have "outside (store_credit tx s) = outside s" "outside (s\<lparr>sv_chain := StorePendingCall tx (sv_chain s)\<rparr>) = outside s" for s :: "'a Server"
    by (auto simp: store_credit_def StorePendingCredit_def StorePendingCall_def outside_def Let_def)
  then show ?thesis
    by (auto simp: process_order_def Let_def)
qed

lemma outside_process_block:
  "outside (processOrchestratorBlock E b s) =
     (sent_blocks s, max (ob_Height b) (c_lastOrchestratorHeight (sv_chain s)), sv_blockBuffer s, c_shardID (sv_chain s))"
proof -
  let ?s = "fold (process_order E) (ob_CtToOrder b) (fold (process_result E) (ob_TpcResult b) s)"
  have "outside ?s = outside s"
    by (simp add: outside_fold)
  then show ?thesis
    by (auto simp: processOrchestratorBlock_def outside_def SetLastOrchestratorHeight_def GetLastOrchestratorHeight_def max_def Let_def)
qed

text \<open>The blocks of a list that are not skipped, in the order in which they are processed.\<close>

fun fresh_blocks :: "u64 \<Rightarrow> OrchestratorShardBlock list \<Rightarrow> OrchestratorShardBlock list" where
  "fresh_blocks h [] = []"
| "fresh_blocks h (b # bs) = (if ob_Height b \<le> h then fresh_blocks h bs else b # fresh_blocks (ob_Height b) bs)"

lemma outside_process_blocks:
  "outside (fold (processOrchestratorBlock E) bs s) =
     (sent_blocks s, fold (\<lambda>b. max (ob_Height b)) bs (c_lastOrchestratorHeight (sv_chain s)), sv_blockBuffer s, c_shardID (sv_chain s))"
proof (induction bs arbitrary: s)
  case (Cons b bs)
  show ?case
    using outside_process_block [of E b s] unfolding fold_Cons comp_def Cons.IH by (simp add: outside_def)
qed (simp add: outside_def)

lemma outside_receive:
  assumes "ProcessBlock (sv_blockBuffer s) b = (bs, bb)"
  shows "outside (snd (receive_block E b s)) =
    (sent_blocks s, fold (\<lambda>b. max (ob_Height b)) bs (c_lastOrchestratorHeight (sv_chain s)), bb, c_shardID (sv_chain s))"
proof -
  have "snd (receive_block E b s) = fold (processOrchestratorBlock E) bs (s\<lparr>sv_blockBuffer := bb\<rparr>)"
    using assms by (simp add: receive_block_def Let_def)
  then show ?thesis
    by (simp add: outside_process_blocks)
qed

subsection \<open>Where released blocks come from\<close>

lemma drain_sub: "drain b r = (r', b') \<Longrightarrow> set r' \<subseteq> set r \<union> snd ` set (bb_buffered b) \<and> set (bb_buffered b') \<subseteq> set (bb_buffered b)"
proof (induction b r arbitrary: r' b' rule: drain.induct)
  case (1 b r)
  show ?case
  proof (cases "mget (bb_buffered b) (bb_expected b)")
    case None
    with "1.prems" show ?thesis
      by (simp add: drain.simps [of b])
  next
    case (Some x)
    let ?b = "b\<lparr>bb_buffered := mdel (bb_expected b) (bb_buffered b), bb_expected := bb_expected b + 1\<rparr>"
    have d: "drain ?b (r @ [x]) = (r', b')"
      using "1.prems" Some by (simp add: drain.simps [of b])
    have "x \<in> snd ` set (bb_buffered b)"
      using Some map_of_SomeD by force
    moreover have less: "set (bb_buffered ?b) \<subseteq> set (bb_buffered b)"
      by auto
    moreover note image_mono [OF less, of snd]
    ultimately show ?thesis
      using "1.IH" [OF Some d] less by (simp add: subset_iff) blast
  qed
qed

lemma ProcessBlock_sub:
  assumes "ProcessBlock b x = (out, b')"
  shows "set out \<union> snd ` set (bb_buffered b') \<subseteq> insert x (snd ` set (bb_buffered b))"
proof (cases "ob_Height x = bb_expected b")
  case True
  then have "drain (b\<lparr>bb_expected := bb_expected b + 1\<rparr>) [x] = (out, b')"
    using assms by (simp add: ProcessBlock_def)
  from drain_sub [OF this] show ?thesis
    by auto
next
  case False
  with assms show ?thesis
    by (auto simp: ProcessBlock_def split: if_splits dest!: in_set_mputD)
qed

subsection \<open>The service and the shards together\<close>

text \<open>
  The state of the whole system: the service, its shards (shard \<open>i\<close> at index \<open>i\<close>) and, to state the
  properties, the orchestrator blocks that each shard has processed so far. What has been sent stays in
  the logs of requests \<open>se_sent\<close> and \<open>sv_sent\<close>; the network may deliver any request of a log to its
  addressee at any later time, repeatedly, in any order, or never. An event that cannot happen has no
  successor.
\<close>

record ('d, 's) cluster =
  cl_service :: "'d Service"
  cl_shards :: "'s Server list"
  cl_applied :: "OrchestratorShardBlock list list"

text \<open>
  \<open>Client\<close> is any step of the service other than the receipt of a shard's block, \<open>Vote now i k\<close> the receipt
  of the \<open>k\<close>-th block that shard \<open>i\<close> has sent, \<open>Deliver k i\<close> the receipt of the \<open>k\<close>-th request of the service
  by shard \<open>i\<close>, \<open>Request i\<close> any other request to shard \<open>i\<close> and \<open>Tick i\<close> a turn of its block producer.
\<close>

datatype cluster_event = Client orch_input | Vote int nat nat | Deliver nat nat | Request nat request | Tick nat u64

fun from_shard :: "orch_input \<Rightarrow> bool" where
  "from_shard (InServe now (OrStateBlock b)) \<longleftrightarrow> True"
| "from_shard _ \<longleftrightarrow> False"

fun from_service :: "request \<Rightarrow> bool" where
  "from_service (RqBlock b) \<longleftrightarrow> True"
| "from_service _ \<longleftrightarrow> False"

definition orch_do :: "'d orch_env \<Rightarrow> orch_input \<Rightarrow> ('d, 's) cluster \<Rightarrow> ('d, 's) cluster option" where
  "orch_do Q inp c = map_option (\<lambda>s. c\<lparr>cl_service := s\<rparr>) (service_step Q (cl_service c) inp)"

definition shard_block :: "'s env \<Rightarrow> 't tries \<Rightarrow> nat \<Rightarrow> OrchestratorShardBlock \<Rightarrow> ('d, 's) cluster \<Rightarrow> ('d, 's) cluster" where
  "shard_block E T i b c =
     (let s = cl_shards c ! i;
          new = fresh_blocks (GetLastOrchestratorHeight (sv_chain s)) (fst (ProcessBlock (sv_blockBuffer s) b))
      in c\<lparr>cl_shards := (cl_shards c)[i := serve E T (RqBlock (Inr b)) s],
           cl_applied := (cl_applied c)[i := cl_applied c ! i @ new]\<rparr>)"

fun cluster_step :: "'d orch_env \<Rightarrow> (nat \<Rightarrow> 's env) \<Rightarrow> 't tries \<Rightarrow> ('d, 's) cluster \<Rightarrow> cluster_event \<Rightarrow> ('d, 's) cluster option" where
  "cluster_step Q E T c (Client inp) = (if from_shard inp then None else orch_do Q inp c)"
| "cluster_step Q E T c (Vote now i k) =
     (if i < length (cl_shards c) \<and> k < length (sent_blocks (cl_shards c ! i))
      then orch_do Q (InServe now (OrStateBlock (Inr (sent_blocks (cl_shards c ! i) ! k)))) c else None)"
| "cluster_step Q E T c (Deliver k i) =
     (if i < length (cl_shards c) \<and> k < length (se_sent (cl_service c)) \<and> oq_host (se_sent (cl_service c) ! k) = Service_shardURL (int i)
      then (case oq_body (se_sent (cl_service c) ! k) of BlockPayload b \<Rightarrow> Some (shard_block (E i) T i b c) | _ \<Rightarrow> None) else None)"
| "cluster_step Q E T c (Request i rq) =
     (if i < length (cl_shards c) \<and> \<not> from_service rq
      then Some (c\<lparr>cl_shards := (cl_shards c)[i := serve (E i) T rq (cl_shards c ! i)]\<rparr>) else None)"
| "cluster_step Q E T c (Tick i now) =
     (if i < length (cl_shards c)
      then map_option (\<lambda>s. c\<lparr>cl_shards := (cl_shards c)[i := s]\<rparr>) (producer_tick (E i) now (cl_shards c ! i)) else None)"

definition new_cluster :: "u64 \<Rightarrow> int \<Rightarrow> 'd BytecodeStore \<Rightarrow> string \<Rightarrow> 's EVMState list \<Rightarrow> ('d, 's) cluster" where
  "new_cluster now N bs url evms =
     \<lparr>cl_service = NewService now N bs,
      cl_shards = map (\<lambda>i. the (NewServerForTest now (Inr (evms ! i)) (Inr (evms ! i)) (int i) url)) [0..<length evms],
      cl_applied = replicate (length evms) []\<rparr>"

subsection \<open>The invariant of the cluster\<close>

definition follows :: "OrchestratorShardBlock list \<Rightarrow> int \<Rightarrow> OrchestratorShardBlock list \<Rightarrow> 's Server \<Rightarrow> bool" where
  "follows bs i applied s \<longleftrightarrow> c_shardID (sv_chain s) = i \<and> (\<forall>blk \<in> set (sent_blocks s). sb_ShardID blk = i)
     \<and> bb_inv (sv_blockBuffer s) \<and> snd ` set (bb_buffered (sv_blockBuffer s)) \<subseteq> set bs
     \<and> length applied < length bs \<and> applied = take (length applied) (tl bs)
     \<and> bb_expected (sv_blockBuffer s) = of_nat (Suc (length applied)) \<and> c_lastOrchestratorHeight (sv_chain s) = of_nat (length applied)"

lemma follows_mono: "follows bs i ap s \<Longrightarrow> bs \<noteq> [] \<Longrightarrow> follows (bs @ new) i ap s"
  by (auto simp: follows_def)

lemma follows_outside:
  assumes "follows bs i ap s" and "snd (outside s1) = snd (outside s)" and "\<forall>blk \<in> set (sent_blocks s1). sb_ShardID blk = i"
  shows "follows bs i ap s1"
  using assms by (simp add: follows_def outside_def)

lemma heights_consecutive:
  assumes "\<forall>j < length bs. ob_Height (bs ! j) = (of_nat j :: u64)" and "length bs \<le> 2 ^ 64" and "b \<in> set bs" and "ob_Height b = of_nat n" and "n < 2 ^ 64"
  shows "n < length bs \<and> b = bs ! n"
proof -
  obtain j where j: "j < length bs" "b = bs ! j"
    using assms(3) by (auto simp: in_set_conv_nth)
  have "unat (of_nat j :: u64) = unat (of_nat n :: u64)"
    using assms(1,4) j by auto
  then have "j = n"
    using j(1) assms(2,5) by (simp add: unsigned_of_nat take_bit_nat_eq_self_iff take_bit_nat_eq_self)
  with j show ?thesis by simp
qed

lemma of_nat_le_u64: "m < 2 ^ 64 \<Longrightarrow> n < 2 ^ 64 \<Longrightarrow> ((of_nat m :: u64) \<le> of_nat n) = (m \<le> n)"
  by (simp add: word_le_nat_alt unsigned_of_nat take_bit_nat_eq_self)

lemma fresh_consecutive:
  assumes "\<forall>j < length out. ob_Height (out ! j) = of_nat (Suc (n + j))" and "n + length out < 2 ^ 64"
  shows "fresh_blocks (of_nat n) out = out \<and> fold (\<lambda>b. max (ob_Height b)) out (of_nat n) = of_nat (n + length out)"
  using assms
proof (induction out arbitrary: n)
  case (Cons b out)
  have b: "ob_Height b = of_nat (Suc n)"
    using Cons.prems(1) by force
  have up: "\<not> ob_Height b \<le> of_nat n" "max (ob_Height b) (of_nat n) = of_nat (Suc n)"
    using Cons.prems(2) of_nat_le_u64 [of "Suc n" n] of_nat_le_u64 [of n "Suc n"] unfolding b by (simp_all add: max_def del: of_nat_Suc)
  have "\<forall>j < length out. ob_Height (out ! j) = of_nat (Suc (Suc n + j))"
    using Cons.prems(1) by force
  with Cons.IH [of "Suc n"] Cons.prems(2) up b show ?case
    by (simp del: of_nat_Suc)
qed simp

lemma released_in_chain:
  assumes lin: "\<forall>j < length bs. ob_Height (bs ! j) = (of_nat j :: u64)" and small: "length bs < 2 ^ 64" and n: "n < length bs"
    and out: "set out \<subseteq> set bs" "map ob_Height out = map (\<lambda>j. of_nat (Suc n) + of_nat j) [0..<length out]"
  shows "n + length out < length bs \<and> out = take (length out) (drop (Suc n) bs)"
proof -
  have h: "ob_Height (out ! j) = of_nat (Suc n + j)" if "j < length out" for j
    using arg_cong [OF out(2), of "\<lambda>xs. xs ! j"] that by simp
  have mem: "out ! j \<in> set bs" if "j < length out" for j
    using out(1) that by auto
  have at: "Suc n + j < length bs \<and> out ! j = bs ! (Suc n + j)" if "j < length out" for j
    using that
  proof (induction j)
    case 0
    then show ?case
      using heights_consecutive [OF lin _ mem h, of 0] small n by auto
  next
    case (Suc j)
    then show ?case
      using heights_consecutive [OF lin _ mem h, of "Suc j"] small by auto
  qed
  have len: "n + length out < length bs"
    using at [of "length out - 1"] n by (cases out) auto
  then have "out = take (length out) (drop (Suc n) bs)"
    using at by (intro nth_equalityI) auto
  with len show ?thesis by blast
qed

lemma follows_receive:
  assumes f: "follows bs i ap s" and lin: "\<forall>j < length bs. ob_Height (bs ! j) = (of_nat j :: u64)" and small: "length bs < 2 ^ 64" and b: "b \<in> set bs"
    and p: "ProcessBlock (sv_blockBuffer s) b = (out, bb)"
  shows "follows bs i (ap @ fresh_blocks (c_lastOrchestratorHeight (sv_chain s)) out) (snd (receive_block E b s))"
proof -
  let ?n = "length ap" and ?s = "snd (receive_block E b s)"
  have inv: "bb_inv (sv_blockBuffer s)" and ex: "bb_expected (sv_blockBuffer s) = of_nat (Suc ?n)" and last: "c_lastOrchestratorHeight (sv_chain s) = of_nat ?n"
    and n: "?n < length bs" and ap: "ap = take ?n (tl bs)" and buf: "snd ` set (bb_buffered (sv_blockBuffer s)) \<subseteq> set bs"
    using f by (simp_all add: follows_def)
  have sub: "set out \<subseteq> set bs" "snd ` set (bb_buffered bb) \<subseteq> set bs"
    using ProcessBlock_sub [OF p] b buf by blast+
  note hs = ProcessBlock_heights [OF p inv, unfolded ex]
  have len: "?n + length out < length bs" and out: "out = take (length out) (drop (Suc ?n) bs)"
    using released_in_chain [OF lin small n sub(1) hs(2)] by blast+
  have "\<forall>j < length out. ob_Height (out ! j) = of_nat (Suc (?n + j))"
    using lin len by (subst out) (auto simp del: of_nat_Suc)
  with len small have fr: "fresh_blocks (of_nat ?n) out = out" "fold (\<lambda>b. max (ob_Height b)) out (of_nat ?n) = of_nat (?n + length out)"
    using fresh_consecutive [of out ?n] by auto
  have o: "outside ?s = (sent_blocks s, of_nat (?n + length out), bb, c_shardID (sv_chain s))"
    using outside_receive [OF p, of E] last fr(2) by simp
  have "ap @ out = take (?n + length out) (tl bs)"
    using ap out by (metis drop_Suc drop_drop take_add drop_tl)
  moreover have "bb_inv bb"
    using ProcessBlock_inv [OF inv, of b] p by simp
  ultimately show ?thesis
    using f o sub(2) len hs(1) unfolding last fr(1) by (simp add: follows_def outside_def)
qed

subsection \<open>The chain of the service during a run\<close>

lemma oc_step_grows: "oc_step hashf c e = Some c1 \<Longrightarrow> \<exists>new. oc_blocks c1 = oc_blocks c @ new"
  by (cases e) (auto simp: AddTransaction_def CheckTimeouts_def Produce_blocks)

lemma oc_run_grows: "run_machine (oc_step hashf) c es = Some c1 \<Longrightarrow> \<exists>new. oc_blocks c1 = oc_blocks c @ new"
proof (induction es arbitrary: c)
  case (Cons e es)
  then obtain c2 where c2: "oc_step hashf c e = Some c2" "run_machine (oc_step hashf) c2 es = Some c1"
    by (auto split: Option.bind_splits)
  from oc_step_grows [OF this(1)] Cons.IH [OF this(2)] show ?case
    by auto
qed simp

lemma record_prepare_sent: "se_sent (fold (record_prepare i) vs s) = se_sent s"
  by (induction vs arbitrary: s) (simp_all add: record_prepare_def Let_def split: prod.splits)

lemma serve_sent: "se_sent (snd (orch_serve Q now rq s)) = se_sent s"
proof (cases rq)
  case (OrSubmit b)
  then show ?thesis
    by (auto simp: Service_handleSubmit_def with_id_def Let_def split: sum.splits)
next
  case (OrCall b)
  then show ?thesis
    by (auto simp: Service_handleCall_def with_id_def Let_def split: sum.splits prod.splits option.splits)
next
  case (OrStateBlock b)
  then show ?thesis
    by (auto simp: handleStateShardBlock_def record_prepare_sent split: sum.splits)
qed simp_all

lemma worker_sent: "worker_step Q now s = Some s1 \<Longrightarrow> se_sent s1 = se_sent s"
  by (erule worker_cases) (simp_all add: service_onError_def service_onSuccess_def)

lemma settle_sent: "se_sent (fold settle_result rs s) = se_sent s"
  by (induction rs arbitrary: s) simp_all

lemma tick_sent:
  assumes "service_tick Q now s = Some s1" and "rq \<in> set (se_sent s1)" and "rq \<notin> set (se_sent s)"
  shows "\<exists>b \<in> set (oc_blocks (se_chain s1)). oq_body rq = BlockPayload b"
proof -
  obtain block c where prod: "OC_ProduceBlock (oe_blockHash Q) now (se_chain s) = Some (block, c)"
    and s1: "s1 = broadcastBlock Q block (fold settle_result (ob_TpcResult block) (s\<lparr>se_chain := c\<rparr>))"
    using assms(1) by (auto simp: service_tick_def split: option.splits)
  let ?s = "fold settle_result (ob_TpcResult block) (s\<lparr>se_chain := c\<rparr>)"
  obtain m w where "broadcastBlock Q block ?s = ?s\<lparr>se_sent := se_sent ?s @ concat (map (\<lambda>i. replicate (m i) (block_request (int i) block))
      [0..<nat (se_numShards ?s)]), se_slept := se_slept ?s + w\<rparr>"
    using broadcast [of ?s Q block] by blast
  then have "oq_body rq = BlockPayload block"
    using assms(2,3) by (auto simp: s1 settle_sent block_request_def)
  then show ?thesis
    by (auto simp: s1 Produce_blocks [OF prod])
qed

lemma service_sent:
  assumes "service_step Q s inp = Some s1" and "rq \<in> set (se_sent s1)"
  shows "rq \<in> set (se_sent s) \<or> (\<exists>b \<in> set (oc_blocks (se_chain s1)). oq_body rq = BlockPayload b)"
proof (cases inp)
  case (InTick now)
  then show ?thesis
    using assms tick_sent [of Q now s s1 rq] by auto
qed (use assms worker_sent [of Q _ s s1] in \<open>auto simp: serve_sent Service_Close_def StateFetcher_Close_def Simulator_Stop_def Let_def split: prod.splits if_splits\<close>)

definition voted :: "('d, 's) cluster \<Rightarrow> txid \<Rightarrow> int \<Rightarrow> bool \<Rightarrow> bool" where
  "voted c t i v \<longleftrightarrow> 0 \<le> i \<and> nat i < length (cl_shards c) \<and> (\<exists>blk \<in> set (sent_blocks (cl_shards c ! nat i)). (t, v) \<in> set (sb_TpcPrepare blk))"

definition chain_run :: "'d orch_env \<Rightarrow> u64 \<Rightarrow> nat \<Rightarrow> (txid \<Rightarrow> int \<Rightarrow> bool \<Rightarrow> bool) \<Rightarrow> OrchestratorChain \<Rightarrow> bool" where
  "chain_run Q now n P c \<longleftrightarrow> (\<exists>es. run_machine (oc_step (oe_blockHash Q)) (oc_init now DefaultVoteTimeout) es = Some c
     \<and> produced es \<le> n \<and> (\<forall>t i v. EvVote t i v \<in> set es \<longrightarrow> P t i v))"

lemma chain_run_mono: "chain_run Q now n P c \<Longrightarrow> n \<le> m \<Longrightarrow> (\<And>t i v. P t i v \<Longrightarrow> R t i v) \<Longrightarrow> chain_run Q now m R c"
  unfolding chain_run_def by (meson le_trans)

lemma chain_run_step:
  assumes "chain_run Q now n P c" and "chain_step Q N inp c c1"
    and votes: "\<And>t v now blk. inp = InServe now (OrStateBlock (Inr blk)) \<Longrightarrow> (t, v) \<in> set (sb_TpcPrepare blk) \<Longrightarrow> P t (sb_ShardID blk) v"
  shows "chain_run Q now (Suc n) P c1 \<and> (\<exists>new. oc_blocks c1 = oc_blocks c @ new)"
proof -
  obtain es where es: "run_machine (oc_step (oe_blockHash Q)) (oc_init now DefaultVoteTimeout) es = Some c" "produced es \<le> n"
    "\<forall>t i v. EvVote t i v \<in> set es \<longrightarrow> P t i v"
    using assms(1) unfolding chain_run_def by blast
  obtain fs where fs: "run_machine (oc_step (oe_blockHash Q)) c fs = Some c1" "produced fs \<le> 1" "\<forall>e \<in> set fs. explains N inp e"
    using assms(2) unfolding chain_step_def by blast
  have "P t i v" if "EvVote t i v \<in> set fs" for t i v
    using fs(3) that votes by fastforce
  with es fs(1,2) have "chain_run Q now (Suc n) P c1"
    unfolding chain_run_def by (intro exI [of _ "es @ fs"]) (auto simp: run_machine_append)
  with oc_run_grows [OF fs(1)] show ?thesis by blast
qed

lemma chain_run_blocks:
  assumes "chain_run Q now n P c" and "10 + n < 2 ^ 64"
  shows "\<forall>j < length (oc_blocks c). ob_Height (oc_blocks c ! j) = (of_nat j :: u64)" and "length (oc_blocks c) < 2 ^ 64" and "oc_blocks c \<noteq> []"
    and "b \<in> set (oc_blocks c) \<Longrightarrow> mget (ob_TpcResult b) t = Some True \<Longrightarrow> \<exists>tx. ct_ID tx = t \<and> (\<forall>i \<in> set (InvolvedShards tx). P t i True)"
proof -
  obtain es where run: "run_machine (oc_step (oe_blockHash Q)) (oc_init now DefaultVoteTimeout) es = Some c" and n: "produced es \<le> n"
    and votes: "\<forall>t i v. EvVote t i v \<in> set es \<longrightarrow> P t i v"
    using assms(1) unfolding chain_run_def by blast
  have "oc_admissible DefaultVoteTimeout es"
    using n assms(2) by (simp add: oc_admissible_def DefaultVoteTimeout_def)
  from oc.run_reachable [OF this run] have inv: "oc_wf c" "oc_evidence es c" "oc_linked (oe_blockHash Q) c"
    by (simp_all add: oc_inv_def)
  have "unat (oc_height c) = produced es"
    using inv(2) by (simp add: oc_evidence_def)
  then have len: "length (oc_blocks c) = Suc (produced es)"
    using inv(1) by (simp add: oc_wf_def)
  then show "length (oc_blocks c) < 2 ^ 64" "oc_blocks c \<noteq> []"
    using n assms(2) by auto
  show "\<forall>j < length (oc_blocks c). ob_Height (oc_blocks c ! j) = (of_nat j :: u64)"
    using inv(3) by (simp add: oc_linked_def)
  assume "b \<in> set (oc_blocks c)" "mget (ob_TpcResult b) t = Some True"
  from evidence_published [OF inv(2) this] votes show "\<exists>tx. ct_ID tx = t \<and> (\<forall>i \<in> set (InvolvedShards tx). P t i True)"
    by (auto simp: decided_ok_def)
qed

definition cluster_inv :: "'d orch_env \<Rightarrow> int \<Rightarrow> u64 \<Rightarrow> nat \<Rightarrow> nat \<Rightarrow> ('d, 's) cluster \<Rightarrow> bool" where
  "cluster_inv Q N now m n c \<longleftrightarrow> service_inv N (cl_service c) \<and> chain_run Q now n (voted c) (se_chain (cl_service c))
     \<and> (\<forall>rq \<in> set (se_sent (cl_service c)). \<forall>b. oq_body rq = BlockPayload b \<longrightarrow> b \<in> set (oc_blocks (se_chain (cl_service c))))
     \<and> length (cl_shards c) = m \<and> length (cl_applied c) = m
     \<and> (\<forall>i < m. follows (oc_blocks (se_chain (cl_service c))) (int i) (cl_applied c ! i) (cl_shards c ! i))"

lemma cluster_service:
  assumes inv: "cluster_inv Q N now m n c" and small: "10 + n < 2 ^ 64" and step: "orch_do Q inp c = Some c1"
    and votes: "\<And>t v now blk. inp = InServe now (OrStateBlock (Inr blk)) \<Longrightarrow> (t, v) \<in> set (sb_TpcPrepare blk) \<Longrightarrow> voted c t (sb_ShardID blk) v"
  shows "cluster_inv Q N now m (Suc n) c1"
proof -
  let ?c = "se_chain (cl_service c)"
  obtain s1 where s1: "service_step Q (cl_service c) inp = Some s1" "c1 = c\<lparr>cl_service := s1\<rparr>"
    using step by (auto simp: orch_do_def)
  have run: "chain_run Q now n (voted c) ?c" and si: "service_inv N (cl_service c)"
    using inv by (simp_all add: cluster_inv_def)
  note stp = service_step_inv [OF si s1(1)]
  have "chain_run Q now (Suc n) (voted c) (se_chain s1) \<and> (\<exists>new. oc_blocks (se_chain s1) = oc_blocks ?c @ new)"
    by (rule chain_run_step [OF run conjunct2 [OF stp]]) (rule votes)
  then obtain new where run1: "chain_run Q now (Suc n) (voted c) (se_chain s1)" and new: "oc_blocks (se_chain s1) = oc_blocks ?c @ new"
    by blast
  have "voted c1 = voted c"
    by (simp add: s1(2) voted_def fun_eq_iff)
  moreover have "follows (oc_blocks (se_chain s1)) (int i) (cl_applied c ! i) (cl_shards c ! i)" if "i < m" for i
    unfolding new by (rule follows_mono [OF _ chain_run_blocks(3) [OF run small]]) (use inv that in \<open>simp add: cluster_inv_def\<close>)
  moreover have "b \<in> set (oc_blocks (se_chain s1))" if "rq \<in> set (se_sent s1)" "oq_body rq = BlockPayload b" for rq b
    using service_sent [OF s1(1) that(1)] that(2) inv unfolding new by (auto simp: cluster_inv_def)
  ultimately show ?thesis
    using run1 stp inv by (simp add: cluster_inv_def s1(2))
qed

text \<open>A shard changes: what it has sent stays sent, and it still follows the chain.\<close>

lemma cluster_shard:
  assumes inv: "cluster_inv Q N now m n c" and i: "i < m" and grows: "set (sent_blocks (cl_shards c ! i)) \<subseteq> set (sent_blocks s1)"
    and fol: "follows (oc_blocks (se_chain (cl_service c))) (int i) ap s1"
  shows "cluster_inv Q N now m (Suc n) (c\<lparr>cl_shards := (cl_shards c)[i := s1], cl_applied := (cl_applied c)[i := ap]\<rparr>)"
proof -
  let ?c1 = "c\<lparr>cl_shards := (cl_shards c)[i := s1], cl_applied := (cl_applied c)[i := ap]\<rparr>"
  have len: "length (cl_shards c) = m" "length (cl_applied c) = m" and run: "chain_run Q now n (voted c) (se_chain (cl_service c))"
    using inv by (simp_all add: cluster_inv_def)
  have up: "voted ?c1 t j v" if "voted c t j v" for t j v
    using that grows len(1) i by (cases "nat j = i") (auto simp: voted_def)
  have "chain_run Q now (Suc n) (voted ?c1) (se_chain (cl_service c))"
    by (rule chain_run_mono [OF run]) (simp_all add: up)
  moreover have "follows (oc_blocks (se_chain (cl_service c))) (int j) ((cl_applied c)[i := ap] ! j) ((cl_shards c)[i := s1] ! j)" if "j < m" for j
    using inv fol that i len by (cases "j = i") (simp_all add: cluster_inv_def)
  ultimately show ?thesis
    using inv by (simp add: cluster_inv_def)
qed

lemma cluster_shard_only:
  assumes "cluster_inv Q N now m n c" and "i < m" and "set (sent_blocks (cl_shards c ! i)) \<subseteq> set (sent_blocks s1)"
    and "follows (oc_blocks (se_chain (cl_service c))) (int i) (cl_applied c ! i) s1"
  shows "cluster_inv Q N now m (Suc n) (c\<lparr>cl_shards := (cl_shards c)[i := s1]\<rparr>)"
  using cluster_shard [OF assms] by simp

lemma cluster_vote:
  assumes inv: "cluster_inv Q N now m n c" and i: "i < m" and "blk \<in> set (sent_blocks (cl_shards c ! i))" and "(t, v) \<in> set (sb_TpcPrepare blk)"
  shows "voted c t (sb_ShardID blk) v"
proof -
  have "sb_ShardID blk = int i" "length (cl_shards c) = m"
    using inv i assms(3) by (simp_all add: cluster_inv_def follows_def)
  with assms(2-4) show ?thesis
    by (auto simp: voted_def)
qed

lemma cluster_deliver:
  assumes inv: "cluster_inv Q N now m n c" and small: "10 + n < 2 ^ 64" and i: "i < m" and b: "b \<in> set (oc_blocks (se_chain (cl_service c)))"
  shows "cluster_inv Q N now m (Suc n) (shard_block E T i b c)"
proof -
  let ?s = "cl_shards c ! i"
  have run: "chain_run Q now n (voted c) (se_chain (cl_service c))"
    and fol: "follows (oc_blocks (se_chain (cl_service c))) (int i) (cl_applied c ! i) ?s"
    using inv i by (simp_all add: cluster_inv_def)
  obtain out bb where p: "ProcessBlock (sv_blockBuffer ?s) b = (out, bb)"
    by fastforce
  have r: "snd (handleOrchestratorShardBlock E (Inr b) ?s) = snd (receive_block E b ?s)"
    by (simp add: handleOrchestratorShardBlock_def split: prod.splits)
  have "sent_blocks (snd (receive_block E b ?s)) = sent_blocks ?s"
    using outside_receive [OF p, of E] by (simp add: outside_def)
  then show ?thesis
    using cluster_shard [OF inv i _ follows_receive [OF fol chain_run_blocks(1,2) [OF run small] b p, of E]] p
    by (simp add: shard_block_def r GetLastOrchestratorHeight_def Let_def)
qed

lemma cluster_step_inv:
  assumes inv: "cluster_inv Q N now m n c" and small: "10 + n < 2 ^ 64" and step: "cluster_step Q E T c e = Some c1"
  shows "cluster_inv Q N now m (Suc n) c1"
proof -
  have len: "length (cl_shards c) = m" "length (cl_applied c) = m"
    using inv by (simp_all add: cluster_inv_def)
  have fol: "follows (oc_blocks (se_chain (cl_service c))) (int i) (cl_applied c ! i) (cl_shards c ! i)" if "i < m" for i
    using inv that by (simp add: cluster_inv_def)
  show ?thesis
  proof (cases e)
    case (Client inp)
    with step have "orch_do Q inp c = Some c1" "\<not> from_shard inp"
      by (auto split: if_splits)
    then show ?thesis
      using cluster_service [OF inv small] by fastforce
  next
    case (Vote now' i k)
    with step len have "i < m" "k < length (sent_blocks (cl_shards c ! i))"
      "orch_do Q (InServe now' (OrStateBlock (Inr (sent_blocks (cl_shards c ! i) ! k)))) c = Some c1"
      by (auto split: if_splits)
    then show ?thesis
      using cluster_service [OF inv small] cluster_vote [OF inv] by fastforce
  next
    case (Deliver k i)
    let ?rq = "se_sent (cl_service c) ! k"
    obtain b where "i < m" "?rq \<in> set (se_sent (cl_service c))" "oq_body ?rq = BlockPayload b" and c1: "c1 = shard_block (E i) T i b c"
      using step Deliver len by (auto split: if_splits orch_payload.splits)
    with inv have "i < m" "b \<in> set (oc_blocks (se_chain (cl_service c)))"
      unfolding cluster_inv_def by blast+
    then show ?thesis
      unfolding c1 by (rule cluster_deliver [OF inv small])
  next
    case (Request i rq)
    with step len have i: "i < m" "\<forall>b. rq \<noteq> RqBlock b" and c1: "c1 = c\<lparr>cl_shards := (cl_shards c)[i := serve (E i) T rq (cl_shards c ! i)]\<rparr>"
      by (auto split: if_splits)
    note o = serve_outside [OF i(2), of "E i" T "cl_shards c ! i"]
    have "follows (oc_blocks (se_chain (cl_service c))) (int i) (cl_applied c ! i) (serve (E i) T rq (cl_shards c ! i))"
      using o fol [OF i(1)] by (simp add: follows_def outside_def)
    then show ?thesis
      unfolding c1 using o by (intro cluster_shard_only [OF inv i(1)]) (simp_all add: outside_def)
  next
    case (Tick i now')
    then obtain s1 where i: "i < m" and tick: "producer_tick (E i) now' (cl_shards c ! i) = Some s1" and c1: "c1 = c\<lparr>cl_shards := (cl_shards c)[i := s1]\<rparr>"
      using step len by (auto split: if_splits)
    have "follows (oc_blocks (se_chain (cl_service c))) (int i) (cl_applied c ! i) s1"
      by (rule follows_outside [OF fol [OF i]]) (use tick_outside [OF tick] fol [OF i] in \<open>auto simp: follows_def outside_def\<close>)
    then show ?thesis
      unfolding c1 using tick_outside [OF tick] by (intro cluster_shard_only [OF inv i]) (auto simp: outside_def)
  qed
qed

lemma cluster_init: "cluster_inv Q N now (length evms) 0 (new_cluster now N bs url evms)"
proof -
  let ?c = "new_cluster now N bs url evms"
  have init: "oc_init now DefaultVoteTimeout = NewOrchestratorChain now"
    by (simp add: oc_init_def SetVoteTimeout_def NewOrchestratorChain_def)
  then have "chain_run Q now 0 (voted ?c) (se_chain (cl_service ?c))"
    unfolding chain_run_def by (intro exI [of _ "[]"]) (simp add: new_cluster_def NewService_def)
  moreover have "service_inv N (cl_service ?c)"
    using service_runs_init [of Q N now bs] by (simp add: service_runs_def new_cluster_def)
  moreover have "follows (oc_blocks (se_chain (cl_service ?c))) (int i) (cl_applied ?c ! i) (cl_shards ?c ! i)" if "i < length evms" for i
    using that by (simp add: new_cluster_def NewService_def NewOrchestratorChain_def NewServerForTest_def follows_def NewChain_def sent_blocks_def
        bb_inv_New, simp add: NewBlockBuffer_def)
  moreover have "se_sent (cl_service ?c) = []"
    by (simp add: new_cluster_def NewService_def)
  ultimately show ?thesis
    by (simp add: cluster_inv_def) (simp add: new_cluster_def)
qed

lemma cluster_reach:
  "run_machine (cluster_step Q E T) (new_cluster now N bs url evms) h = Some c \<Longrightarrow> 10 + length h < 2 ^ 64 \<Longrightarrow>
     cluster_inv Q N now (length evms) (length h) c"
proof (induction h arbitrary: c rule: rev_induct)
  case (snoc e h)
  then obtain c0 where "run_machine (cluster_step Q E T) (new_cluster now N bs url evms) h = Some c0" "cluster_step Q E T c0 e = Some c"
    by (auto simp: run_machine_append split: Option.bind_splits)
  with snoc show ?case
    using cluster_step_inv [of Q N now "length evms" "length h" c0 E T e c] by simp
qed (simp add: cluster_init)

end
