(* ===== verification/Network_Simulation.thy ===== *)
theory Network_Simulation
  imports Configuration
begin

text \<open>
  The HTTP client with simulated latency (\<open>internal/network/client.go\<close> and
  \<open>internal/network/delayed_transport.go\<close>). Durations are nanoseconds in 64-bit signed integers and wrap
  around. The generator of random numbers (\<open>math/rand\<close>) is a parameter: the value it yields for a seed,
  the number of values drawn before, and a positive bound, which it stays below. The round trip of the
  transport underneath is a function of the request. The time-out of the client is kept but not enforced.
\<close>

definition int64 :: "int \<Rightarrow> int" where
  "int64 i = signed_take_bit 63 i"

lemma int64_id: "- (2 ^ 63) \<le> i \<Longrightarrow> i < 2 ^ 63 \<Longrightarrow> int64 i = i"
  by (simp add: int64_def signed_take_bit_int_eq_self)

definition Millisecond :: int where
  "Millisecond = 1000000"

record DelayConfig =
  dc_Enabled :: bool
  dc_MinDelay :: int
  dc_MaxDelay :: int

record DelayedRoundTripper =
  rt_config :: DelayConfig
  rt_seed :: int
  rt_drawn :: nat

type_synonym rng = "int \<Rightarrow> nat \<Rightarrow> int \<Rightarrow> int"

text \<open>The counter of instances is shared by all transports of the process; \<open>now\<close> is \<open>UnixNano\<close>.\<close>

definition NewDelayedRoundTripper :: "int \<Rightarrow> DelayConfig \<Rightarrow> u64 \<Rightarrow> DelayedRoundTripper \<times> u64" where
  "NewDelayedRoundTripper now config instanceCounter =
     (let counter = instanceCounter + 1
      in (\<lparr>rt_config = config, rt_seed = int64 (now + sint counter), rt_drawn = 0\<rparr>, counter))"

text \<open>\<open>None\<close> is the panic of \<open>Int63n\<close> on a bound that is not positive.\<close>

definition calculateDelay :: "rng \<Rightarrow> DelayedRoundTripper \<Rightarrow> (int \<times> DelayedRoundTripper) option" where
  "calculateDelay rng d =
     (let min = dc_MinDelay (rt_config d); max = dc_MaxDelay (rt_config d)
      in if min < max
         then let delta = int64 (max - min)
              in if delta \<le> 0 then None
                 else Some (int64 (min + rng (rt_seed d) (rt_drawn d) delta), d\<lparr>rt_drawn := rt_drawn d + 1\<rparr>)
         else Some (min, d))"

text \<open>The result is the time slept, the answer and the new state of the transport.\<close>

definition RoundTrip :: "rng \<Rightarrow> ('q \<Rightarrow> 'r) \<Rightarrow> 'q \<Rightarrow> DelayedRoundTripper \<Rightarrow> (int \<times> 'r \<times> DelayedRoundTripper) option" where
  "RoundTrip rng base req d =
     (if dc_Enabled (rt_config d)
      then (case calculateDelay rng d of None \<Rightarrow> None | Some (delay, d1) \<Rightarrow> Some (max 0 delay, base req, d1))
      else Some (0, base req, d))"

datatype transport = DefaultTransport | Delayed DelayedRoundTripper

record Client =
  hc_Transport :: transport
  hc_Timeout :: int

definition delay_config :: "int \<Rightarrow> int \<Rightarrow> DelayConfig" where
  "delay_config minMs maxMs =
     \<lparr>dc_Enabled = True, dc_MinDelay = int64 (minMs * Millisecond), dc_MaxDelay = int64 (maxMs * Millisecond)\<rparr>"

definition NewHTTPClient :: "int \<Rightarrow> NetworkConfig \<Rightarrow> int \<Rightarrow> u64 \<Rightarrow> Client \<times> u64" where
  "NewHTTPClient now cfg timeout instanceCounter =
     (if nc_DelayEnabled cfg \<and> \<not> (nc_MinDelayMs cfg < 0 \<or> nc_MaxDelayMs cfg < 0)
      then let dc = (if nc_MaxDelayMs cfg < nc_MinDelayMs cfg then delay_config (nc_MaxDelayMs cfg) (nc_MinDelayMs cfg)
                     else delay_config (nc_MinDelayMs cfg) (nc_MaxDelayMs cfg));
               (d, counter) = NewDelayedRoundTripper now dc instanceCounter
           in (\<lparr>hc_Transport = Delayed d, hc_Timeout = timeout\<rparr>, counter)
      else (\<lparr>hc_Transport = DefaultTransport, hc_Timeout = timeout\<rparr>, instanceCounter))"

text \<open>A request through a client, below its time-out.\<close>

definition send_request :: "rng \<Rightarrow> ('q \<Rightarrow> 'r) \<Rightarrow> 'q \<Rightarrow> Client \<Rightarrow> (int \<times> 'r \<times> Client) option" where
  "send_request rng base req c =
     (case hc_Transport c of
        DefaultTransport \<Rightarrow> Some (0, base req, c)
      | Delayed d \<Rightarrow> map_option (\<lambda>(slept, r, d1). (slept, r, c\<lparr>hc_Transport := Delayed d1\<rparr>)) (RoundTrip rng base req d))"

text \<open>A sequence of requests through one client, with the times slept and the answers.\<close>

fun send_all :: "rng \<Rightarrow> ('q \<Rightarrow> 'r) \<Rightarrow> 'q list \<Rightarrow> Client \<Rightarrow> ((int \<times> 'r) list \<times> Client) option" where
  "send_all rng base [] c = Some ([], c)"
| "send_all rng base (q # qs) c =
     (case send_request rng base q c of
        None \<Rightarrow> None
      | Some (slept, r, c1) \<Rightarrow> map_option (\<lambda>(rs, c2). ((slept, r) # rs, c2)) (send_all rng base qs c1))"

subsection \<open>Delays\<close>

definition fair_rng :: "rng \<Rightarrow> bool" where
  "fair_rng rng \<longleftrightarrow> (\<forall>seed k n. 0 < n \<longrightarrow> 0 \<le> rng seed k n \<and> rng seed k n < n)"

definition delays_within :: "int \<Rightarrow> int \<Rightarrow> Client \<Rightarrow> bool" where
  "delays_within lo hi c \<longleftrightarrow> (case hc_Transport c of
     DefaultTransport \<Rightarrow> lo \<le> 0 \<and> 0 \<le> hi
   | Delayed d \<Rightarrow> 0 \<le> lo \<and> hi < 2 ^ 63 \<and> dc_Enabled (rt_config d) \<and> lo = dc_MinDelay (rt_config d) \<and> hi = dc_MaxDelay (rt_config d) \<and> lo \<le> hi)"

lemma calculateDelay_range:
  assumes "fair_rng rng" and "0 \<le> dc_MinDelay (rt_config d)" and "dc_MaxDelay (rt_config d) < 2 ^ 63" and "dc_MinDelay (rt_config d) \<le> dc_MaxDelay (rt_config d)"
  shows "\<exists>delay d1. calculateDelay rng d = Some (delay, d1) \<and> dc_MinDelay (rt_config d) \<le> delay \<and> delay \<le> dc_MaxDelay (rt_config d)
    \<and> rt_config d1 = rt_config d"
proof (cases "dc_MinDelay (rt_config d) < dc_MaxDelay (rt_config d)")
  case True
  let ?lo = "dc_MinDelay (rt_config d)" and ?hi = "dc_MaxDelay (rt_config d)"
  let ?r = "rng (rt_seed d) (rt_drawn d) (?hi - ?lo)"
  have delta: "int64 (?hi - ?lo) = ?hi - ?lo"
    using assms(2,3) True by (intro int64_id) simp_all
  have r: "0 \<le> ?r" "?r < ?hi - ?lo"
    using assms(1) True by (simp_all add: fair_rng_def)
  then have "int64 (?lo + ?r) = ?lo + ?r"
    using assms(2,3) by (intro int64_id) simp_all
  with True delta r show ?thesis
    by (simp add: calculateDelay_def Let_def)
qed (use assms(4) in \<open>simp add: calculateDelay_def Let_def\<close>)

lemma send_request_within:
  assumes "fair_rng rng" and "delays_within lo hi c"
  shows "\<exists>slept c1. send_request rng base q c = Some (slept, base q, c1) \<and> lo \<le> slept \<and> slept \<le> hi \<and> delays_within lo hi c1"
proof (cases "hc_Transport c")
  case DefaultTransport
  with assms(2) show ?thesis
    by (simp add: delays_within_def send_request_def)
next
  case (Delayed d)
  then have d: "0 \<le> lo" "hi < 2 ^ 63" "dc_Enabled (rt_config d)" "lo = dc_MinDelay (rt_config d)" "hi = dc_MaxDelay (rt_config d)" "lo \<le> hi"
    using assms(2) by (simp_all add: delays_within_def)
  obtain delay d1 where delay: "calculateDelay rng d = Some (delay, d1)" "lo \<le> delay" "delay \<le> hi" "rt_config d1 = rt_config d"
    using calculateDelay_range [OF assms(1), of d] d by auto
  have "send_request rng base q c = Some (delay, base q, c\<lparr>hc_Transport := Delayed d1\<rparr>)"
    using Delayed d(1,3) delay(1,2) by (simp add: send_request_def RoundTrip_def)
  moreover have "delays_within lo hi (c\<lparr>hc_Transport := Delayed d1\<rparr>)"
    using d by (simp add: delays_within_def delay(4))
  ultimately show ?thesis
    using delay(2,3) by blast
qed

lemma send_all_within:
  "fair_rng rng \<Longrightarrow> delays_within lo hi c \<Longrightarrow>
     \<exists>rs c1. send_all rng base qs c = Some (rs, c1) \<and> map snd rs = map base qs \<and> list_all (\<lambda>(slept, r). lo \<le> slept \<and> slept \<le> hi) rs"
proof (induction qs arbitrary: c)
  case (Cons q qs)
  obtain slept c1 where c1: "send_request rng base q c = Some (slept, base q, c1)" "lo \<le> slept" "slept \<le> hi" "delays_within lo hi c1"
    using send_request_within [OF Cons.prems, of base q] by blast
  obtain rs c2 where "send_all rng base qs c1 = Some (rs, c2)" "map snd rs = map base qs" "list_all (\<lambda>(slept, r). lo \<le> slept \<and> slept \<le> hi) rs"
    using Cons.IH [OF Cons.prems(1) c1(4)] by blast
  with c1(1-3) show ?case
    by simp
qed simp

lemma client_delays:
  assumes "NewHTTPClient now cfg timeout k = (c, k1)" and "nc_MinDelayMs cfg \<le> 9223372036854" and "nc_MaxDelayMs cfg \<le> 9223372036854"
  shows "delays_within (if nc_DelayEnabled cfg then max 0 (min (nc_MinDelayMs cfg) (nc_MaxDelayMs cfg)) * 1000000 else 0)
    (if nc_DelayEnabled cfg then max 0 (max (nc_MinDelayMs cfg) (nc_MaxDelayMs cfg)) * 1000000 else 0) c"
proof -
  have ms: "int64 (i * 1000000) = i * 1000000" if "0 \<le> i" "i \<le> 9223372036854" for i
    using that by (intro int64_id) simp_all
  show ?thesis
    using assms ms by (auto simp: NewHTTPClient_def NewDelayedRoundTripper_def delay_config_def delays_within_def Millisecond_def Let_def
        max_def min_def split: if_splits)
qed

subsection \<open>Property\<close>


definition sample_rng :: rng where
  "sample_rng seed k n = (if n = 0 then 0 else (seed + int k) mod n)"

definition sample_network :: NetworkConfig where
  "sample_network = \<lparr>nc_DelayEnabled = True, nc_MinDelayMs = 60, nc_MaxDelayMs = 30\<rparr>"


end
