(* ===== verification/Storage_Generator.thy ===== *)
theory Storage_Generator
  imports Shard_Server
begin

text \<open>
  The program that writes the initial databases of the shards (\<open>storage/create_storage.go\<close>): files of
  account and contract addresses derived from hashed names, and for every shard a database with funded
  accounts and deployed contracts, committed, with its root in a text file. A panic is \<open>None\<close>.

  Parameters stand for go-ethereum (state database, EVM, addresses, hexadecimal text), for SHA-256, for
  the errors of the operating system (\<open>ge_mkdir\<close>, \<open>ge_create\<close>, \<open>ge_write\<close>, \<open>ge_open\<close>) and for the creation
  codes of the three contracts, which the source has as literals. \<open>ge_flush\<close> is the commit of the trie
  database. The files written and the databases closed are the state.
\<close>

record 's gen_env =
  ge_geth :: "'s geth"
  ge_SetBalance :: "address \<Rightarrow> u256 \<Rightarrow> 's \<Rightarrow> 's"
  ge_open :: "string \<Rightarrow> string + 's"
  ge_flush :: "hash \<Rightarrow> 's \<Rightarrow> string option"
  ge_config :: config_reader
  ge_mkdir :: "string \<Rightarrow> string option"
  ge_create :: "string \<Rightarrow> string option"
  ge_write :: "string \<Rightarrow> string \<Rightarrow> string option"
  ge_Sum256 :: "byte list \<Rightarrow> byte list"
  ge_BytesToAddress :: "byte list \<Rightarrow> address"
  ge_HexToAddress :: "string \<Rightarrow> address"
  ge_addrHex :: "address \<Rightarrow> string"
  ge_hashHex :: "hash \<Rightarrow> string"
  ge_FromHex :: "string \<Rightarrow> byte list"
  ge_Bytes2Hex :: "byte list \<Rightarrow> string"
  ge_MustDecode :: "string \<Rightarrow> byte list option"
  ge_bytecode :: "string \<Rightarrow> string"

record 's gen_state =
  gs_files :: "(string, string) gomap"
  gs_dbs :: "(string, 's) gomap"

definition numContracts :: nat where
  "numContracts = 10"

definition storage_dir :: string where
  "storage_dir = ''./storage/test_statedb/''"

subsection \<open>Files\<close>

definition os_Create :: "'s gen_env \<Rightarrow> string \<Rightarrow> 's gen_state \<Rightarrow> string + 's gen_state" where
  "os_Create E path s =
     (case ge_create E path of Some err \<Rightarrow> Inl err | None \<Rightarrow> Inr (s\<lparr>gs_files := mput path [] (gs_files s)\<rparr>))"

definition WriteString :: "'s gen_env \<Rightarrow> string \<Rightarrow> string \<Rightarrow> 's gen_state \<Rightarrow> string + 's gen_state" where
  "WriteString E path txt s =
     (case ge_write E path txt of
        Some err \<Rightarrow> Inl err
      | None \<Rightarrow> Inr (s\<lparr>gs_files := mput path (mgetd [] (gs_files s) path @ txt) (gs_files s)\<rparr>))"

fun Fprintln_all :: "'s gen_env \<Rightarrow> string \<Rightarrow> string list \<Rightarrow> 's gen_state \<Rightarrow> string + 's gen_state" where
  "Fprintln_all E path [] s = Inr s"
| "Fprintln_all E path (l # ls) s =
     (case WriteString E path (l @ [CHR 0x0A]) s of Inl err \<Rightarrow> Inl err | Inr s1 \<Rightarrow> Fprintln_all E path ls s1)"

subsection \<open>Addresses\<close>

definition seed_address :: "'s gen_env \<Rightarrow> string \<Rightarrow> address" where
  "seed_address E seed = ge_BytesToAddress E (ge_Sum256 E (string_bytes seed))"

definition account_addresses :: "'s gen_env \<Rightarrow> int \<Rightarrow> address list" where
  "account_addresses E n = map (\<lambda>i. seed_address E (''shard-test-account-'' @ show_nat i)) [0..<nat n]"

definition contract_addresses :: "'s gen_env \<Rightarrow> string \<Rightarrow> address list" where
  "contract_addresses E contractType = map (\<lambda>i. seed_address E (contractType @ ''-contract-'' @ show_nat i)) [0..<numContracts]"

definition GenerateAddresses :: "'s gen_env \<Rightarrow> 's gen_state \<Rightarrow> string + 's gen_state" where
  "GenerateAddresses E s =
     (case os_Create E ''./storage/address.txt'' s of
        Inl err \<Rightarrow> Inl err
      | Inr s1 \<Rightarrow>
     (case LoadDefault (ge_config E) of
        Inl err \<Rightarrow> Inl err
      | Inr cfg \<Rightarrow> Fprintln_all E ''./storage/address.txt'' (map (ge_addrHex E) (account_addresses E (cf_TestAccountNum cfg))) s1))"

definition generateContractAddresses :: "'s gen_env \<Rightarrow> string \<Rightarrow> string \<Rightarrow> 's gen_state \<Rightarrow> string + 's gen_state" where
  "generateContractAddresses E filename contractType s =
     (case os_Create E filename s of
        Inl err \<Rightarrow> Inl err
      | Inr s1 \<Rightarrow> Fprintln_all E filename (map (ge_addrHex E) (contract_addresses E contractType)) s1)"

definition GenerateHotelAddresses :: "'s gen_env \<Rightarrow> 's gen_state \<Rightarrow> string + 's gen_state" where
  "GenerateHotelAddresses E = generateContractAddresses E ''./storage/hotelAddress.txt'' ''hotel''"

definition GenerateTrainAddresses :: "'s gen_env \<Rightarrow> 's gen_state \<Rightarrow> string + 's gen_state" where
  "GenerateTrainAddresses E = generateContractAddresses E ''./storage/trainAddress.txt'' ''train''"

definition GenerateTravelAddresses :: "'s gen_env \<Rightarrow> 's gen_state \<Rightarrow> string + 's gen_state" where
  "GenerateTravelAddresses E = generateContractAddresses E ''./storage/travelAddress.txt'' ''travel''"

definition parse_addresses :: "'s gen_env \<Rightarrow> string \<Rightarrow> address list" where
  "parse_addresses E txt = map (ge_HexToAddress E) (filter (\<lambda>l. l \<noteq> []) (map TrimSpace (split_lines txt)))"

definition getAddressesFromFile :: "'s gen_env \<Rightarrow> string \<Rightarrow> 's gen_state \<Rightarrow> address list option" where
  "getAddressesFromFile E filename s = map_option (parse_addresses E) (mget (gs_files s) filename)"

definition GetAddresses :: "'s gen_env \<Rightarrow> 's gen_state \<Rightarrow> address list option" where
  "GetAddresses E s = map_option (parse_addresses E) (mget (gs_files s) ''./storage/address.txt'')"

definition GetHotelAddresses :: "'s gen_env \<Rightarrow> 's gen_state \<Rightarrow> address list option" where
  "GetHotelAddresses E = getAddressesFromFile E ''./storage/hotelAddress.txt''"

definition GetTrainAddresses :: "'s gen_env \<Rightarrow> 's gen_state \<Rightarrow> address list option" where
  "GetTrainAddresses E = getAddressesFromFile E ''./storage/trainAddress.txt''"

definition GetTravelAddresses :: "'s gen_env \<Rightarrow> 's gen_state \<Rightarrow> address list option" where
  "GetTravelAddresses E = getAddressesFromFile E ''./storage/travelAddress.txt''"

subsection \<open>Contracts\<close>

definition GetDeployCode :: "'s gen_env \<Rightarrow> string \<Rightarrow> string \<Rightarrow> string \<Rightarrow> string \<Rightarrow> byte list option" where
  "GetDeployCode E contractName code arg1 arg2 =
     (if contractName = ''train'' \<or> contractName = ''hotel'' then ge_MustDecode E (''0x'' @ code)
      else if contractName = ''travel''
      then ge_MustDecode E (''0x'' @ code @ replicate 24 CHR ''0'' @ arg1 @ replicate 24 CHR ''0'' @ arg2)
      else Some [])"

fun find_address :: "'s gen_env \<Rightarrow> address \<Rightarrow> address list \<Rightarrow> nat option" where
  "find_address E a [] = None"
| "find_address E a (b # bs) = (if ge_addrHex E b = ge_addrHex E a then Some 0 else map_option Suc (find_address E a bs))"

text \<open>The code that is run to create the contract at an address.\<close>

definition deploy_code :: "'s gen_env \<Rightarrow> string \<Rightarrow> address list \<Rightarrow> address list \<Rightarrow> address list \<Rightarrow> address \<Rightarrow> byte list option" where
  "deploy_code E contractType trains hotels travels address =
     (let code = ge_Bytes2Hex E (ge_FromHex E (ge_bytecode E contractType))
      in if contractType = ''travel''
         then (case find_address E address travels of
                 None \<Rightarrow> None
               | Some index \<Rightarrow>
                   if length trains \<le> index \<or> length hotels \<le> index then None
                   else GetDeployCode E ''travel'' code (drop 2 (ge_addrHex E (trains ! index))) (drop 2 (ge_addrHex E (hotels ! index))))
         else GetDeployCode E contractType code [] [])"

definition deploy_ctx :: evm_ctx where
  "deploy_ctx = \<lparr>cx_Origin = 0, cx_BlockNumber = 0, cx_Time = 0, cx_GasLimit = 100000000\<rparr>"

definition deployer :: address where
  "deployer = 0x9999999999999999999999999999999999999999"

definition create_contract :: "'s gen_env \<Rightarrow> byte list \<Rightarrow> address \<Rightarrow> 's \<Rightarrow> 's option" where
  "create_contract E deployCode address db =
     (case run_evm (g_Create (ge_geth E) deploy_ctx deployer deployCode 10000000 0) (g_db (ge_geth E)) db of
        (res, db1) \<Rightarrow>
          (case er_err res of
             Some err \<Rightarrow> None
           | None \<Rightarrow> Some (snd (g_db (ge_geth E) (SetNonce address 1) (snd (g_db (ge_geth E) (SetCode address (er_ret res)) db1))))))"

fun contract_loop :: "'s gen_env \<Rightarrow> (address \<Rightarrow> byte list option) \<Rightarrow> int \<Rightarrow> int \<Rightarrow> address list \<Rightarrow> 's \<Rightarrow> 's option" where
  "contract_loop E code numShards shardID [] db = Some db"
| "contract_loop E code numShards shardID (address # addresses) db =
     (case addr_shard numShards address of
        None \<Rightarrow> None
      | Some shard \<Rightarrow>
          if shard \<noteq> shardID then contract_loop E code numShards shardID addresses db
          else (case code address of
                  None \<Rightarrow> None
                | Some deployCode \<Rightarrow>
               (case create_contract E deployCode address db of
                  None \<Rightarrow> None
                | Some db1 \<Rightarrow> contract_loop E code numShards shardID addresses db1)))"

text \<open>The lists of all addresses are read for travel agencies only.\<close>

definition setContractAccounts :: "'s gen_env \<Rightarrow> 's gen_state \<Rightarrow> address list \<Rightarrow> int \<Rightarrow> int \<Rightarrow> string \<Rightarrow> 's \<Rightarrow> 's option" where
  "setContractAccounts E s addresses numShards shardID contractType db =
     (if contractType = ''travel''
      then (case (GetTrainAddresses E s, GetHotelAddresses E s, GetTravelAddresses E s) of
              (Some trains, Some hotels, Some travels) \<Rightarrow>
                contract_loop E (deploy_code E contractType trains hotels travels) numShards shardID addresses db
            | _ \<Rightarrow> None)
      else contract_loop E (deploy_code E contractType [] [] []) numShards shardID addresses db)"

subsection \<open>Databases\<close>

fun fund_accounts :: "'s gen_env \<Rightarrow> int \<Rightarrow> int \<Rightarrow> address list \<Rightarrow> 's \<Rightarrow> 's option" where
  "fund_accounts E numShards shardID [] db = Some db"
| "fund_accounts E numShards shardID (address # addresses) db =
     (case addr_shard numShards address of
        None \<Rightarrow> None
      | Some shard \<Rightarrow>
          fund_accounts E numShards shardID addresses
            (if shard = shardID then snd (g_db (ge_geth E) (SetNonce address 0) (ge_SetBalance E address (10 ^ 18 + 200000) db)) else db))"

text \<open>The state of a shard before it is committed.\<close>

definition build_state :: "'s gen_env \<Rightarrow> Config \<Rightarrow> int \<Rightarrow> 's gen_state \<Rightarrow> 's \<Rightarrow> 's option" where
  "build_state E cfg shardID s db0 =
     (case GetAddresses E s of
        None \<Rightarrow> None
      | Some addresses \<Rightarrow>
     (case fund_accounts E (cf_ShardNum cfg) shardID addresses db0 of
        None \<Rightarrow> None
      | Some db1 \<Rightarrow>
          let db2 = ge_SetBalance E deployer (10 ^ 18) db1;
              set_accounts = (\<lambda>addresses contractType db. Option.bind db (\<lambda>db.
                Option.bind addresses (\<lambda>addresses. setContractAccounts E s addresses (cf_ShardNum cfg) shardID contractType db)))
          in set_accounts (GetTravelAddresses E s) ''travel''
               (set_accounts (GetTrainAddresses E s) ''train''
                 (set_accounts (GetHotelAddresses E s) ''hotel'' (Some db2)))))"

definition root_file :: "int \<Rightarrow> string" where
  "root_file shardID = ''shard'' @ show_int shardID @ ''_root.txt''"

definition CreateStorage :: "'s gen_env \<Rightarrow> int \<Rightarrow> 's gen_state \<Rightarrow> 's gen_state option" where
  "CreateStorage E shardID s =
     (case (LoadDefault (ge_config E), ge_open E (storage_dir @ show_int shardID)) of
        (Inr cfg, Inr db0) \<Rightarrow>
          (case build_state E cfg shardID s db0 of
             None \<Rightarrow> None
           | Some db \<Rightarrow>
          (case g_Commit (ge_geth E) 0 db of
             (Inl err, _) \<Rightarrow> None
           | (Inr root, db1) \<Rightarrow>
          (case os_Create E (storage_dir @ root_file shardID) s of
             Inl err \<Rightarrow> None
           | Inr s1 \<Rightarrow>
          (case WriteString E (storage_dir @ root_file shardID) (ge_hashHex E root) s1 of
             Inl err \<Rightarrow> None
           | Inr s2 \<Rightarrow>
               if ge_flush E root db1 \<noteq> None then None
               else Some (s2\<lparr>gs_dbs := mput (show_int shardID) db1 (gs_dbs s2)\<rparr>)))))
      | _ \<Rightarrow> None)"

fun create_all :: "'s gen_env \<Rightarrow> int list \<Rightarrow> 's gen_state \<Rightarrow> 's gen_state option" where
  "create_all E [] s = Some s"
| "create_all E (i # is) s = (case CreateStorage E i s of None \<Rightarrow> None | Some s1 \<Rightarrow> create_all E is s1)"

definition gen_main :: "'s gen_env \<Rightarrow> 's gen_state \<Rightarrow> 's gen_state option" where
  "gen_main E s0 =
     (case (ge_mkdir E storage_dir, LoadDefault (ge_config E)) of
        (None, Inr cfg) \<Rightarrow>
          (case GenerateAddresses E s0 of Inl err \<Rightarrow> None | Inr s1 \<Rightarrow>
          (case GenerateHotelAddresses E s1 of Inl err \<Rightarrow> None | Inr s2 \<Rightarrow>
          (case GenerateTrainAddresses E s2 of Inl err \<Rightarrow> None | Inr s3 \<Rightarrow>
          (case GenerateTravelAddresses E s3 of Inl err \<Rightarrow> None | Inr s4 \<Rightarrow>
             create_all E [0..cf_ShardNum cfg - 1] s4))))
      | _ \<Rightarrow> None)"

subsection \<open>What is read back\<close>

lemma mget_write: "WriteString E path txt s = Inr s1 \<Longrightarrow>
    mget (gs_files s1) p = (if p = path then Some (mgetd [] (gs_files s) path @ txt) else mget (gs_files s) p) \<and> gs_dbs s1 = gs_dbs s"
  by (auto simp: WriteString_def mget_mput split: option.splits)

lemma mget_create: "os_Create E path s = Inr s1 \<Longrightarrow>
    mget (gs_files s1) p = (if p = path then Some [] else mget (gs_files s) p) \<and> gs_dbs s1 = gs_dbs s"
  by (auto simp: os_Create_def mget_mput split: option.splits)

lemma mget_Fprintln:
  "Fprintln_all E path ls s = Inr s1 \<Longrightarrow> mget (gs_files s) path = Some old \<Longrightarrow>
     mget (gs_files s1) p = (if p = path then Some (old @ concat (map (\<lambda>l. l @ [CHR 0x0A]) ls)) else mget (gs_files s) p)"
proof (induction ls arbitrary: s old)
  case (Cons l ls)
  then obtain s2 where s2: "WriteString E path (l @ [CHR 0x0A]) s = Inr s2" "Fprintln_all E path ls s2 = Inr s1"
    by (auto split: sum.splits)
  have "mget (gs_files s2) path = Some (old @ l @ [CHR 0x0A])"
    using mget_write [OF s2(1)] Cons.prems(2) by (simp add: mgetd_def)
  from Cons.IH [OF s2(2) this] show ?case
    using mget_write [OF s2(1), of p] by simp
qed simp

definition hex_addresses :: "'s gen_env \<Rightarrow> bool" where
  "hex_addresses E \<longleftrightarrow> (\<forall>a. ge_HexToAddress E (ge_addrHex E a) = a \<and> ge_addrHex E a \<noteq> [] \<and> (\<forall>c \<in> set (ge_addrHex E a). \<not> is_space c))"

lemma parse_printed:
  assumes "hex_addresses E"
  shows "parse_addresses E (concat (map (\<lambda>l. l @ [CHR 0x0A]) (map (ge_addrHex E) as))) = as"
proof -
  have "c \<noteq> CHR 0x0A" if "c \<in> set (ge_addrHex E a)" for a c
    using assms that by (auto simp: hex_addresses_def is_space_def)
  then have "split_lines (concat (map (\<lambda>l. l @ [CHR 0x0A]) (map (ge_addrHex E) as))) = map (ge_addrHex E) as @ [[]]"
    by (intro split_lines_file) auto
  moreover have "TrimSpace (ge_addrHex E a) = ge_addrHex E a" "ge_addrHex E a \<noteq> []" "ge_HexToAddress E (ge_addrHex E a) = a" for a
    using assms by (auto simp: hex_addresses_def intro: TrimSpace_id)
  moreover have "TrimSpace [] = []"
    by (simp add: TrimSpace_def)
  ultimately show ?thesis
    by (simp add: parse_addresses_def comp_def)
qed

text \<open>The text of the file of one kind of addresses.\<close>

definition address_text :: "'s gen_env \<Rightarrow> address list \<Rightarrow> string" where
  "address_text E as = concat (map (\<lambda>l. l @ [CHR 0x0A]) (map (ge_addrHex E) as))"

lemma written_file:
  assumes "os_Create E path s = Inr s1" and "Fprintln_all E path (map (ge_addrHex E) as) s1 = Inr s2"
  shows "mget (gs_files s2) p = (if p = path then Some (address_text E as) else mget (gs_files s) p)"
proof -
  have "mget (gs_files s1) path = Some []"
    using mget_create [OF assms(1), of path] by simp
  from mget_Fprintln [OF assms(2) this, of p] show ?thesis
    using mget_create [OF assms(1), of p] by (simp add: address_text_def)
qed

lemma written_files:
  "GenerateAddresses E s = Inr s1 \<Longrightarrow> LoadDefault (ge_config E) = Inr cfg \<Longrightarrow>
     mget (gs_files s1) p = (if p = ''./storage/address.txt'' then Some (address_text E (account_addresses E (cf_TestAccountNum cfg))) else mget (gs_files s) p)"
  "generateContractAddresses E path ty s = Inr s1 \<Longrightarrow>
     mget (gs_files s1) p = (if p = path then Some (address_text E (contract_addresses E ty)) else mget (gs_files s) p)"
  by (auto simp: GenerateAddresses_def generateContractAddresses_def written_file split: sum.splits)

lemma show_int_inj: "show_int i = show_int j \<longleftrightarrow> i = j"
  by (metis option.inject set_string_show_int)

lemma root_file_inj: "root_file i = root_file j \<longleftrightarrow> i = j"
  by (simp add: root_file_def show_int_inj)

text \<open>The files of addresses, and what a database of a shard on disk is.\<close>

definition address_files :: "string list" where
  "address_files = [''./storage/address.txt'', ''./storage/hotelAddress.txt'', ''./storage/trainAddress.txt'', ''./storage/travelAddress.txt'']"

definition same_addresses :: "'s gen_state \<Rightarrow> 's gen_state \<Rightarrow> bool" where
  "same_addresses s s1 \<longleftrightarrow> (\<forall>p \<in> set address_files. mget (gs_files s1) p = mget (gs_files s) p)"

definition stored_shard :: "'s gen_env \<Rightarrow> Config \<Rightarrow> int \<Rightarrow> 's gen_state \<Rightarrow> bool" where
  "stored_shard E cfg i s \<longleftrightarrow> (\<exists>db0 db root db1. ge_open E (storage_dir @ show_int i) = Inr db0 \<and> build_state E cfg i s db0 = Some db
     \<and> g_Commit (ge_geth E) 0 db = (Inr root, db1) \<and> mget (gs_files s) (storage_dir @ root_file i) = Some (ge_hashHex E root)
     \<and> mget (gs_dbs s) (show_int i) = Some db1)"

lemma build_state_same: "same_addresses s s1 \<Longrightarrow> build_state E cfg i s1 db = build_state E cfg i s db"
  by (simp add: same_addresses_def address_files_def build_state_def setContractAccounts_def GetAddresses_def GetTravelAddresses_def
      GetTrainAddresses_def GetHotelAddresses_def getAddressesFromFile_def cong: option.case_cong)

lemma root_not_address: "p \<in> set address_files \<Longrightarrow> p \<noteq> storage_dir @ q"
  by (auto simp: address_files_def storage_dir_def)

lemma CreateStorage_step:
  assumes "CreateStorage E i s = Some s1"
  shows "same_addresses s s1 \<and> (\<exists>cfg. LoadDefault (ge_config E) = Inr cfg \<and> stored_shard E cfg i s1)
    \<and> (\<forall>j cfg. j \<noteq> i \<longrightarrow> stored_shard E cfg j s \<longrightarrow> stored_shard E cfg j s1)"
proof -
  let ?p = "storage_dir @ root_file i"
  obtain cfg db0 db root db1 s2 s3 where cfg: "LoadDefault (ge_config E) = Inr cfg" and open0: "ge_open E (storage_dir @ show_int i) = Inr db0"
    and build: "build_state E cfg i s db0 = Some db" and com: "g_Commit (ge_geth E) 0 db = (Inr root, db1)"
    and cr: "os_Create E ?p s = Inr s2" and wr: "WriteString E ?p (ge_hashHex E root) s2 = Inr s3"
    and s1: "s1 = s3\<lparr>gs_dbs := mput (show_int i) db1 (gs_dbs s3)\<rparr>"
    using assms by (auto simp: CreateStorage_def split: sum.splits option.splits prod.splits if_splits)
  have files: "mget (gs_files s1) p = (if p = ?p then Some (ge_hashHex E root) else mget (gs_files s) p)" for p
    using mget_write [OF wr, of p] mget_create [OF cr, of p] mget_create [OF cr, of ?p] by (simp add: s1 mgetd_def)
  have dbs: "mget (gs_dbs s1) k = (if k = show_int i then Some db1 else mget (gs_dbs s) k)" for k
    using mget_write [OF wr] mget_create [OF cr] by (simp add: s1 mget_mput)
  have same: "same_addresses s s1"
    using root_not_address by (auto simp: same_addresses_def files)
  moreover have "stored_shard E cfg i s1"
    using open0 build com by (auto simp: stored_shard_def build_state_same [OF same] files dbs)
  moreover have "stored_shard E c j s1" if "j \<noteq> i" "stored_shard E c j s" for c j
    using that by (simp add: stored_shard_def build_state_same [OF same] files dbs root_file_inj show_int_inj)
  ultimately show ?thesis
    using cfg by blast
qed

lemma create_all_stored:
  "create_all E is s = Some s1 \<Longrightarrow> LoadDefault (ge_config E) = Inr cfg \<Longrightarrow> distinct is \<Longrightarrow>
     same_addresses s s1 \<and> (\<forall>i. i \<in> set is \<or> stored_shard E cfg i s \<longrightarrow> stored_shard E cfg i s1)"
proof (induction "is" arbitrary: s)
  case (Cons i "is")
  obtain s2 where s2: "CreateStorage E i s = Some s2" "create_all E is s2 = Some s1"
    using Cons.prems(1) by (auto split: option.splits)
  note st = CreateStorage_step [OF s2(1)]
  have i: "stored_shard E cfg i s2"
    using st Cons.prems(2) by auto
  have keep: "stored_shard E cfg j s2" if "stored_shard E cfg j s" for j
    using st i that by (cases "j = i") auto
  have "same_addresses s s1"
    using st Cons.IH [OF s2(2) Cons.prems(2)] Cons.prems(3) by (auto simp: same_addresses_def)
  with i keep Cons.IH [OF s2(2) Cons.prems(2)] Cons.prems(3) show ?case
    by auto
qed (simp add: same_addresses_def)

subsection \<open>Properties\<close>

text \<open>What a shard finds in the directory the generator has written to.\<close>

definition disk_file :: "'s gen_state \<Rightarrow> string \<Rightarrow> string \<Rightarrow> string + string" where
  "disk_file s dir name = (case mget (gs_files s) (storage_dir @ name) of None \<Rightarrow> Inl ''no such file'' | Some txt \<Rightarrow> Inr txt)"

definition disk_db :: "'s gen_state \<Rightarrow> string \<Rightarrow> string \<Rightarrow> string + 's" where
  "disk_db s dir name = (case mget (gs_dbs s) name of None \<Rightarrow> Inl ''no such database'' | Some db \<Rightarrow> Inr db)"

lemma gen_main_cases:
  assumes "gen_main E s0 = Some s" and "LoadDefault (ge_config E) = Inr cfg"
  obtains s1 s2 s3 s4 where "GenerateAddresses E s0 = Inr s1" "GenerateHotelAddresses E s1 = Inr s2" "GenerateTrainAddresses E s2 = Inr s3"
    "GenerateTravelAddresses E s3 = Inr s4" "create_all E [0..cf_ShardNum cfg - 1] s4 = Some s"
  using assms by (auto simp: gen_main_def split: option.splits sum.splits)

text \<open>C33. Round trip through the files of addresses: when the generator has ended, reading back each of its four
  files gives exactly the list of addresses it was written from, in order.\<close>

theorem addresses_read_back:
  assumes "\<And>a. ge_HexToAddress E (ge_addrHex E a) = a" and "\<And>a. ge_addrHex E a \<noteq> []" and "\<And>a c. c \<in> set (ge_addrHex E a) \<Longrightarrow> \<not> is_space c"
    and "gen_main E s0 = Some s" and "LoadDefault (ge_config E) = Inr cfg"
  shows "GetAddresses E s = Some (account_addresses E (cf_TestAccountNum cfg)) \<and> GetHotelAddresses E s = Some (contract_addresses E ''hotel'')
    \<and> GetTrainAddresses E s = Some (contract_addresses E ''train'') \<and> GetTravelAddresses E s = Some (contract_addresses E ''travel'')"
proof -
  have hex: "hex_addresses E"
    using assms(1-3) by (auto simp: hex_addresses_def)
  obtain s1 s2 s3 s4 where gen: "GenerateAddresses E s0 = Inr s1" "GenerateHotelAddresses E s1 = Inr s2" "GenerateTrainAddresses E s2 = Inr s3"
    "GenerateTravelAddresses E s3 = Inr s4" "create_all E [0..cf_ShardNum cfg - 1] s4 = Some s"
    using gen_main_cases [OF assms(4,5)] .
  have "same_addresses s4 s"
    using create_all_stored [OF gen(5) assms(5)] by simp
  then have files: "mget (gs_files s) p = mget (gs_files s4) p" if "p \<in> set address_files" for p
    using that by (simp add: same_addresses_def)
  note written = written_files(1) [OF gen(1) assms(5)] written_files(2) [OF gen(2) [unfolded GenerateHotelAddresses_def]]
    written_files(2) [OF gen(3) [unfolded GenerateTrainAddresses_def]] written_files(2) [OF gen(4) [unfolded GenerateTravelAddresses_def]]
  show ?thesis
    by (simp add: GetAddresses_def GetHotelAddresses_def GetTrainAddresses_def GetTravelAddresses_def getAddressesFromFile_def
        files address_files_def written parse_printed [OF hex, folded address_text_def])
qed


text \<open>The accounts a database funds: after the loop over the file of accounts, an account has the initial
  balance in the database of a shard exactly if it is in the file and the last byte of its address, modulo
  the configured number of shards, is the number of the shard; all other balances are untouched.\<close>

lemma funded_accounts_exact:
  assumes "\<And>a v db. view (ge_SetBalance E a v db) = (view db)\<lparr>bal := (bal (view db))(a := v)\<rparr>"
    and "\<And>a n db. view (snd (g_db (ge_geth E) (SetNonce a n) db)) = view db"
    and "0 < N"
  shows "\<exists>db1. fund_accounts E N i addresses db = Some db1
    \<and> bal (view db1) = (\<lambda>a. if a \<in> set addresses \<and> int (last_byte a) mod N = i then 10 ^ 18 + 200000 else bal (view db) a)"
proof (induction addresses arbitrary: db)
  case (Cons a as)
  have "addr_shard N a = Some (int (last_byte a) mod N)"
    using assms(3) by (simp add: addr_shard_def)
  moreover obtain db1 where "fund_accounts E N i as (if int (last_byte a) mod N = i
      then snd (g_db (ge_geth E) (SetNonce a 0) (ge_SetBalance E a (10 ^ 18 + 200000) db)) else db) = Some db1"
    "bal (view db1) = (\<lambda>b. if b \<in> set as \<and> int (last_byte b) mod N = i then 10 ^ 18 + 200000
      else bal (view (if int (last_byte a) mod N = i then snd (g_db (ge_geth E) (SetNonce a 0) (ge_SetBalance E a (10 ^ 18 + 200000) db)) else db)) b)"
    using Cons.IH by blast
  ultimately show ?case
    using assms(1,2) by (auto simp: fun_eq_iff)
qed simp

text \<open>A sample environment: databases in memory, text of addresses in decimal, of hashes in 64 hexadecimal digits.\<close>

definition hash_bytes :: "hash \<Rightarrow> byte list" where
  "hash_bytes h = (let bs = nat_bytes (unat h) in replicate (32 - length bs) 0 @ bs)"

definition sample_config :: Config where
  "sample_config = \<lparr>cf_ShardNum = 1, cf_StorageDir = ''/storage/test_statedb/'', cf_TestAccountNum = 2,
     cf_Network = \<lparr>nc_DelayEnabled = False, nc_MinDelayMs = 0, nc_MaxDelayMs = 0\<rparr>\<rparr>"

definition sample_gen :: "mem gen_env" where
  "sample_gen = \<lparr>ge_geth = mem_geth, ge_SetBalance = (\<lambda>a v m. m\<lparr>m_bal := mput a v (m_bal m)\<rparr>),
     ge_open = (\<lambda>_. Inr \<lparr>m_bal = [], m_sto = [], m_snaps = []\<rparr>), ge_flush = (\<lambda>_ _. None), ge_config = (\<lambda>_. Inr (Inr sample_config)),
     ge_mkdir = (\<lambda>_. None), ge_create = (\<lambda>_. None), ge_write = (\<lambda>_ _. None), ge_Sum256 = id,
     ge_BytesToAddress = (\<lambda>bs. ucast (last bs)), ge_HexToAddress = (\<lambda>s. word_of_int (the (set_string s 10))), ge_addrHex = (\<lambda>a. show_int (uint a)),
     ge_hashHex = (\<lambda>h. ''0x'' @ hex_encode (hash_bytes h)), ge_FromHex = string_bytes, ge_Bytes2Hex = hex_encode,
     ge_MustDecode = (\<lambda>s. hex_decode (drop 2 s)), ge_bytecode = (\<lambda>_. ''ab'')\<rparr>"

definition sample_disk :: "mem gen_state" where
  "sample_disk = the (gen_main sample_gen \<lparr>gs_files = [], gs_dbs = []\<rparr>)"

lemma sample_disk_run: "gen_main sample_gen \<lparr>gs_files = [], gs_dbs = []\<rparr> = Some sample_disk"
proof -
  have "gen_main sample_gen \<lparr>gs_files = [], gs_dbs = []\<rparr> \<noteq> None"
    by code_simp
  then show ?thesis
    by (simp add: sample_disk_def)
qed

lemma length_nat_bytes: "n < 256 ^ k \<Longrightarrow> length (nat_bytes n) \<le> k"
proof (induction n arbitrary: k rule: nat_bytes.induct)
  case (1 n)
  show ?case
  proof (cases "n = 0")
    case False
    with 1(2) obtain j where k: "k = Suc j"
      by (cases k) auto
    have "n div 256 < 256 ^ j"
      using 1(2) by (simp add: k less_mult_imp_div_less mult.commute)
    then show ?thesis
      using False 1(1) [of j] by (subst nat_bytes.simps) (simp add: k)
  qed (simp add: nat_bytes.simps)
qed

lemma hash_bytes_length: "length (hash_bytes h) = 32"
proof -
  have "unat h < 256 ^ 32"
    using unsigned_less [of h, where ?'a = nat] by simp
  from length_nat_bytes [OF this] show ?thesis
    by (simp add: hash_bytes_def Let_def)
qed

lemma hash_bytes_nat: "bytes_nat (hash_bytes h) = unat h"
proof -
  have "fold (\<lambda>b n. n * 256 + unat b) (replicate k (0 :: byte)) 0 = 0" for k
    by (induction k) simp_all
  then show ?thesis
    using bytes_nat_bytes [of "unat h"] by (simp add: bytes_nat_def hash_bytes_def Let_def)
qed

lemma digit_not_space: "d < 16 \<Longrightarrow> \<not> is_space (digit_char d)"
  using digit_val_char [of d] by (auto simp: is_space_def digit_val_def Let_def)

lemma hex_encode_not_space: "c \<in> set (hex_encode bs) \<Longrightarrow> \<not> is_space c"
proof -
  have "unat b div 16 < 16" "unat b mod 16 < 16" for b :: byte
    using unsigned_less [of b, where ?'a = nat] by simp_all
  then show "c \<in> set (hex_encode bs) \<Longrightarrow> \<not> is_space c"
    by (auto simp: hex_encode_def digit_not_space)
qed

lemma sample_gen_hash:
  "length (ge_hashHex sample_gen h) = 66" "take 2 (ge_hashHex sample_gen h) = ''0x''" "c \<in> set (ge_hashHex sample_gen h) \<Longrightarrow> \<not> is_space c"
  "of_nat (bytes_nat (the (hex_decode (drop 2 (ge_hashHex sample_gen h))))) = h"
proof -
  have "length (hex_encode bs) = 2 * length bs" for bs
    by (induction bs) (simp_all add: hex_encode_def)
  then show "length (ge_hashHex sample_gen h) = 66" "take 2 (ge_hashHex sample_gen h) = ''0x''"
    "of_nat (bytes_nat (the (hex_decode (drop 2 (ge_hashHex sample_gen h))))) = h"
    by (simp_all add: sample_gen_def hash_bytes_length hex_decode_encode hash_bytes_nat)
  show "\<not> is_space c" if "c \<in> set (ge_hashHex sample_gen h)"
    using that hex_encode_not_space by (auto simp: sample_gen_def is_space_def)
qed

lemma sample_gen_address:
  "ge_HexToAddress sample_gen (ge_addrHex sample_gen a) = a" "ge_addrHex sample_gen a \<noteq> []" "c \<in> set (ge_addrHex sample_gen a) \<Longrightarrow> \<not> is_space c"
proof -
  show "ge_HexToAddress sample_gen (ge_addrHex sample_gen a) = a" "ge_addrHex sample_gen a \<noteq> []"
    by (simp_all add: sample_gen_def set_string_show_int) (simp add: show_int_def)
  assume "c \<in> set (ge_addrHex sample_gen a)"
  then have "c \<in> set (show_nat (unat a))"
    by (simp add: sample_gen_def show_int_def)
  then show "\<not> is_space c"
    using show_nat_chars digit_not_space by fastforce
qed

lemma sample_gen_config: "LoadDefault (ge_config sample_gen) = Inr sample_config"
  by (simp add: sample_gen_def LoadDefault_first)

theorem addresses_read_back_witness:
  "GetAddresses sample_gen sample_disk = Some [48, 49]"
proof -
  have "account_addresses sample_gen 2 = [48, 49]"
    by code_simp
  then show ?thesis
    using addresses_read_back [OF sample_gen_address sample_disk_run sample_gen_config] by (simp add: sample_config_def)
qed


end
