(* ===== verification/Main_Programs.thy ===== *)
theory Main_Programs
  imports Cluster Network_Simulation Storage_Generator
begin

text \<open>
  The main programs (\<open>cmd/orchestrator/main.go\<close> and \<open>cmd/shard/main.go\<close>): how the command line, the
  environment and the configuration file settle what a node is started with. A flag is given by the value
  that \<open>flag.Parse\<close> has read for it, if it was on the command line; \<open>getenv\<close> gives the empty string for
  a variable that is not set. The last theorem relates the three places that settle where an account lives.
\<close>

subsection \<open>Settings\<close>

text \<open>A number from the environment overrides the setting, unless it is empty or not a number.\<close>

definition env_int :: "string \<Rightarrow> int \<Rightarrow> int" where
  "env_int text standard = (if text \<noteq> [] then (case Atoi text of Some n \<Rightarrow> n | None \<Rightarrow> standard) else standard)"

definition env_string :: "string \<Rightarrow> string \<Rightarrow> string" where
  "env_string text standard = (if text \<noteq> [] then text else standard)"

definition flag_value :: "'a \<Rightarrow> 'a option \<Rightarrow> 'a" where
  "flag_value standard given = (case given of Some v \<Rightarrow> v | None \<Rightarrow> standard)"

definition network_settings :: "config_reader \<Rightarrow> NetworkConfig" where
  "network_settings read =
     (case LoadDefault read of
        Inl err \<Rightarrow> \<lparr>nc_DelayEnabled = False, nc_MinDelayMs = 0, nc_MaxDelayMs = 0\<rparr>
      | Inr cfg \<Rightarrow> cf_Network cfg)"

subsection \<open>The orchestrator\<close>

record orch_flags =
  of_shards :: "int option"
  of_port :: "int option"
  of_bytecodePath :: "string option"

record 'd orch_process =
  op_service :: "'d Service"
  op_fetchClient :: Client
  op_httpClient :: Client
  op_port :: int

text \<open>\<open>mkdir\<close> and \<open>open_db\<close> make the directory of the bytecode store and open its database, \<open>memory\<close> is a new one in
  memory. The service and its state fetcher make one client each, from the same network settings; \<open>clock\<close>
  gives the nanoseconds that seed them.\<close>

definition orchestrator_main :: "orch_flags \<Rightarrow> (string \<Rightarrow> string) \<Rightarrow> config_reader \<Rightarrow> (string \<Rightarrow> string option) \<Rightarrow> (string \<Rightarrow> string + 'd) \<Rightarrow> 'd
    \<Rightarrow> u64 \<Rightarrow> (nat \<Rightarrow> int) \<Rightarrow> 'd orch_process" where
  "orchestrator_main flags getenv read mkdir open_db memory now clock =
     (let numShards = env_int (getenv ''NUM_SHARDS'') (flag_value 6 (of_shards flags));
          port = env_int (getenv ''PORT'') (flag_value 8080 (of_port flags));
          bytecodePath = env_string (getenv ''BYTECODE_STORE_PATH'') (flag_value [] (of_bytecodePath flags));
          networkConfig = network_settings read;
          (fetchClient, counter) = NewHTTPClient (clock 0) networkConfig (10000 * Millisecond) 0;
          (httpClient, _) = NewHTTPClient (clock 1) networkConfig (10000 * Millisecond) counter
      in \<lparr>op_service = NewService now numShards (NewBytecodeStore bytecodePath (mkdir bytecodePath) (open_db bytecodePath) memory), op_fetchClient = fetchClient,
          op_httpClient = httpClient, op_port = port\<rparr>)"

subsection \<open>A shard\<close>

record shard_flags =
  sf_id :: "int option"
  sf_port :: "int option"
  sf_orchestrator :: "string option"

record 's shard_process =
  sp_server :: "'s Server"
  sp_httpClient :: Client
  sp_port :: int

text \<open>\<open>None\<close> is an exit with \<open>log.Fatal\<close>: no number is given for the shard, or neither state can be made; or a
  recovery that does not end. \<open>rootFile\<close> and \<open>open_db\<close> read the disk, \<open>fresh\<close> is a new database in memory.\<close>

definition shard_id :: "shard_flags \<Rightarrow> (string \<Rightarrow> string) \<Rightarrow> int option" where
  "shard_id flags getenv =
     (let shardID = flag_value (-1) (sf_id flags)
      in if shardID = -1 then Atoi (getenv ''SHARD_ID'') else Some shardID)"

definition shard_main :: "'s env \<Rightarrow> (string \<Rightarrow> hash) \<Rightarrow> shard_flags \<Rightarrow> (string \<Rightarrow> string) \<Rightarrow> config_reader
    \<Rightarrow> (string \<Rightarrow> string \<Rightarrow> string + string) \<Rightarrow> (string \<Rightarrow> string \<Rightarrow> string + 's) \<Rightarrow> (string + 's) \<Rightarrow> u64 \<Rightarrow> int \<Rightarrow> 's shard_process option" where
  "shard_main E HexToHash flags getenv read rootFile open_db fresh now nanos =
     (case shard_id flags getenv of
        None \<Rightarrow> None
      | Some shardID \<Rightarrow>
          let port = env_int (getenv ''PORT'') (flag_value 8545 (sf_port flags));
              orchestrator = env_string (getenv ''ORCHESTRATOR_URL'') (flag_value ''http://shard-orch:8080'' (sf_orchestrator flags));
              networkConfig = network_settings read;
              persistent = NewEVMState (en_geth E) HexToHash read rootFile open_db shardID
          in map_option (\<lambda>s. \<lparr>sp_server = s, sp_httpClient = fst (NewHTTPClient nanos networkConfig (10000 * Millisecond) 0), sp_port = port\<rparr>)
               (NewServer E now persistent (NewMemoryEVMState fresh) shardID orchestrator))"

text \<open>A shard that has started keeps the number it was given in its chain, which is empty up to the genesis
  block, and satisfies the invariants of the server.\<close>

lemma shard_main_starts:
  assumes "shard_main E HexToHash flags getenv read rootFile open_db fresh now nanos = Some p"
  shows "shard_id flags getenv = Some (c_shardID (sv_chain (sp_server p))) \<and> c_height (sv_chain (sp_server p)) = 0 \<and> shard_inv E (sp_server p)"
proof -
  obtain i url where i: "shard_id flags getenv = Some i"
    and s: "NewServer E now (NewEVMState (en_geth E) HexToHash read rootFile open_db i) (NewMemoryEVMState fresh) i url = Some (sp_server p)"
    using assms by (auto simp: shard_main_def Let_def split: option.splits)
  then obtain s0 where s0: "NewServerForTest now (NewEVMState (en_geth E) HexToHash read rootFile open_db i) (NewMemoryEVMState fresh) i url = Some s0"
    "recoverFromOrchestrator E (s0\<lparr>sv_done := Some False\<rparr>) = Some (sp_server p)"
    by (auto simp: NewServer_def bind_eq_Some_conv)
  have "c_shardID (sv_chain s0) = i"
    using s0(1) by (auto simp: NewServerForTest_def NewChain_def)
  then show ?thesis
    using serves_recover [OF s0(2)] new_server_inv [OF s] i by (simp add: serves_def)
qed

subsection \<open>Where an account lives\<close>

lemma placement_mod: "(\<forall>a. int (last_byte a) mod N = shard_of a) \<longleftrightarrow> N = 8" if "0 < N"
proof
  assume all: "\<forall>a. int (last_byte a) mod N = shard_of a"
  have "7 mod N = 7" "8 mod N = 0"
    using spec [OF all, of 7] spec [OF all, of 8] by (simp_all add: last_byte_mod shard_of_def NumShards_def)
  then have "7 < N" "N \<le> 8"
    using that pos_mod_bound [OF that, of 7] zdvd_imp_le [of N 8] by (simp_all add: mod_eq_0_iff_dvd)
  then show "N = 8"
    by simp
qed (simp add: shard_of_def NumShards_def)

text \<open>C34. The orchestrator, the generator of the initial state and the shards agree on where every account lives
  exactly if the number of shards they were given is eight, up to its sign: the shards have the number
  eight built in, the orchestrator takes it from its flag or from the environment (and 6 without either),
  the generator from the configuration file.\<close>

theorem placement_agrees:
  "((\<forall>a. AddressToShard (se_numShards (op_service (orchestrator_main flags getenv read mkdir open_db memory now clock))) a = Some (shard_of a))
      \<longleftrightarrow> \<bar>env_int (getenv ''NUM_SHARDS'') (flag_value 6 (of_shards flags))\<bar> = 8)
    \<and> ((\<forall>a. addr_shard (cf_ShardNum cfg) a = Some (shard_of a)) \<longleftrightarrow> \<bar>cf_ShardNum cfg\<bar> = 8)"
proof -
  have *: "(\<forall>a. (if n = 0 then None else Some (int (last_byte a) mod \<bar>n\<bar>)) = Some (shard_of a)) \<longleftrightarrow> \<bar>n\<bar> = 8" for n
    using placement_mod [of "\<bar>n\<bar>"] by auto
  show ?thesis
    unfolding AddressToShard_def addr_shard_def *
    by (simp add: orchestrator_main_def NewService_def Let_def split: prod.splits)
qed

end
